(* ===== verification/Tel_Prelude.thy ===== *)
theory Tel_Prelude
  imports Complex_Main "HOL-Library.Word" "HOL-Library.Signed_Division" "HOL-Library.AList"
begin

text \<open>
  What every theory of the development shares: the names of the machine types, the wrap-around
  of Go's 64-bit signed integers, Go's truncating division, the values of a float64 as far as
  the code looks at them, and lemmas on association lists, list update and sums that the
  component theories use. Go's int and int64 are 64 bits wide on the platforms the module is
  built for; a value of either type is an \<^typ>\<open>int\<close> and every addition or
  multiplication the code performs on one is followed by \<open>wrap64\<close>, which is the
  identity on the values in range. Unsigned values (hashes, epochs, rate counters) are words.
  Strings are Go's byte strings: a \<^typ>\<open>char\<close> is a byte.
\<close>

type_synonym u32 = "32 word"
type_synonym u64 = "64 word"
type_synonym addr = nat
type_synonym go_error = string

text \<open>Lemmas that preserve a component's invariant, and rewriting rules of its operations.\<close>

named_theorems inv_rules
named_theorems op_simps

section \<open>Machine integers\<close>

definition wrap64 :: "int \<Rightarrow> int" where
  "wrap64 x = signed_take_bit 63 x"

definition in_i64 :: "int \<Rightarrow> bool" where
  "in_i64 x \<longleftrightarrow> - (2 ^ 63) \<le> x \<and> x < 2 ^ 63"

lemma wrap64_id [simp]: "in_i64 x \<Longrightarrow> wrap64 x = x"
  unfolding wrap64_def in_i64_def by (rule signed_take_bit_int_eq_self) auto

lemma in_i64_wrap64 [simp]: "in_i64 (wrap64 x)"
  using signed_take_bit_int_greater_eq_minus_exp [of 63 x] signed_take_bit_int_less_exp [of 63 x]
  unfolding wrap64_def in_i64_def by blast

lemma wrap64_add: "wrap64 (wrap64 x + y) = wrap64 (x + y)" "wrap64 (x + wrap64 y) = wrap64 (x + y)"
  unfolding wrap64_def
  by (metis signed_take_bit_add signed_take_bit_signed_take_bit min.idem)+

lemma wrap64_diff: "wrap64 (wrap64 x - y) = wrap64 (x - y)" "wrap64 (x - wrap64 y) = wrap64 (x - y)"
  unfolding wrap64_def
  by (metis signed_take_bit_diff signed_take_bit_signed_take_bit min.idem)+

lemma in_i64_between: "in_i64 a \<Longrightarrow> in_i64 b \<Longrightarrow> a \<le> x \<Longrightarrow> x \<le> b \<Longrightarrow> in_i64 x"
  by (auto simp: in_i64_def)

lemma in_i64_small: "0 \<le> x \<Longrightarrow> x < 9223372036854775808 \<Longrightarrow> in_i64 x"
  by (simp add: in_i64_def)

text \<open>Go's \<open>/\<close> on signed integers truncates towards zero; the caller rules out divisor 0.\<close>

definition go_quot :: "int \<Rightarrow> int \<Rightarrow> int" where
  "go_quot a b = a sdiv b"

lemma go_quot_nonneg: "0 \<le> a \<Longrightarrow> 0 < b \<Longrightarrow> go_quot a b = a div b"
  by (cases "a = 0") (simp_all add: go_quot_def signed_divide_int_def)

lemma le_div_iff_int:
  assumes "0 < (m :: int)"
  shows "p \<le> a div m \<longleftrightarrow> p * m \<le> a"
proof
  assume "p \<le> a div m"
  then have "p * m \<le> a div m * m" using assms by (simp add: mult_right_mono)
  also have "\<dots> \<le> a" using assms by (simp add: minus_mod_eq_div_mult [symmetric])
  finally show "p * m \<le> a" .
next
  assume "p * m \<le> a"
  then have "p * m div m \<le> a div m" using assms by (rule zdiv_mono1)
  then show "p \<le> a div m" using assms by simp
qed

section \<open>Durations\<close>

text \<open>time.Duration counts nanoseconds in an int64.\<close>

definition second :: int where
  "second = 1000000000"

definition minute :: int where
  "minute = 60 * second"

definition millisecond :: int where
  "millisecond = 1000000"

section \<open>Floating point\<close>

text \<open>
  The float64 values the code compares. Rounding is the parameter \<open>rnd\<close> of the operations
  that compute a float64 (IEEE 754 round to nearest); a finite value is its exact rational, so
  the two zeros are one value, which no comparison of the code distinguishes.
\<close>

datatype float64 = Fin rat | PosInf | NegInf | NaN

fun f_less :: "float64 \<Rightarrow> float64 \<Rightarrow> bool" where
  "f_less NaN y = False"
| "f_less x NaN = False"
| "f_less (Fin a) (Fin b) = (a < b)"
| "f_less (Fin a) PosInf = True"
| "f_less (Fin a) NegInf = False"
| "f_less PosInf y = False"
| "f_less NegInf NegInf = False"
| "f_less NegInf (Fin b) = True"
| "f_less NegInf PosInf = True"

text \<open>Division by a nonzero finite value, the only division the code performs on float64.\<close>

fun f_div :: "(rat \<Rightarrow> float64) \<Rightarrow> float64 \<Rightarrow> rat \<Rightarrow> float64" where
  "f_div rnd (Fin a) d = rnd (a / d)"
| "f_div rnd PosInf d = (if d < 0 then NegInf else PosInf)"
| "f_div rnd NegInf d = (if d < 0 then PosInf else NegInf)"
| "f_div rnd NaN d = NaN"

section \<open>Association lists and list update\<close>

text \<open>A Go map that is also enumerated is an association list with distinct keys.\<close>

lemma map_of_AList_update [simp]:
  "map_of (AList.update k v al) k' = (if k' = k then Some v else map_of al k')"
  by (simp add: update_conv')

lemma length_AList_update_new:
  "map_of al k = None \<Longrightarrow> length (AList.update k v al) = Suc (length al)"
  by (induction al) (auto split: if_splits)

lemma distinct_AList_update:
  "distinct (map fst al) \<Longrightarrow> distinct (map fst (AList.update k v al))"
  by (rule distinct_update)

lemma length_distinct_dom:
  "distinct (map fst al) \<Longrightarrow> length al = card (dom (map_of al))"
  by (metis dom_map_of_conv_image_fst distinct_card length_map list.set_map)

lemma set_AList_update_keys: "fst ` set (AList.update k v al) = insert k (fst ` set al)"
  by (induction al) auto

lemma sum_list_map_update:
  fixes f :: "'a \<Rightarrow> int"
  shows "i < length xs \<Longrightarrow>
    sum_list (map f (xs[i := x])) = sum_list (map f xs) - f (xs ! i) + f x"
  by (induction xs arbitrary: i) (auto split: nat.splits)

lemma sum_list_nonneg_int:
  fixes f :: "'a \<Rightarrow> int"
  shows "(\<And>x. x \<in> set xs \<Longrightarrow> 0 \<le> f x) \<Longrightarrow> 0 \<le> sum_list (map f xs)"
  by (induction xs) auto

section \<open>Attributes and log lines\<close>

text \<open>
  An OpenTelemetry attribute.KeyValue as the code builds it (attribute.String, Int64 and Bool), and
  a log line as the chain of calls on a zerolog event builds it: level, fields in call order,
  message.
\<close>

datatype attrValue = VString string | VInt int | VBool bool | VFloat float64 | VBytes string
  | VAny string

type_synonym keyValue = "string \<times> attrValue"

datatype logLevel = DebugL | InfoL | WarnL | ErrorL | FatalL

record logLine =
  ll_level :: logLevel
  ll_fields :: "keyValue list"
  ll_msg :: string

end
