(* ===== verification/Go_Strings.thy ===== *)
theory Go_Strings
  imports Tel_Prelude "HOL-Library.Sublist"
begin

text \<open>
  The functions of Go's strings and strconv packages that the module calls, on byte strings:
  TrimSpace, Split, Cut, HasPrefix, TrimPrefix, LastIndex, Contains, ReplaceAll (of one byte),
  ToLower, ParseUint, Atoi, ParseBool and Itoa. ToLower of a string with a byte above 127 goes
  through the Unicode tables, which are the parameter \<open>ulower\<close>; on ASCII strings it is written
  out. ParseFloat and ParseDuration are parameters of the functions that call them.
\<close>

section \<open>White space\<close>

text \<open>The UTF-8 encodings of the code points for which unicode.IsSpace holds.\<close>

definition space_runes :: "string list" where
  "space_runes =
     map (\<lambda>b. [char_of b]) [9 :: nat, 10, 11, 12, 13, 32]
     @ map (map char_of) [[194 :: nat, 133], [194, 160], [225, 154, 128]]
     @ map (\<lambda>b. map char_of [226, 128, b]) ([128 ..< 139] @ [168, 169, 175 :: nat])
     @ map (map char_of) [[226 :: nat, 129, 159], [227, 128, 128]]"

definition lead_rune :: "string list \<Rightarrow> string \<Rightarrow> string option" where
  "lead_rune rs s = find (\<lambda>r. r \<noteq> [] \<and> prefix r s) rs"

lemma lead_rune_Some:
  "lead_rune rs s = Some r \<Longrightarrow> r \<noteq> [] \<and> prefix r s \<and> r \<in> set rs"
  by (auto simp: lead_rune_def find_Some_iff)

function trim_left :: "string list \<Rightarrow> string \<Rightarrow> string" where
  "trim_left rs s =
     (case lead_rune rs s of None \<Rightarrow> s | Some r \<Rightarrow> trim_left rs (drop (length r) s))"
  by pat_completeness auto
termination
proof (relation "measure (\<lambda>(rs, s). length s)", simp)
  fix rs s r
  assume "lead_rune rs s = Some r"
  then have "r \<noteq> []" and "length r \<le> length s"
    by (auto dest!: lead_rune_Some simp: prefix_length_le)
  then show "((rs, drop (length r) s), (rs, s)) \<in> measure (\<lambda>(rs, s). length s)"
    by (cases r) auto
qed

declare trim_left.simps [simp del]

definition trim_space :: "string \<Rightarrow> string" where
  "trim_space s = rev (trim_left (map rev space_runes) (rev (trim_left space_runes s)))"

lemma trim_left_stop: "lead_rune rs s = None \<Longrightarrow> trim_left rs s = s"
  by (subst trim_left.simps) simp

lemma lead_rune_trim_left: "lead_rune rs (trim_left rs s) = None"
proof (induction rs s rule: trim_left.induct)
  case (1 rs s)
  then show ?case
    by (cases "lead_rune rs s") (simp_all add: trim_left.simps [of rs s])
qed

lemma suffix_trim_left: "suffix (trim_left rs s) s"
proof (induction rs s rule: trim_left.induct)
  case (1 rs s)
  then show ?case
    by (cases "lead_rune rs s")
      (auto simp: trim_left.simps [of rs s] intro: suffix_order.trans suffix_drop)
qed

lemma lead_rune_prefix_None: "lead_rune rs s = None \<Longrightarrow> prefix t s \<Longrightarrow> lead_rune rs t = None"
  by (auto simp: lead_rune_def find_None_iff intro: prefix_order.trans)

lemma trim_space_idem [simp]: "trim_space (trim_space s) = trim_space s"
proof -
  let ?l = "trim_left space_runes s"
  let ?R = "map rev space_runes"
  let ?t = "trim_left ?R (rev ?l)"
  have "prefix (rev ?t) ?l"
    using suffix_trim_left [of ?R "rev ?l"] by (simp add: suffix_to_prefix)
  then have "lead_rune space_runes (rev ?t) = None"
    by (rule lead_rune_prefix_None [OF lead_rune_trim_left])
  moreover have "lead_rune ?R ?t = None" by (rule lead_rune_trim_left)
  ultimately show ?thesis by (simp add: trim_space_def trim_left_stop)
qed

lemma lead_rune_Nil [simp]: "lead_rune rs [] = None"
  by (auto simp: lead_rune_def find_None_iff)

lemma trim_space_Nil [simp]: "trim_space [] = []"
  by (simp add: trim_space_def trim_left_stop)

section \<open>Splitting and searching\<close>

text \<open>strings.Cut and strings.Split with a separator of one byte.\<close>

fun cut_at :: "char \<Rightarrow> string \<Rightarrow> (string \<times> string) option" where
  "cut_at c [] = None"
| "cut_at c (x # s) =
     (if x = c then Some ([], s) else map_option (\<lambda>(a, b). (x # a, b)) (cut_at c s))"

fun split_on :: "char \<Rightarrow> string \<Rightarrow> string list" where
  "split_on c [] = [[]]"
| "split_on c (x # s) =
     (if x = c then [] # split_on c s
      else (case split_on c s of [] \<Rightarrow> [[x]] | p # ps \<Rightarrow> (x # p) # ps))"

lemma cut_at_Some: "cut_at c s = Some (a, b) \<longleftrightarrow> s = a @ c # b \<and> c \<notin> set a"
proof (induction s arbitrary: a)
  case (Cons x s)
  show ?case
  proof (cases a)
    case Nil
    then show ?thesis by auto
  next
    case (Cons y a')
    then show ?thesis
      using Cons.IH [of a'] by (cases "x = c") auto
  qed
qed simp

lemma cut_at_None [simp]: "cut_at c s = None \<longleftrightarrow> c \<notin> set s"
  by (induction s) auto

lemma split_on_nonempty [simp]: "split_on c s \<noteq> []"
  by (induction s) (auto split: list.splits)

lemma split_on_pieces: "p \<in> set (split_on c s) \<Longrightarrow> c \<notin> set p"
  by (induction s arbitrary: p) (auto split: if_splits list.splits)

fun join_with :: "char \<Rightarrow> string list \<Rightarrow> string" where
  "join_with c [] = []"
| "join_with c [p] = p"
| "join_with c (p # q # ps) = p @ c # join_with c (q # ps)"

lemma join_with_Cons_byte: "join_with c ((x # p) # ps) = x # join_with c (p # ps)"
  by (cases ps) auto

lemma join_with_Nil_Cons: "ps \<noteq> [] \<Longrightarrow> join_with c ([] # ps) = c # join_with c ps"
  by (cases ps) auto

lemma join_split [simp]: "join_with c (split_on c s) = s"
proof (induction s)
  case (Cons x s)
  then show ?case
    by (cases "split_on c s") (auto simp: join_with_Cons_byte join_with_Nil_Cons)
qed simp

text \<open>strings.TrimPrefix.\<close>

definition trim_prefix :: "string \<Rightarrow> string \<Rightarrow> string" where
  "trim_prefix p s = (if prefix p s then drop (length p) s else s)"

text \<open>What follows the last occurrence of a byte (the idiom LastIndex / slice), or the string.\<close>

definition after_last :: "char \<Rightarrow> string \<Rightarrow> string" where
  "after_last c s = last (split_on c s)"

lemma after_last_notin: "c \<notin> set (after_last c s)"
  unfolding after_last_def by (rule split_on_pieces [of _ c s]) simp

lemma after_last_id: "c \<notin> set s \<Longrightarrow> after_last c s = s"
proof -
  have "c \<notin> set s \<Longrightarrow> split_on c s = [s]" by (induction s) auto
  then show "c \<notin> set s \<Longrightarrow> after_last c s = s" by (simp add: after_last_def)
qed

text \<open>strings.Contains.\<close>

definition contains :: "string \<Rightarrow> string \<Rightarrow> bool" where
  "contains s p = (p \<in> set (map (\<lambda>n. take (length p) (drop n s)) [0 ..< Suc (length s)]))"

text \<open>strings.ReplaceAll of one byte by one byte.\<close>

definition replace_byte :: "char \<Rightarrow> char \<Rightarrow> string \<Rightarrow> string" where
  "replace_byte old new s = map (\<lambda>c. if c = old then new else c) s"

lemma replace_byte_gone: "old \<noteq> new \<Longrightarrow> old \<notin> set (replace_byte old new s)"
  by (auto simp: replace_byte_def)

section \<open>Case\<close>

definition byte :: "char \<Rightarrow> nat" where
  "byte c = of_char c"

definition lower_byte :: "char \<Rightarrow> char" where
  "lower_byte c = (if 65 \<le> byte c \<and> byte c \<le> 90 then char_of (byte c + 32) else c)"

definition is_ascii :: "string \<Rightarrow> bool" where
  "is_ascii s = list_all (\<lambda>c. byte c < 128) s"

definition to_lower :: "(string \<Rightarrow> string) \<Rightarrow> string \<Rightarrow> string" where
  "to_lower ulower s = (if is_ascii s then map lower_byte s else ulower s)"

section \<open>Numbers\<close>

definition is_digit :: "char \<Rightarrow> bool" where
  "is_digit c = (48 \<le> byte c \<and> byte c \<le> 57)"

fun dec_value :: "nat \<Rightarrow> string \<Rightarrow> nat" where
  "dec_value acc [] = acc"
| "dec_value acc (c # s) = dec_value (10 * acc + (byte c - 48)) s"

text \<open>strconv.ParseUint(s, 10, 64); a syntax and a range error are both \<^const>\<open>None\<close>.\<close>

definition parse_uint64 :: "string \<Rightarrow> u64 option" where
  "parse_uint64 s =
     (if s = [] \<or> \<not> list_all is_digit s then None
      else let n = dec_value 0 s in if n < 2 ^ 64 then Some (word_of_nat n) else None)"

text \<open>strconv.Atoi on a 64-bit platform.\<close>

definition atoi_digits :: "bool \<Rightarrow> string \<Rightarrow> int option" where
  "atoi_digits neg s =
     (if s = [] \<or> \<not> list_all is_digit s then None
      else let n = int (dec_value 0 s)
           in if neg then (if n \<le> 2 ^ 63 then Some (- n) else None)
              else (if n < 2 ^ 63 then Some n else None))"

definition atoi :: "string \<Rightarrow> int option" where
  "atoi s = (case s of [] \<Rightarrow> None
     | c # r \<Rightarrow> if c = CHR ''-'' then atoi_digits True r
                else if c = CHR ''+'' then atoi_digits False r
                else atoi_digits False s)"

lemma atoi_in_i64: "atoi s = Some n \<Longrightarrow> in_i64 n"
  by (auto simp: atoi_def atoi_digits_def in_i64_def Let_def split: list.splits if_splits)

text \<open>strconv.ParseBool.\<close>

definition parse_bool :: "string \<Rightarrow> bool option" where
  "parse_bool s =
     (if s \<in> set [''1'', ''t'', ''T'', ''true'', ''TRUE'', ''True''] then Some True
      else if s \<in> set [''0'', ''f'', ''F'', ''false'', ''FALSE'', ''False''] then Some False
      else None)"

text \<open>strconv.Itoa.\<close>

fun show_nat :: "nat \<Rightarrow> string" where
  "show_nat n = (if n < 10 then [char_of (48 + n)] else show_nat (n div 10) @ [char_of (48 + n mod 10)])"

declare show_nat.simps [simp del]

definition itoa :: "int \<Rightarrow> string" where
  "itoa i = (if i < 0 then CHR ''-'' # show_nat (nat (- i)) else show_nat (nat i))"

lemma byte_digit [simp]: "d < 10 \<Longrightarrow> byte (char_of (48 + d)) = 48 + d"
  by (simp add: byte_def)

lemma show_nat_digits: "list_all is_digit (show_nat n)"
proof (induction n rule: show_nat.induct)
  case (1 n)
  then show ?case
    by (cases "n < 10") (simp_all add: show_nat.simps [of n] is_digit_def)
qed

lemma dec_value_append: "dec_value a (s @ t) = dec_value (dec_value a s) t"
  by (induction s arbitrary: a) auto

lemma dec_value_show [simp]: "dec_value 0 (show_nat n) = n"
proof (induction n rule: show_nat.induct)
  case (1 n)
  then show ?case
    by (cases "n < 10") (simp_all add: show_nat.simps [of n] dec_value_append)
qed

lemma show_nat_nonempty [simp]: "show_nat n \<noteq> []"
  by (subst show_nat.simps) simp

lemma show_nat_head: "show_nat n \<noteq> CHR ''-'' # r" "show_nat n \<noteq> CHR ''+'' # r"
  using show_nat_digits [of n] by (auto simp: is_digit_def byte_def)

lemma atoi_itoa: "in_i64 i \<Longrightarrow> atoi (itoa i) = Some i"
proof -
  assume i: "in_i64 i"
  have pos: "atoi (show_nat n) = atoi_digits False (show_nat n)" for n
    using show_nat_head [of n] by (auto simp: atoi_def split: list.splits)
  show ?thesis
    using i pos by (auto simp: itoa_def in_i64_def atoi_def [of "CHR ''-'' # _"]
        atoi_digits_def show_nat_digits Let_def)
qed

section \<open>Visible text\<close>

text \<open>Printable ASCII at both ends keeps TrimSpace off a string.\<close>

definition visible :: "char \<Rightarrow> bool" where
  "visible c \<longleftrightarrow> 32 < byte c \<and> byte c < 128"

lemma space_runes_ends:
  "\<forall>r \<in> set space_runes. r \<noteq> [] \<and> \<not> visible (hd r) \<and> \<not> visible (last r)"
  by code_simp

lemma trim_space_visible:
  assumes "s \<noteq> [] \<Longrightarrow> visible (hd s) \<and> visible (last s)"
  shows "trim_space s = s"
proof -
  have "lead_rune space_runes s = None"
  proof (rule ccontr)
    assume "lead_rune space_runes s \<noteq> None"
    then obtain r where r: "r \<noteq> []" "prefix r s" "r \<in> set space_runes"
      using lead_rune_Some by blast
    then have "hd r = hd s" "s \<noteq> []" by (auto simp: prefix_def)
    then show False using r assms space_runes_ends by auto
  qed
  moreover have "lead_rune (map rev space_runes) (rev s) = None"
  proof (rule ccontr)
    assume "lead_rune (map rev space_runes) (rev s) \<noteq> None"
    then obtain q where "q \<noteq> []" "prefix q (rev s)" "q \<in> set (map rev space_runes)"
      using lead_rune_Some by blast
    then obtain r where r: "r \<noteq> []" "prefix (rev r) (rev s)" "r \<in> set space_runes" by auto
    then have "last r = last s" "s \<noteq> []"
      using r(1) by (auto simp: prefix_def) (metis last_append last_rev rev_append rev_rev_ident hd_append2 rev_is_Nil_conv hd_rev)+
    then show False using r assms space_runes_ends by auto
  qed
  ultimately show ?thesis by (simp add: trim_space_def trim_left_stop)
qed

lemma split_on_append: "c \<notin> set p \<Longrightarrow> split_on c (p @ c # s) = p # split_on c s"
  by (induction p) auto

lemma split_on_single: "c \<notin> set p \<Longrightarrow> split_on c p = [p]"
  by (induction p) auto

lemma split_join: "ps \<noteq> [] \<Longrightarrow> \<forall>p \<in> set ps. c \<notin> set p \<Longrightarrow> split_on c (join_with c ps) = ps"
  by (induction c ps rule: join_with.induct) (auto simp: split_on_append split_on_single)

lemma parse_uint64_show: "n < 2 ^ 64 \<Longrightarrow> parse_uint64 (show_nat n) = Some (word_of_nat n)"
  by (simp add: parse_uint64_def show_nat_digits Let_def)

lemma show_nat_visible: "c \<in> set (show_nat n) \<Longrightarrow> is_digit c"
  using show_nat_digits [of n] by (simp add: list_all_iff)
end
