(* ===== verification/Defaults.thy ===== *)
theory Defaults
  imports Tel_Prelude
begin

text \<open>The constants of defaults.go.\<close>

definition defaultServiceUnknown :: string where "defaultServiceUnknown = ''unknown''"
definition defaultVersion :: string where "defaultVersion = ''dev''"
definition defaultNamespace :: string where "defaultNamespace = ''default''"
definition defaultEnvironment :: string where "defaultEnvironment = ''dev''"
definition defaultLogEncode :: string where "defaultLogEncode = ''console''"
definition defaultLogLevel :: string where "defaultLogLevel = ''info''"
definition defaultDebugLogEncode :: string where "defaultDebugLogEncode = ''console''"
definition defaultDebugLogLevel :: string where "defaultDebugLogLevel = ''debug''"

definition defaultMonitorAddr :: string where "defaultMonitorAddr = ''127.0.0.1:8011''"
definition defaultOTLPGRPCAddr :: string where "defaultOTLPGRPCAddr = ''127.0.0.1:4317''"
definition defaultReadHeaderTimeout :: int where "defaultReadHeaderTimeout = 5 * second"
definition defaultMonitorWriteTimeout :: int where "defaultMonitorWriteTimeout = 5 * second"
definition defaultMonitorIdleTimeout :: int where "defaultMonitorIdleTimeout = 60 * second"

definition defaultMetricsPeriodicIntervalSec :: int where
  "defaultMetricsPeriodicIntervalSec = 15"

definition defaultMetricsPeriodicInterval :: int where
  "defaultMetricsPeriodicInterval = defaultMetricsPeriodicIntervalSec * second"

definition defaultMaxCardinality :: int where "defaultMaxCardinality = 100"
definition defaultMaxInstruments :: int where "defaultMaxInstruments = 500"
definition defaultDiagnosticInterval :: int where "defaultDiagnosticInterval = 10 * minute"
definition defaultWarnUtilizationPct :: int where "defaultWarnUtilizationPct = 80"

definition attrKeySubject :: string where "attrKeySubject = ''subject''"
definition attrKeyStatus :: string where "attrKeyStatus = ''status''"
definition attrKeyConsumer :: string where "attrKeyConsumer = ''consumer''"

definition defaultTracesSampler :: string where
  "defaultTracesSampler = ''parentbased_statustraceidratio:0.1''"

definition defaultDebugTracesSampler :: string where "defaultDebugTracesSampler = ''always''"

lemmas default_defs =
  defaultServiceUnknown_def defaultVersion_def defaultNamespace_def defaultEnvironment_def
  defaultLogEncode_def defaultLogLevel_def defaultDebugLogEncode_def defaultDebugLogLevel_def
  defaultMonitorAddr_def defaultOTLPGRPCAddr_def defaultMetricsPeriodicIntervalSec_def
  defaultMetricsPeriodicInterval_def defaultMaxCardinality_def defaultMaxInstruments_def
  defaultDiagnosticInterval_def defaultWarnUtilizationPct_def defaultTracesSampler_def
  defaultDebugTracesSampler_def second_def minute_def

end
