(* ===== verification/Detector.thy ===== *)
theory Detector
  imports Defaults
begin

text \<open>
  The state of the cardinality detector (cardinality.go): its settings with the clamping of the
  constructor, the three event counters (atomic.Int64, so additions wrap) and the two channels,
  each as whether it has been closed. A nil detector is \<^const>\<open>None\<close>. The parts that read the
  cache (report, Snapshot, Observe) and the background goroutine are in theory Cardinality\_Report.
\<close>

record cardinalitySettings =
  cs_MaxCardinality :: int
  cs_MaxInstruments :: int
  cs_DiagnosticInterval :: int
  cs_WarnUtilizationPct :: int
  cs_Enable :: bool
  cs_DenyUnknown :: bool

record cardinalityDetector =
  cd_stopCh :: bool
  cd_doneCh :: bool
  cd_cfg :: cardinalitySettings
  cd_records :: int
  cd_overflows :: int
  cd_denied :: int
  cd_warned :: bool

definition newCardinalityDetector :: "cardinalitySettings \<Rightarrow> cardinalityDetector" where
  "newCardinalityDetector cfg =
     (let interval = (if cs_DiagnosticInterval cfg \<le> 0 then defaultDiagnosticInterval
                      else cs_DiagnosticInterval cfg);
          maxCardinality = (if cs_MaxCardinality cfg \<le> 0 then defaultMaxCardinality
                            else cs_MaxCardinality cfg);
          maxInstruments = (if cs_MaxInstruments cfg \<le> 0 then defaultMaxInstruments
                            else cs_MaxInstruments cfg);
          warnPct0 = (if cs_WarnUtilizationPct cfg < 0 then 0 else cs_WarnUtilizationPct cfg);
          warnPct = (if warnPct0 > 100 then 100 else warnPct0)
      in \<lparr> cd_stopCh = False, cd_doneCh = False,
           cd_cfg = \<lparr> cs_MaxCardinality = maxCardinality, cs_MaxInstruments = maxInstruments,
                      cs_DiagnosticInterval = interval, cs_WarnUtilizationPct = warnPct,
                      cs_Enable = cs_Enable cfg, cs_DenyUnknown = cs_DenyUnknown cfg \<rparr>,
           cd_records = 0, cd_overflows = 0, cd_denied = 0, cd_warned = False \<rparr>)"

definition ObserveMiss ::
  "cardinalityDetector option \<Rightarrow> string \<Rightarrow> bool \<Rightarrow> cardinalityDetector option" where
  "ObserveMiss d subject overflow =
     (case d of None \<Rightarrow> None
      | Some d \<Rightarrow>
          if \<not> cs_Enable (cd_cfg d) then Some d
          else let d1 = d\<lparr>cd_records := wrap64 (cd_records d + 1)\<rparr>
               in Some (if overflow then d1\<lparr>cd_overflows := wrap64 (cd_overflows d1 + 1)\<rparr>
                        else d1))"

definition ObserveDenied ::
  "cardinalityDetector option \<Rightarrow> string \<Rightarrow> cardinalityDetector option" where
  "ObserveDenied d subject =
     (case d of None \<Rightarrow> None
      | Some d \<Rightarrow>
          if \<not> cs_Enable (cd_cfg d) then Some d
          else Some (d\<lparr>cd_denied := wrap64 (cd_denied d + 1)\<rparr>))"

definition Stats :: "cardinalityDetector \<Rightarrow> int \<times> int" where
  "Stats d = (cd_records d, cd_overflows d)"

definition Denied :: "cardinalityDetector option \<Rightarrow> int" where
  "Denied d = (case d of None \<Rightarrow> 0 | Some d \<Rightarrow> cd_denied d)"

text \<open>The constructor's clamping, as a predicate every operation keeps.\<close>

definition settings_ok :: "cardinalitySettings \<Rightarrow> bool" where
  "settings_ok cfg \<longleftrightarrow> 0 < cs_MaxCardinality cfg \<and> 0 < cs_MaxInstruments cfg \<and>
     0 < cs_DiagnosticInterval cfg \<and> 0 \<le> cs_WarnUtilizationPct cfg \<and>
     cs_WarnUtilizationPct cfg \<le> 100"

lemma newCardinalityDetector_ok: "settings_ok (cd_cfg (newCardinalityDetector cfg))"
  by (simp add: newCardinalityDetector_def settings_ok_def Let_def default_defs)

lemma newCardinalityDetector_Enable [simp]:
  "cs_Enable (cd_cfg (newCardinalityDetector cfg)) = cs_Enable cfg"
  by (simp add: newCardinalityDetector_def Let_def)

lemma ObserveMiss_None [simp]: "ObserveMiss None s b = None"
  by (simp add: ObserveMiss_def)

lemma ObserveMiss_cfg: "map_option cd_cfg (ObserveMiss d s b) = map_option cd_cfg d"
  by (auto simp: ObserveMiss_def Let_def split: option.splits)

lemma ObserveDenied_cfg: "map_option cd_cfg (ObserveDenied d s) = map_option cd_cfg d"
  by (auto simp: ObserveDenied_def split: option.splits)

end
