(* ===== verification/Attr_Cache.thy ===== *)
theory Attr_Cache
  imports Attr_Hash Detector
begin

text \<open>
  The attribute cache of metric.go: labels of one, two or three strings interned in sixteen
  shards under a bound on the number of entries, with the deny-unknown filter in front. Each
  operation is the code's on a single goroutine: the second lookup under the write lock and the
  compare-and-swap of reserveSlot, which then cannot fail, are those of theory
  Attr\_Cache\_Conc. OpenTelemetry's attribute.Set is the type parameter \<open>'set\<close>, built and
  measured by the parameters in \<open>attr_api\<close>; a metric option is only ever WithAttributeSet of a
  set. A shard's maps are association lists, since Subjects enumerates them.
\<close>

record 'set attr_api =
  NewSet :: "keyValue list \<Rightarrow> 'set"
  SetLen :: "'set \<Rightarrow> int"
  EmptySet :: 'set

datatype 'set metricOption = WithAttributeSet 'set

datatype duoKey = DuoKey string string

datatype trioKey = TrioKey string string string

record 'set subjectEntry =
  se_attrs :: 'set
  se_addOpts :: "'set metricOption list"
  se_recordOpts :: "'set metricOption list"

record 'set attrShard =
  sh_cache :: "(string \<times> 'set subjectEntry) list"
  sh_cache2 :: "(duoKey \<times> 'set subjectEntry) list"
  sh_cache3 :: "(trioKey \<times> 'set subjectEntry) list"

text \<open>The field \<open>overflow\<close> is \<^const>\<open>None\<close> until overflowOnce has run.\<close>

record 'set attrCache =
  ac_detector :: "cardinalityDetector option"
  ac_allowed :: "string set option"
  ac_denyOnce :: "string set"
  ac_overflow :: "'set subjectEntry option"
  ac_shards :: "'set attrShard list"
  ac_maxEntries :: int
  ac_size :: int
  ac_denyUnknown :: bool

definition overflowSubject :: string where
  "overflowSubject = ''_overflow''"

definition newAttrCache :: "int \<Rightarrow> 'set attrCache" where
  "newAttrCache maxEntries =
     (let m = (if maxEntries \<le> 0 then defaultMaxCardinality else maxEntries)
      in \<lparr> ac_detector = None, ac_allowed = None, ac_denyOnce = {}, ac_overflow = None,
           ac_shards = replicate attrCacheShards \<lparr> sh_cache = [], sh_cache2 = [], sh_cache3 = [] \<rparr>,
           ac_maxEntries = m, ac_size = 0, ac_denyUnknown = False \<rparr>)"

section \<open>Configuration\<close>

text \<open>The exported methods accept a nil receiver, \<^const>\<open>None\<close>.\<close>

definition SetDetector ::
  "'set attrCache option \<Rightarrow> cardinalityDetector option \<Rightarrow> 'set attrCache option" where
  "SetDetector c d = (case c of None \<Rightarrow> None | Some c \<Rightarrow> Some (c\<lparr>ac_detector := d\<rparr>))"

definition SetDenyUnknown :: "'set attrCache option \<Rightarrow> bool \<Rightarrow> 'set attrCache option" where
  "SetDenyUnknown c deny =
     (case c of None \<Rightarrow> None | Some c \<Rightarrow> Some (c\<lparr>ac_denyUnknown := deny\<rparr>))"

definition DenyUnknown :: "'set attrCache option \<Rightarrow> bool" where
  "DenyUnknown c = (case c of None \<Rightarrow> False | Some c \<Rightarrow> ac_denyUnknown c)"

definition allowed_next :: "string set option \<Rightarrow> string list \<Rightarrow> string set" where
  "allowed_next prev labels =
     (let next = (case prev of None \<Rightarrow> {} | Some p \<Rightarrow> p)
      in fold (\<lambda>l next. if l = [] then next else insert l next) labels next)"

definition Allow :: "'set attrCache option \<Rightarrow> string list \<Rightarrow> 'set attrCache option" where
  "Allow c labels =
     (case c of None \<Rightarrow> None
      | Some c \<Rightarrow> if labels = [] then Some c
                 else Some (c\<lparr>ac_allowed := Some (allowed_next (ac_allowed c) labels)\<rparr>))"

definition isAllowed :: "'set attrCache \<Rightarrow> string list \<Rightarrow> bool" where
  "isAllowed c labels =
     (if \<not> ac_denyUnknown c then True
      else case ac_allowed c of
        None \<Rightarrow> False
      | Some allowed \<Rightarrow>
          if allowed = {} then False
          else list_all (\<lambda>l. l = [] \<or> l \<in> allowed) labels)"

definition deniedLine :: "string \<Rightarrow> logLine" where
  "deniedLine label =
     \<lparr> ll_level = WarnL, ll_fields = [(''subject'', VString label)],
       ll_msg = ''telemetry denied unknown subject (METRICS_CARDINALITY_DENY_UNKNOWN)'' \<rparr>"

text \<open>noteDenied, with the log lines it writes.\<close>

definition noteDenied :: "'set attrCache \<Rightarrow> string \<Rightarrow> 'set attrCache \<times> logLine list" where
  "noteDenied c label =
     (if label \<in> ac_denyOnce c then (c, [])
      else (c\<lparr>ac_denyOnce := insert label (ac_denyOnce c),
              ac_detector := (case ac_detector c of None \<Rightarrow> None
                              | Some d \<Rightarrow> ObserveDenied (Some d) label)\<rparr>,
            [deniedLine label]))"

section \<open>Interning\<close>

definition newSubjectEntry :: "'set \<Rightarrow> 'set subjectEntry" where
  "newSubjectEntry attrs =
     \<lparr> se_attrs = attrs, se_addOpts = [WithAttributeSet attrs],
       se_recordOpts = [WithAttributeSet attrs] \<rparr>"

definition reserveSlot :: "'set attrCache \<Rightarrow> string \<Rightarrow> bool \<times> 'set attrCache" where
  "reserveSlot c missKey =
     (let sz = ac_size c
      in if sz \<ge> ac_maxEntries c
         then (False, c\<lparr>ac_detector := (case ac_detector c of None \<Rightarrow> None
                          | Some d \<Rightarrow> ObserveMiss (Some d) missKey True)\<rparr>)
         else (True, c\<lparr>ac_size := wrap64 (sz + 1),
                       ac_detector := (case ac_detector c of None \<Rightarrow> None
                         | Some d \<Rightarrow> ObserveMiss (Some d) missKey False)\<rparr>))"

definition overflowEntry ::
  "'set attr_api \<Rightarrow> 'set attrCache \<Rightarrow> 'set subjectEntry \<times> 'set attrCache" where
  "overflowEntry api c =
     (case ac_overflow c of
        Some e \<Rightarrow> (e, c)
      | None \<Rightarrow>
          let e = newSubjectEntry (NewSet api [(attrKeySubject, VString overflowSubject)])
          in (e, c\<lparr>ac_overflow := Some e\<rparr>))"

definition entry ::
  "'set attr_api \<Rightarrow> 'set attrCache \<Rightarrow> string \<Rightarrow> 'set subjectEntry \<times> 'set attrCache" where
  "entry api c subject =
     (let idx = unat (shardIndex subject); s = ac_shards c ! idx
      in case map_of (sh_cache s) subject of
           Some e \<Rightarrow> (e, c)
         | None \<Rightarrow>
             (case reserveSlot c subject of
                (False, c1) \<Rightarrow> overflowEntry api c1
              | (True, c1) \<Rightarrow>
                  let attrs = NewSet api [(attrKeySubject, VString subject)];
                      e = newSubjectEntry attrs
                  in (e, c1\<lparr>ac_shards := (ac_shards c1)
                       [idx := s\<lparr>sh_cache := AList.update subject e (sh_cache s)\<rparr>]\<rparr>)))"

definition entry2 ::
  "'set attr_api \<Rightarrow> 'set attrCache \<Rightarrow> string \<Rightarrow> string
     \<Rightarrow> 'set subjectEntry \<times> 'set attrCache" where
  "entry2 api c a b =
     (let key = DuoKey a b; idx = unat (shardIndex2 a b); s = ac_shards c ! idx
      in case map_of (sh_cache2 s) key of
           Some e \<Rightarrow> (e, c)
         | None \<Rightarrow>
             (case reserveSlot c (a @ ''|'' @ b) of
                (False, c1) \<Rightarrow> overflowEntry api c1
              | (True, c1) \<Rightarrow>
                  let attrs = NewSet api [(attrKeySubject, VString a), (attrKeyStatus, VString b)];
                      e = newSubjectEntry attrs
                  in (e, c1\<lparr>ac_shards := (ac_shards c1)
                       [idx := s\<lparr>sh_cache2 := AList.update key e (sh_cache2 s)\<rparr>]\<rparr>)))"

definition entry3 ::
  "'set attr_api \<Rightarrow> 'set attrCache \<Rightarrow> string \<Rightarrow> string \<Rightarrow> string
     \<Rightarrow> 'set subjectEntry \<times> 'set attrCache" where
  "entry3 api c a b c3 =
     (let key = TrioKey a b c3; idx = unat (shardIndex3 a b c3); s = ac_shards c ! idx
      in case map_of (sh_cache3 s) key of
           Some e \<Rightarrow> (e, c)
         | None \<Rightarrow>
             (case reserveSlot c (a @ ''|'' @ b @ ''|'' @ c3) of
                (False, c1) \<Rightarrow> overflowEntry api c1
              | (True, c1) \<Rightarrow>
                  let attrs = NewSet api [(attrKeySubject, VString a), (attrKeyStatus, VString b),
                                          (attrKeyConsumer, VString c3)];
                      e = newSubjectEntry attrs
                  in (e, c1\<lparr>ac_shards := (ac_shards c1)
                       [idx := s\<lparr>sh_cache3 := AList.update key e (sh_cache3 s)\<rparr>]\<rparr>)))"

section \<open>Lookup behind the deny filter\<close>

text \<open>
  The result's first component is \<^const>\<open>None\<close> where the code returns false; the last is the
  list of log lines written.
\<close>

type_synonym 'set lookup_result =
  "'set subjectEntry option \<times> 'set attrCache \<times> logLine list"

definition lookup :: "'set attr_api \<Rightarrow> 'set attrCache \<Rightarrow> string \<Rightarrow> 'set lookup_result" where
  "lookup api c subject =
     (if \<not> isAllowed c [subject]
      then (case noteDenied c subject of (c1, ls) \<Rightarrow> (None, c1, ls))
      else (case entry api c subject of (e, c1) \<Rightarrow> (Some e, c1, [])))"

definition lookup2 ::
  "'set attr_api \<Rightarrow> 'set attrCache \<Rightarrow> string \<Rightarrow> string \<Rightarrow> 'set lookup_result" where
  "lookup2 api c a b =
     (if \<not> isAllowed c [a, b]
      then (case noteDenied c (a @ ''|'' @ b) of (c1, ls) \<Rightarrow> (None, c1, ls))
      else (case entry2 api c a b of (e, c1) \<Rightarrow> (Some e, c1, [])))"

definition lookup3 ::
  "'set attr_api \<Rightarrow> 'set attrCache \<Rightarrow> string \<Rightarrow> string \<Rightarrow> string \<Rightarrow> 'set lookup_result" where
  "lookup3 api c a b c3 =
     (if \<not> isAllowed c [a, b, c3]
      then (case noteDenied c (a @ ''|'' @ b @ ''|'' @ c3) of (c1, ls) \<Rightarrow> (None, c1, ls))
      else (case entry3 api c a b c3 of (e, c1) \<Rightarrow> (Some e, c1, [])))"

text \<open>The accessors built on lookup; a denied label gives the empty set or no options.\<close>

definition Subject ::
  "'set attr_api \<Rightarrow> 'set attrCache \<Rightarrow> string \<Rightarrow> 'set \<times> 'set attrCache \<times> logLine list" where
  "Subject api c subject =
     (case lookup api c subject of (None, r) \<Rightarrow> (EmptySet api, r) | (Some e, r) \<Rightarrow> (se_attrs e, r))"

definition add_opts_of :: "'set lookup_result
    \<Rightarrow> 'set metricOption list \<times> 'set attrCache \<times> logLine list" where
  "add_opts_of r = (case r of (None, r) \<Rightarrow> ([], r) | (Some e, r) \<Rightarrow> (se_addOpts e, r))"

definition record_opts_of :: "'set lookup_result
    \<Rightarrow> 'set metricOption list \<times> 'set attrCache \<times> logLine list" where
  "record_opts_of r = (case r of (None, r) \<Rightarrow> ([], r) | (Some e, r) \<Rightarrow> (se_recordOpts e, r))"

definition SubjectOpts where "SubjectOpts api c subject = add_opts_of (lookup api c subject)"
definition SubjectRecordOpts where
  "SubjectRecordOpts api c subject = record_opts_of (lookup api c subject)"
definition Subject2Opts where "Subject2Opts api c a b = add_opts_of (lookup2 api c a b)"
definition Subject2RecordOpts where
  "Subject2RecordOpts api c a b = record_opts_of (lookup2 api c a b)"
definition Subject3Opts where "Subject3Opts api c a b c3 = add_opts_of (lookup3 api c a b c3)"
definition Subject3RecordOpts where
  "Subject3RecordOpts api c a b c3 = record_opts_of (lookup3 api c a b c3)"

section \<open>Inspection\<close>

definition cache_Len :: "'set attrCache \<Rightarrow> int" where
  "cache_Len c = ac_size c"

definition MaxEntries :: "'set attrCache option \<Rightarrow> int" where
  "MaxEntries c = (case c of None \<Rightarrow> 0 | Some c \<Rightarrow> ac_maxEntries c)"

definition duo_name :: "duoKey \<Rightarrow> string" where
  "duo_name k = (case k of DuoKey a b \<Rightarrow> a @ ''|'' @ b)"

definition trio_name :: "trioKey \<Rightarrow> string" where
  "trio_name k = (case k of TrioKey a b c \<Rightarrow> a @ ''|'' @ b @ ''|'' @ c)"

text \<open>Go leaves the order in which a map is enumerated open; here it is the insertion order.\<close>

definition Subjects :: "'set attrCache option \<Rightarrow> string list" where
  "Subjects c =
     (case c of None \<Rightarrow> []
      | Some c \<Rightarrow>
          concat (map (\<lambda>s. map fst (sh_cache s) @ map (duo_name \<circ> fst) (sh_cache2 s)
                           @ map (trio_name \<circ> fst) (sh_cache3 s)) (ac_shards c)))"

definition attrsToAddOpts :: "'set attr_api \<Rightarrow> 'set \<Rightarrow> 'set metricOption list" where
  "attrsToAddOpts api attrs = (if SetLen api attrs = 0 then [] else [WithAttributeSet attrs])"

definition attrsToRecordOpts :: "'set attr_api \<Rightarrow> 'set \<Rightarrow> 'set metricOption list" where
  "attrsToRecordOpts api attrs = (if SetLen api attrs = 0 then [] else [WithAttributeSet attrs])"

end
