(* ===== verification/Attr_Cache_Correct.thy ===== *)
theory Attr_Cache_Correct
  imports Attr_Cache_Spec
begin

text \<open>
  The sharded cache implements the interning interface. Labels of every arity are one datatype,
  \<open>cache_view\<close> reads the shards as a finite map on it, and \<open>cache_wf\<close> is the invariant: sixteen
  shards, each with distinct keys that hash to it and with the entry that belongs to its key,
  the size counter equal to the number of entries and at most the bound.
\<close>

datatype labels = One string | Two string string | Three string string string

fun label_attrs :: "labels \<Rightarrow> keyValue list" where
  "label_attrs (One s) = [(attrKeySubject, VString s)]"
| "label_attrs (Two a b) = [(attrKeySubject, VString a), (attrKeyStatus, VString b)]"
| "label_attrs (Three a b c) =
     [(attrKeySubject, VString a), (attrKeyStatus, VString b), (attrKeyConsumer, VString c)]"

fun label_list :: "labels \<Rightarrow> string list" where
  "label_list (One s) = [s]"
| "label_list (Two a b) = [a, b]"
| "label_list (Three a b c) = [a, b, c]"

fun label_name :: "labels \<Rightarrow> string" where
  "label_name (One s) = s"
| "label_name (Two a b) = a @ ''|'' @ b"
| "label_name (Three a b c) = a @ ''|'' @ b @ ''|'' @ c"

fun shard_of :: "labels \<Rightarrow> nat" where
  "shard_of (One s) = unat (shardIndex s)"
| "shard_of (Two a b) = unat (shardIndex2 a b)"
| "shard_of (Three a b c) = unat (shardIndex3 a b c)"

fun shard_find :: "'set attrShard \<Rightarrow> labels \<Rightarrow> 'set subjectEntry option" where
  "shard_find sh (One s) = map_of (sh_cache sh) s"
| "shard_find sh (Two a b) = map_of (sh_cache2 sh) (DuoKey a b)"
| "shard_find sh (Three a b c) = map_of (sh_cache3 sh) (TrioKey a b c)"

fun shard_put :: "'set attrShard \<Rightarrow> labels \<Rightarrow> 'set subjectEntry \<Rightarrow> 'set attrShard" where
  "shard_put sh (One s) e = sh\<lparr>sh_cache := AList.update s e (sh_cache sh)\<rparr>"
| "shard_put sh (Two a b) e = sh\<lparr>sh_cache2 := AList.update (DuoKey a b) e (sh_cache2 sh)\<rparr>"
| "shard_put sh (Three a b c) e = sh\<lparr>sh_cache3 := AList.update (TrioKey a b c) e (sh_cache3 sh)\<rparr>"

definition shard_len :: "'set attrShard \<Rightarrow> int" where
  "shard_len sh = int (length (sh_cache sh) + length (sh_cache2 sh) + length (sh_cache3 sh))"

definition cache_view :: "'set attrCache \<Rightarrow> labels \<Rightarrow> 'set subjectEntry option" where
  "cache_view c k = shard_find (ac_shards c ! shard_of k) k"

definition entry_for :: "'set attr_api \<Rightarrow> labels \<Rightarrow> 'set subjectEntry" where
  "entry_for api k = newSubjectEntry (NewSet api (label_attrs k))"

definition overflow_for :: "'set attr_api \<Rightarrow> 'set subjectEntry" where
  "overflow_for api = newSubjectEntry (NewSet api [(attrKeySubject, VString overflowSubject)])"

text \<open>The three arities of the code behind one name.\<close>

fun intern_labels ::
  "'set attr_api \<Rightarrow> 'set attrCache \<Rightarrow> labels \<Rightarrow> 'set subjectEntry \<times> 'set attrCache" where
  "intern_labels api c (One s) = entry api c s"
| "intern_labels api c (Two a b) = entry2 api c a b"
| "intern_labels api c (Three a b c3) = entry3 api c a b c3"

fun lookup_labels :: "'set attr_api \<Rightarrow> 'set attrCache \<Rightarrow> labels \<Rightarrow> 'set lookup_result" where
  "lookup_labels api c (One s) = lookup api c s"
| "lookup_labels api c (Two a b) = lookup2 api c a b"
| "lookup_labels api c (Three a b c3) = lookup3 api c a b c3"

section \<open>One shard\<close>

definition shard_distinct :: "'set attrShard \<Rightarrow> bool" where
  "shard_distinct sh \<longleftrightarrow> distinct (map fst (sh_cache sh)) \<and> distinct (map fst (sh_cache2 sh)) \<and>
     distinct (map fst (sh_cache3 sh))"

lemma shard_of_less [simp]: "shard_of k < attrCacheShards"
  by (cases k) simp_all

lemma shard_find_put [simp]:
  "shard_find (shard_put sh k e) k' = (if k' = k then Some e else shard_find sh k')"
  by (cases k; cases k') auto

lemma shard_len_put: "shard_find sh k = None \<Longrightarrow> shard_len (shard_put sh k e) = shard_len sh + 1"
  by (cases k) (simp_all add: shard_len_def length_AList_update_new)

lemma shard_distinct_put [inv_rules]: "shard_distinct sh \<Longrightarrow> shard_distinct (shard_put sh k e)"
  by (cases k) (simp_all add: shard_distinct_def distinct_AList_update)

lemma shard_len_nonneg [simp]: "0 \<le> shard_len sh"
  by (simp add: shard_len_def)

fun duo_label :: "duoKey \<Rightarrow> labels" where
  "duo_label (DuoKey a b) = Two a b"

fun trio_label :: "trioKey \<Rightarrow> labels" where
  "trio_label (TrioKey a b c) = Three a b c"

lemma in_duo_label: "k \<in> duo_label ` A \<longleftrightarrow> (\<exists>a b. k = Two a b \<and> DuoKey a b \<in> A)"
  by (metis duo_label.elims duo_label.simps image_iff)

lemma in_trio_label: "k \<in> trio_label ` A \<longleftrightarrow> (\<exists>a b c. k = Three a b c \<and> TrioKey a b c \<in> A)"
  by (metis trio_label.elims trio_label.simps image_iff)

lemma dom_shard_find:
  "dom (shard_find sh) = One ` dom (map_of (sh_cache sh))
     \<union> duo_label ` dom (map_of (sh_cache2 sh)) \<union> trio_label ` dom (map_of (sh_cache3 sh))"
  (is "_ = ?R")
proof (rule set_eqI)
  fix k
  show "k \<in> dom (shard_find sh) \<longleftrightarrow> k \<in> ?R"
    by (cases k) (auto simp: in_duo_label in_trio_label)
qed

lemma finite_shard_find [simp]: "finite (dom (shard_find sh))"
  by (simp add: dom_shard_find finite_dom_map_of)

lemma label_kinds [simp]:
  "duo_label d \<noteq> One s" "One s \<noteq> duo_label d" "trio_label t \<noteq> One s" "One s \<noteq> trio_label t"
  "trio_label t \<noteq> duo_label d" "duo_label d \<noteq> trio_label t"
  by (cases d; cases t; simp)+

lemma inj_duo_label: "inj_on duo_label A"
  by (rule inj_onI) (metis duo_label.elims labels.inject(2))

lemma inj_trio_label: "inj_on trio_label A"
  by (rule inj_onI) (metis trio_label.elims labels.inject(3))

lemma card_shard_find:
  assumes "shard_distinct sh"
  shows "int (card (dom (shard_find sh))) = shard_len sh"
proof -
  let ?A = "One ` dom (map_of (sh_cache sh))"
  let ?B = "duo_label ` dom (map_of (sh_cache2 sh))"
  let ?C = "trio_label ` dom (map_of (sh_cache3 sh))"
  have "?A \<inter> ?B = {}" "(?A \<union> ?B) \<inter> ?C = {}"
    by auto
  then have "card (dom (shard_find sh)) = card ?A + card ?B + card ?C"
    by (simp add: dom_shard_find card_Un_disjoint finite_dom_map_of)
  moreover have "card ?A = length (sh_cache sh)"
    using assms by (simp add: shard_distinct_def length_distinct_dom card_image inj_on_def)
  moreover have "card ?B = length (sh_cache2 sh)"
    using assms by (simp add: shard_distinct_def length_distinct_dom card_image [OF inj_duo_label])
  moreover have "card ?C = length (sh_cache3 sh)"
    using assms by (simp add: shard_distinct_def length_distinct_dom card_image [OF inj_trio_label])
  ultimately show ?thesis by (simp add: shard_len_def)
qed

section \<open>The invariant\<close>

definition shard_wf :: "'set attr_api \<Rightarrow> nat \<Rightarrow> 'set attrShard \<Rightarrow> bool" where
  "shard_wf api i sh \<longleftrightarrow> shard_distinct sh \<and>
     (\<forall>k e. shard_find sh k = Some e \<longrightarrow> shard_of k = i \<and> e = entry_for api k)"

definition cache_wf :: "'set attr_api \<Rightarrow> 'set attrCache \<Rightarrow> bool" where
  "cache_wf api c \<longleftrightarrow> length (ac_shards c) = attrCacheShards \<and>
     (\<forall>i < attrCacheShards. shard_wf api i (ac_shards c ! i)) \<and>
     ac_size c = sum_list (map shard_len (ac_shards c)) \<and>
     ac_size c \<le> ac_maxEntries c \<and> 0 < ac_maxEntries c \<and> in_i64 (ac_maxEntries c) \<and>
     (ac_overflow c = None \<or> ac_overflow c = Some (overflow_for api))"

lemma cache_wf_new: "in_i64 n \<Longrightarrow> cache_wf api (newAttrCache n)"
proof -
  have empty: "shard_find \<lparr>sh_cache = [], sh_cache2 = [], sh_cache3 = []\<rparr> k = None" for k
    by (cases k) simp_all
  assume "in_i64 n"
  then show ?thesis
    by (auto simp: cache_wf_def newAttrCache_def Let_def shard_wf_def shard_distinct_def empty
        shard_len_def sum_list_replicate defaultMaxCardinality_def in_i64_def)
qed

lemma cache_view_new [simp]: "cache_view (newAttrCache n) = Map.empty"
proof
  fix k
  show "cache_view (newAttrCache n) k = None"
    using shard_of_less [of k]
    by (cases k) (simp_all add: cache_view_def newAttrCache_def Let_def del: shard_of_less)
qed

text \<open>Operations that leave shards, size, bound and overflow entry alone keep the invariant.\<close>

lemma cache_wf_cong:
  "ac_shards c' = ac_shards c \<Longrightarrow> ac_size c' = ac_size c \<Longrightarrow> ac_maxEntries c' = ac_maxEntries c \<Longrightarrow>
   ac_overflow c' = ac_overflow c \<Longrightarrow> cache_wf api c' = cache_wf api c"
  by (simp add: cache_wf_def)

lemma cache_view_cong: "ac_shards c' = ac_shards c \<Longrightarrow> cache_view c' = cache_view c"
  by (simp add: cache_view_def fun_eq_iff)

lemma dom_cache_view:
  assumes "cache_wf api c"
  shows "dom (cache_view c) = (\<Union>i < attrCacheShards. dom (shard_find (ac_shards c ! i)))"
proof (rule set_eqI)
  fix k
  have "\<forall>i < attrCacheShards. \<forall>e. shard_find (ac_shards c ! i) k = Some e \<longrightarrow> shard_of k = i"
    using assms by (auto simp: cache_wf_def shard_wf_def)
  then show "k \<in> dom (cache_view c) \<longleftrightarrow>
      k \<in> (\<Union>i < attrCacheShards. dom (shard_find (ac_shards c ! i)))"
    by (auto simp: cache_view_def dom_def intro: bexI [of _ "shard_of k"])
qed

lemma card_cache_view:
  assumes wf: "cache_wf api c"
  shows "int (card (dom (cache_view c))) = ac_size c"
proof -
  let ?D = "\<lambda>i. dom (shard_find (ac_shards c ! i))"
  have len: "length (ac_shards c) = attrCacheShards"
    and sh: "\<And>i. i < attrCacheShards \<Longrightarrow> shard_wf api i (ac_shards c ! i)"
    using wf by (auto simp: cache_wf_def)
  have "i \<in> {..<attrCacheShards} \<Longrightarrow> j \<in> {..<attrCacheShards} \<Longrightarrow> i \<noteq> j \<Longrightarrow> ?D i \<inter> ?D j = {}" for i j
    using sh [of i] sh [of j] by (fastforce simp: shard_wf_def)
  then have "card (dom (cache_view c)) = (\<Sum>i<attrCacheShards. card (?D i))"
    unfolding dom_cache_view [OF wf] by (intro card_UN_disjoint) auto
  then have "int (card (dom (cache_view c))) = (\<Sum>i<attrCacheShards. int (card (?D i)))" by simp
  also have "\<dots> = (\<Sum>i<attrCacheShards. shard_len (ac_shards c ! i))"
    using sh by (intro sum.cong) (auto simp: shard_wf_def card_shard_find)
  also have "\<dots> = sum_list (map shard_len (ac_shards c))"
    by (simp add: sum_list_sum_nth len atLeast0LessThan)
  finally show ?thesis using wf by (simp add: cache_wf_def)
qed

lemma cache_wf_finite: "cache_wf api c \<Longrightarrow> finite (dom (cache_view c))"
  by (simp add: dom_cache_view)

lemma cache_wf_size: "cache_wf api c \<Longrightarrow> 0 \<le> ac_size c \<and> ac_size c \<le> ac_maxEntries c"
  by (metis card_cache_view cache_wf_def of_nat_0_le_iff)

lemma cache_view_entry: "cache_wf api c \<Longrightarrow> cache_view c k = Some e \<Longrightarrow> e = entry_for api k"
  using shard_of_less [of k] unfolding cache_wf_def shard_wf_def cache_view_def by blast

lemma cache_wf_insert:
  assumes wf: "cache_wf api c" and new: "cache_view c k = None" and room: "ac_size c < ac_maxEntries c"
  shows "cache_wf api (c\<lparr>ac_size := ac_size c + 1, ac_shards := (ac_shards c)
     [shard_of k := shard_put (ac_shards c ! shard_of k) k (entry_for api k)]\<rparr>)"
proof -
  let ?i = "shard_of k" and ?s = "ac_shards c ! shard_of k"
  let ?n = "shard_put ?s k (entry_for api k)"
  have len: "length (ac_shards c) = attrCacheShards" using wf by (simp add: cache_wf_def)
  have "shard_wf api ?i ?s" using wf by (simp add: cache_wf_def)
  then have "shard_wf api ?i ?n" by (auto simp: shard_wf_def shard_distinct_put split: if_splits)
  then have "\<forall>i < attrCacheShards. shard_wf api i ((ac_shards c)[?i := ?n] ! i)"
    using wf len by (auto simp: cache_wf_def nth_list_update)
  moreover have "sum_list (map shard_len ((ac_shards c)[?i := ?n])) = ac_size c + 1"
    using new wf len sum_list_map_update [of ?i "ac_shards c" shard_len ?n]
    by (simp add: shard_len_put cache_view_def cache_wf_def)
  ultimately show ?thesis using wf room by (simp add: cache_wf_def)
qed

lemma cache_view_insert:
  assumes "cache_wf api c"
  shows "cache_view (c\<lparr>ac_size := n, ac_shards := (ac_shards c)
     [shard_of k := shard_put (ac_shards c ! shard_of k) k e]\<rparr>) = (cache_view c)(k \<mapsto> e)"
proof
  fix k'
  show "cache_view (c\<lparr>ac_size := n, ac_shards := (ac_shards c)
     [shard_of k := shard_put (ac_shards c ! shard_of k) k e]\<rparr>) k' = ((cache_view c)(k \<mapsto> e)) k'"
    using assms shard_of_less [of k']
    by (cases "shard_of k' = shard_of k") (auto simp: cache_view_def cache_wf_def)
qed

section \<open>The code's operations on the view\<close>

lemma reserveSlot_frame:
  "reserveSlot c m = (b, c1) \<Longrightarrow> ac_shards c1 = ac_shards c \<and> ac_maxEntries c1 = ac_maxEntries c \<and>
     ac_overflow c1 = ac_overflow c \<and> ac_allowed c1 = ac_allowed c \<and>
     ac_denyUnknown c1 = ac_denyUnknown c \<and> b = (ac_size c < ac_maxEntries c) \<and>
     ac_size c1 = (if b then wrap64 (ac_size c + 1) else ac_size c)"
  by (auto simp: reserveSlot_def Let_def split: if_splits)

text \<open>The entry functions of the three arities are one function of the label.\<close>

lemma intern_labels_eq:
  "intern_labels api c k =
     (case cache_view c k of
        Some e \<Rightarrow> (e, c)
      | None \<Rightarrow>
          (case reserveSlot c (label_name k) of
             (False, c1) \<Rightarrow> overflowEntry api c1
           | (True, c1) \<Rightarrow> (entry_for api k, c1\<lparr>ac_shards := (ac_shards c1)
               [shard_of k := shard_put (ac_shards c ! shard_of k) k (entry_for api k)]\<rparr>)))"
  by (cases k) (simp_all add: entry_def entry2_def entry3_def cache_view_def entry_for_def Let_def
      split: option.splits prod.splits bool.splits)

lemma overflowEntry_wf:
  assumes "cache_wf api c"
  shows "fst (overflowEntry api c) = overflow_for api"
    and "cache_wf api (snd (overflowEntry api c))"
    and "cache_view (snd (overflowEntry api c)) = cache_view c"
    and "ac_maxEntries (snd (overflowEntry api c)) = ac_maxEntries c"
    and "ac_denyUnknown (snd (overflowEntry api c)) = ac_denyUnknown c"
    and "ac_allowed (snd (overflowEntry api c)) = ac_allowed c"
  using assms
  by (auto simp: overflowEntry_def overflow_for_def Let_def cache_wf_def cache_view_def fun_eq_iff
      split: option.splits)

lemma intern_labels_config:
  "ac_maxEntries (snd (intern_labels api c k)) = ac_maxEntries c"
  "ac_denyUnknown (snd (intern_labels api c k)) = ac_denyUnknown c"
  "ac_allowed (snd (intern_labels api c k)) = ac_allowed c"
  by (auto simp: intern_labels_eq overflowEntry_def Let_def dest: reserveSlot_frame
      split: option.splits prod.splits bool.splits)

lemma intern_labels_room:
  assumes wf: "cache_wf api c" and new: "cache_view c k = None"
    and room: "ac_size c < ac_maxEntries c"
  shows "fst (intern_labels api c k) = entry_for api k"
    and "cache_view (snd (intern_labels api c k)) = (cache_view c)(k \<mapsto> entry_for api k)"
    and "cache_wf api (snd (intern_labels api c k))"
proof -
  let ?u = "\<lambda>sh. sh[shard_of k := shard_put (ac_shards c ! shard_of k) k (entry_for api k)]"
  obtain b c1 where r: "reserveSlot c (label_name k) = (b, c1)" by fastforce
  have i64: "in_i64 (ac_size c + 1)"
    using wf room cache_wf_size [OF wf] by (auto simp: cache_wf_def in_i64_def)
  from reserveSlot_frame [OF r] room i64
  have b: "b" and c1: "ac_shards c1 = ac_shards c" "ac_size c1 = ac_size c + 1"
    "ac_maxEntries c1 = ac_maxEntries c" "ac_overflow c1 = ac_overflow c" by auto
  have eq: "intern_labels api c k = (entry_for api k, c1\<lparr>ac_shards := ?u (ac_shards c1)\<rparr>)"
    using new b r by (simp add: intern_labels_eq)
  then show "fst (intern_labels api c k) = entry_for api k" by simp
  have "cache_view (c1\<lparr>ac_shards := ?u (ac_shards c1)\<rparr>) =
      cache_view (c\<lparr>ac_size := ac_size c + 1, ac_shards := ?u (ac_shards c)\<rparr>)"
    by (rule cache_view_cong) (simp add: c1)
  then show "cache_view (snd (intern_labels api c k)) = (cache_view c)(k \<mapsto> entry_for api k)"
    by (simp add: eq cache_view_insert [OF wf])
  have "cache_wf api (c1\<lparr>ac_shards := ?u (ac_shards c1)\<rparr>) =
      cache_wf api (c\<lparr>ac_size := ac_size c + 1, ac_shards := ?u (ac_shards c)\<rparr>)"
    by (rule cache_wf_cong) (simp_all add: c1)
  then show "cache_wf api (snd (intern_labels api c k))"
    using cache_wf_insert [OF wf new room] by (simp add: eq)
qed

lemma intern_labels_full:
  assumes wf: "cache_wf api c" and new: "cache_view c k = None"
    and full: "\<not> ac_size c < ac_maxEntries c"
  shows "fst (intern_labels api c k) = overflow_for api"
    and "cache_view (snd (intern_labels api c k)) = cache_view c"
    and "cache_wf api (snd (intern_labels api c k))"
proof -
  obtain b c1 where r: "reserveSlot c (label_name k) = (b, c1)" by fastforce
  from reserveSlot_frame [OF r] full
  have b: "\<not> b" and c1: "ac_shards c1 = ac_shards c" "ac_size c1 = ac_size c"
    "ac_maxEntries c1 = ac_maxEntries c" "ac_overflow c1 = ac_overflow c" by auto
  have eq: "intern_labels api c k = overflowEntry api c1"
    using new b r by (simp add: intern_labels_eq)
  have wf1: "cache_wf api c1" using wf cache_wf_cong [OF c1] by simp
  show "fst (intern_labels api c k) = overflow_for api"
    "cache_view (snd (intern_labels api c k)) = cache_view c"
    "cache_wf api (snd (intern_labels api c k))"
    using overflowEntry_wf [OF wf1] cache_view_cong [OF c1(1)] by (simp_all add: eq)
qed

lemma intern_labels_wf [inv_rules]: "cache_wf api c \<Longrightarrow> cache_wf api (snd (intern_labels api c k))"
  by (cases "cache_view c k"; cases "ac_size c < ac_maxEntries c")
    (auto simp: intern_labels_room intern_labels_full, simp_all add: intern_labels_eq)

abbreviation cache_cap :: "'set attrCache \<Rightarrow> nat" where
  "cache_cap c \<equiv> nat (ac_maxEntries c)"

lemma cache_full_iff:
  "cache_wf api c \<Longrightarrow> card (dom (cache_view c)) < cache_cap c \<longleftrightarrow> ac_size c < ac_maxEntries c"
  using card_cache_view [of api c] by (auto simp: cache_wf_def)

interpretation cache_intern: bounded_intern "intern_labels api" cache_view "cache_wf api" cache_cap
  "entry_for api" "overflow_for api" for api
proof (unfold_locales, goal_cases)
  case 1 then show ?case by (rule cache_wf_finite)
next
  case (2 c)
  then show ?case using card_cache_view [of api c] cache_wf_size [of api c] by linarith
next
  case 3 then show ?case by (rule cache_view_entry)
next
  case 4 then show ?case by (rule intern_labels_wf)
next
  case 5 then show ?case by (simp add: intern_labels_config)
next
  case 6 then show ?case by (simp add: intern_labels_eq)
next
  case 7 then show ?case by (simp add: cache_full_iff intern_labels_room)
next
  case (8 c k)
  then have "\<not> ac_size c < ac_maxEntries c" using cache_full_iff [of api c] by simp
  with 8 show ?case by (simp add: intern_labels_full)
qed

section \<open>The deny filter\<close>

definition permits_labels :: "'set attrCache \<Rightarrow> labels \<Rightarrow> bool" where
  "permits_labels c k = isAllowed c (label_list k)"

definition find_labels ::
  "'set attr_api \<Rightarrow> 'set attrCache \<Rightarrow> labels \<Rightarrow> 'set subjectEntry option \<times> 'set attrCache" where
  "find_labels api c k = (case lookup_labels api c k of (e, c1, ls) \<Rightarrow> (e, c1))"

lemma lookup_labels_eq:
  "lookup_labels api c k =
     (if \<not> permits_labels c k then (case noteDenied c (label_name k) of (c1, ls) \<Rightarrow> (None, c1, ls))
      else (Some (fst (intern_labels api c k)), snd (intern_labels api c k), []))"
  by (cases k) (simp_all add: lookup_def lookup2_def lookup3_def permits_labels_def
      split: prod.splits)

lemma noteDenied_frame:
  "noteDenied c l = (c1, ls) \<Longrightarrow> ac_shards c1 = ac_shards c \<and> ac_size c1 = ac_size c \<and>
     ac_maxEntries c1 = ac_maxEntries c \<and> ac_overflow c1 = ac_overflow c \<and>
     ac_allowed c1 = ac_allowed c \<and> ac_denyUnknown c1 = ac_denyUnknown c"
  by (auto simp: noteDenied_def split: if_splits)

lemma isAllowed_cong:
  "ac_allowed c' = ac_allowed c \<Longrightarrow> ac_denyUnknown c' = ac_denyUnknown c \<Longrightarrow>
     isAllowed c' ls = isAllowed c ls"
  by (simp add: isAllowed_def)

interpretation cache_lookup: guarded_intern "intern_labels api" cache_view "cache_wf api" cache_cap
  "entry_for api" "overflow_for api" permits_labels "find_labels api" for api
proof (unfold_locales, goal_cases)
  case 1 then show ?case by (simp add: find_labels_def lookup_labels_eq)
next
  case (2 c k)
  then show ?case
    by (auto simp: find_labels_def lookup_labels_eq cache_view_def fun_eq_iff
        dest: noteDenied_frame split: prod.splits)
next
  case (3 c k)
  then show ?case
    by (auto simp: find_labels_def lookup_labels_eq cache_wf_def dest!: noteDenied_frame
        split: prod.splits)
next
  case (4 c k' k)
  have "ac_allowed (snd (find_labels api c k')) = ac_allowed c"
    "ac_denyUnknown (snd (find_labels api c k')) = ac_denyUnknown c"
    by (auto simp: find_labels_def lookup_labels_eq intern_labels_config dest: noteDenied_frame
        split: prod.splits)
  then show ?case by (simp add: permits_labels_def isAllowed_def)
qed

lemma allowed_next_eq:
  "allowed_next prev labels = (case prev of None \<Rightarrow> {} | Some p \<Rightarrow> p) \<union> (set labels - {[]})"
proof -
  have "fold (\<lambda>l next. if l = [] then next else insert l next) labels A = A \<union> (set labels - {[]})" for A
    by (induction labels arbitrary: A) auto
  then show ?thesis by (simp add: allowed_next_def Let_def)
qed

section \<open>A concrete attribute library\<close>

text \<open>Sets as the lists they are built from, for the examples.\<close>

definition list_api :: "keyValue list attr_api" where
  "list_api = \<lparr> NewSet = id, SetLen = (\<lambda>kvs. int (length kvs)), EmptySet = [] \<rparr>"

end
