(* ===== verification/Attr_Cache_Props.thy ===== *)
theory Attr_Cache_Props
  imports Attr_Cache_Correct
begin

text \<open>
  The properties of the attribute cache: refinement of the bounded interning table, the exact
  number of entries after any sequence of lookups, stability of what a caller was handed, the
  deny filter, the listing for the monitor and the detector's event accounting.
\<close>

text \<open>Lookups of labels one after the other, their results dropped.\<close>

definition lookups :: "'set attr_api \<Rightarrow> labels list \<Rightarrow> 'set attrCache \<Rightarrow> 'set attrCache" where
  "lookups api ks c = fold (\<lambda>k c. snd (find_labels api c k)) ks c"

section \<open>Refinement\<close>

text \<open>The abstract table: a finite map, a bound, and one entry for everything that overflows.\<close>

definition intern_spec ::
  "('k \<Rightarrow> 'e) \<Rightarrow> 'e \<Rightarrow> nat \<Rightarrow> ('k \<Rightarrow> 'e option) \<Rightarrow> 'k \<Rightarrow> 'e \<times> ('k \<Rightarrow> 'e option)" where
  "intern_spec mk ovf cap m k =
     (case m k of
        Some e \<Rightarrow> (e, m)
      | None \<Rightarrow> if card (dom m) < cap then (mk k, m(k \<mapsto> mk k)) else (ovf, m))"

text \<open>
  C4: entry, entry2 and entry3 implement the bounded interning table: read through
  \<open>cache_view\<close>, a call returns and stores what one step of the abstract table does, for labels
  of every arity and whatever shard they hash to, and the shard invariant is kept.
\<close>

theorem entry_refines_table:
  assumes "cache_wf api c"
  shows "intern_spec (entry_for api) (overflow_for api) (cache_cap c) (cache_view c) k =
      (fst (intern_labels api c k), cache_view (snd (intern_labels api c k))) \<and>
    cache_wf api (snd (intern_labels api c k))"
proof
  show "intern_spec (entry_for api) (overflow_for api) (cache_cap c) (cache_view c) k =
      (fst (intern_labels api c k), cache_view (snd (intern_labels api c k)))"
    by (rule cache_intern.intern_cases [OF assms, of k]) (simp_all add: intern_spec_def)
  show "cache_wf api (snd (intern_labels api c k))"
    by (rule cache_intern.inv_intern [OF assms])
qed

lemma cache_wf_new_small: "cache_wf api (newAttrCache 2)"
  by (rule cache_wf_new) (simp add: in_i64_def)

lemma newAttrCache_2:
  "ac_maxEntries (newAttrCache 2) = 2" "ac_size (newAttrCache 2) = 0"
  "ac_denyUnknown (newAttrCache 2) = False" "ac_allowed (newAttrCache 2) = None"
  by (simp_all add: newAttrCache_def Let_def)

theorem entry_refines_table_witness:
  "cache_wf list_api (newAttrCache 2) \<and>
   cache_view (snd (intern_labels list_api (newAttrCache 2) (Two ''a'' ''ok'')))
     = [Two ''a'' ''ok'' \<mapsto> entry_for list_api (Two ''a'' ''ok'')]"
  using entry_refines_table [OF cache_wf_new_small, where api = list_api and k = "Two ''a'' ''ok''"]
    cache_wf_new_small [of list_api]
  by (auto simp add: intern_spec_def newAttrCache_2 simp del: intern_labels.simps)

section \<open>The bound\<close>

lemma lookups_wf [inv_rules]: "cache_wf api c \<Longrightarrow> cache_wf api (lookups api ks c)"
  unfolding lookups_def using cache_lookup.finds_inv by blast

lemma lookups_max: "cache_wf api c \<Longrightarrow> ac_maxEntries (lookups api ks c) = ac_maxEntries c"
  using cache_lookup.finds_inv [of api c ks] cache_wf_def [of api c]
    cache_wf_def [of api "lookups api ks c"]
  by (auto simp: lookups_def nat_eq_iff)

text \<open>
  After any sequence of lookups the cache holds exactly as many entries as there are
  permitted labels, old or looked up, as long as the bound allows, and never more than the bound.
  Len counts what the shards hold.
\<close>

theorem lookups_len:
  assumes "cache_wf api c"
  shows "cache_Len (lookups api ks c) =
    min (ac_maxEntries c) (int (card (dom (cache_view c) \<union> {k \<in> set ks. permits_labels c k})))"
proof -
  have "cache_Len (lookups api ks c) = int (card (dom (cache_view (lookups api ks c))))"
    by (simp add: cache_Len_def card_cache_view [OF lookups_wf [OF assms]])
  also have "\<dots> = int (min (cache_cap c) (card (dom (cache_view c) \<union> {k \<in> set ks. permits_labels c k})))"
    unfolding lookups_def by (simp only: cache_lookup.finds_card [OF assms])
  finally show ?thesis using assms by (simp add: cache_wf_def of_nat_min)
qed

lemma permits_new [simp]: "permits_labels (newAttrCache n) k"
  by (simp add: permits_labels_def isAllowed_def newAttrCache_def Let_def)

theorem lookups_len_witness:
  "cache_Len (lookups list_api [One ''a'', Two ''a'' ''ok'', One ''a'', One ''b''] (newAttrCache 2)) = 2"
  using lookups_len [OF cache_wf_new_small, where api = list_api and ks = "[One ''a'', Two ''a'' ''ok'', One ''a'', One ''b'']"]
  by (simp add: newAttrCache_2 Collect_disj_eq insert_commute)

section \<open>What a caller was handed\<close>

text \<open>
  A label that has been looked up while there was room keeps its own entry, built from
  exactly its values: whatever is looked up afterwards, a lookup of it returns the same
  attributes and options, changes nothing in the cache and writes no log line.
\<close>

theorem warm_hit_stable:
  assumes "cache_wf api c" and "cache_view c k = Some e" and "permits_labels c k"
  shows "lookup_labels api (lookups api ks c) k = (Some (entry_for api k), lookups api ks c, [])"
proof -
  have wf: "cache_wf api (lookups api ks c)" by (rule lookups_wf [OF assms(1)])
  have view: "cache_view (lookups api ks c) k = Some e" for ks
    using assms(1,2)
  proof (induction ks arbitrary: c)
    case (Cons k' ks)
    then show ?case
      using cache_lookup.find_inv [of api c k'] cache_lookup.find_keeps [of api c k e k']
      by (simp add: lookups_def)
  qed (simp add: lookups_def)
  have "permits_labels (lookups api ks c) k" for ks
    using assms(3)
  proof (induction ks arbitrary: c)
    case (Cons k' ks)
    then show ?case by (simp add: lookups_def cache_lookup.permits_find)
  qed (simp add: lookups_def)
  then show ?thesis
    using cache_intern.intern_hit [OF wf view] cache_view_entry [OF wf view]
    by (simp add: lookup_labels_eq)
qed

lemma view_after_lookup:
  assumes "cache_wf api c" and "permits_labels c k" and "cache_view c k = None"
    and "ac_size c < ac_maxEntries c"
  shows "cache_view (lookups api [k] c) k = Some (entry_for api k)"
  using assms by (simp add: lookups_def cache_lookup.find_permitted intern_labels_room)

theorem warm_hit_stable_witness:
  "lookup_labels list_api
      (lookups list_api [One ''b'', One ''c''] (lookups list_api [One ''a''] (newAttrCache 2)))
      (One ''a'')
   = (Some (entry_for list_api (One ''a'')),
      lookups list_api [One ''b'', One ''c''] (lookups list_api [One ''a''] (newAttrCache 2)), [])"
proof (rule warm_hit_stable)
  show "cache_wf list_api (lookups list_api [One ''a''] (newAttrCache 2))"
    by (rule lookups_wf [OF cache_wf_new_small])
  show "cache_view (lookups list_api [One ''a''] (newAttrCache 2)) (One ''a'')
      = Some (entry_for list_api (One ''a''))"
    by (rule view_after_lookup [OF cache_wf_new_small]) (simp_all add: newAttrCache_2)
  show "permits_labels (lookups list_api [One ''a''] (newAttrCache 2)) (One ''a'')"
    by (simp add: lookups_def cache_lookup.permits_find)
qed

text \<open>
  C30: As long as the permitted labels in use fit the bound, none of them is folded into the
  overflow entry: after looking all of them up, in any order and with repetitions, each has its
  own entry. The first label beyond the bound gets the overflow entry instead, and keeps getting
  it.
\<close>

theorem within_bound_no_overflow:
  assumes "cache_wf api c" and "permits_labels c k"
  shows "(int (card (dom (cache_view c) \<union> {k \<in> set ks. permits_labels c k})) \<le> ac_maxEntries c \<and>
      k \<in> set ks \<longrightarrow> cache_view (lookups api ks c) k = Some (entry_for api k)) \<and>
    (ac_size c = ac_maxEntries c \<and> cache_view c k = None \<longrightarrow>
      (\<forall>ks. fst (lookup_labels api (lookups api ks c) k) = Some (overflow_for api)))"
proof (intro conjI impI allI)
  assume "int (card (dom (cache_view c) \<union> {k \<in> set ks. permits_labels c k})) \<le> ac_maxEntries c \<and>
      k \<in> set ks"
  then show "cache_view (lookups api ks c) k = Some (entry_for api k)"
    unfolding lookups_def
    by (intro cache_lookup.finds_all [OF assms(1) _ assms(2)]) linarith+
next
  fix ks
  assume full: "ac_size c = ac_maxEntries c \<and> cache_view c k = None"
  have "cache_wf api c \<Longrightarrow> ac_size c = ac_maxEntries c \<Longrightarrow>
      cache_view (lookups api ks c) = cache_view c" for c
  proof (induction ks arbitrary: c)
    case (Cons k' ks)
    have "cache_view (snd (find_labels api c k')) = cache_view c"
      using Cons.prems cache_full_iff [OF Cons.prems(1)]
      by (cases "permits_labels c k'")
        (simp_all add: cache_lookup.find_permitted cache_intern.view_intern cache_lookup.find_refused)
    moreover have wf: "cache_wf api (snd (find_labels api c k'))"
      by (rule cache_lookup.find_inv [OF Cons.prems(1)])
    ultimately show ?case
      using Cons.IH [OF wf] card_cache_view [OF wf] card_cache_view [OF Cons.prems(1)]
        lookups_max [OF Cons.prems(1), of "[k']"] Cons.prems(2) by (simp add: lookups_def)
  qed (simp add: lookups_def)
  then have view: "cache_view (lookups api ks c) k = None" and
    same: "cache_view (lookups api ks c) = cache_view c"
    using full assms(1) by simp_all
  have wf: "cache_wf api (lookups api ks c)" by (rule lookups_wf [OF assms(1)])
  have "ac_size (lookups api ks c) = ac_maxEntries (lookups api ks c)"
    using same card_cache_view [OF wf] card_cache_view [OF assms(1)] lookups_max [OF assms(1)] full
    by simp
  moreover have "permits_labels (lookups api ks c) k"
    using assms(2) unfolding lookups_def
    by (induction ks arbitrary: c) (simp_all add: cache_lookup.permits_find)
  ultimately show "fst (lookup_labels api (lookups api ks c) k) = Some (overflow_for api)"
    using intern_labels_full [OF wf view] by (simp add: lookup_labels_eq)
qed

theorem within_bound_no_overflow_witness:
  "cache_view (lookups list_api [One ''b'', One ''a'', One ''b''] (newAttrCache 2)) (One ''a'')
     = Some (entry_for list_api (One ''a''))"
  using within_bound_no_overflow [OF cache_wf_new_small, where api = list_api and k = "One ''a''"
      and ks = "[One ''b'', One ''a'', One ''b'']"]
  by (simp add: newAttrCache_2 Collect_disj_eq insert_commute)

section \<open>Deny-unknown mode\<close>

lemma isAllowed_iff:
  "isAllowed c labels \<longleftrightarrow> \<not> ac_denyUnknown c \<or>
     (\<exists>A. ac_allowed c = Some A \<and> A \<noteq> {} \<and> set labels - {[]} \<subseteq> A)"
  by (auto simp: isAllowed_def list_all_iff split: option.splits)

text \<open>
  C26: In deny-unknown mode a lookup succeeds exactly when some label value has been allowed and
  every nonempty label looked up is among the allowed ones. A refused lookup takes no slot,
  leaves every entry alone, and writes its warning and counts a denial only the first time its
  name is refused.
\<close>

theorem deny_unknown_lookup:
  assumes "ac_denyUnknown c"
  shows "(fst (lookup_labels api c k) \<noteq> None \<longleftrightarrow>
      (\<exists>A. ac_allowed c = Some A \<and> A \<noteq> {} \<and> set (label_list k) - {[]} \<subseteq> A)) \<and>
    (fst (lookup_labels api c k) = None \<longrightarrow>
      snd (lookup_labels api c k) =
        (if label_name k \<in> ac_denyOnce c then (c, [])
         else (c\<lparr>ac_denyOnce := insert (label_name k) (ac_denyOnce c),
                 ac_detector := ObserveDenied (ac_detector c) (label_name k)\<rparr>,
               [deniedLine (label_name k)])))"
proof -
  have "permits_labels c k \<longleftrightarrow>
      (\<exists>A. ac_allowed c = Some A \<and> A \<noteq> {} \<and> set (label_list k) - {[]} \<subseteq> A)"
    using assms by (simp add: permits_labels_def isAllowed_iff)
  moreover have "noteDenied c (label_name k) =
      (if label_name k \<in> ac_denyOnce c then (c, [])
       else (c\<lparr>ac_denyOnce := insert (label_name k) (ac_denyOnce c),
               ac_detector := ObserveDenied (ac_detector c) (label_name k)\<rparr>,
             [deniedLine (label_name k)]))"
    by (simp add: noteDenied_def ObserveDenied_def split: option.split)
  ultimately show ?thesis by (auto simp: lookup_labels_eq split: prod.splits)
qed

definition deny_cache :: "keyValue list attrCache" where
  "deny_cache = (newAttrCache 2)\<lparr>ac_denyUnknown := True, ac_allowed := Some {''ok''}\<rparr>"

lemma deny_cache_fields:
  "ac_denyUnknown deny_cache" "ac_allowed deny_cache = Some {''ok''}" "ac_denyOnce deny_cache = {}"
  by (simp_all add: deny_cache_def newAttrCache_def Let_def)

theorem deny_unknown_lookup_witness:
  "fst (lookup_labels list_api deny_cache (Two ''ok'' [])) \<noteq> None \<and>
   snd (snd (lookup_labels list_api deny_cache (One ''evil''))) = [deniedLine ''evil'']"
  using deny_unknown_lookup [OF deny_cache_fields(1), of list_api "Two ''ok'' []"]
    deny_unknown_lookup [OF deny_cache_fields(1), of list_api "One ''evil''"]
  by (auto simp: deny_cache_fields simp del: lookup_labels.simps)

text \<open>
  Allow adds its nonempty labels to the allowed set and revokes none: afterwards a label is
  allowed exactly when it was before or was passed to Allow, and nothing else of the cache
  changes. An empty label or an empty call allows nothing.
\<close>

theorem Allow_adds:
  assumes "l \<noteq> []"
  shows "case Allow (Some c) labels of None \<Rightarrow> False
    | Some c1 \<Rightarrow> (isAllowed c1 [l] \<longleftrightarrow> isAllowed c [l] \<or> l \<in> set labels) \<and>
        c1 = c\<lparr>ac_allowed := ac_allowed c1\<rparr>"
  using assms
  by (auto simp: Allow_def isAllowed_iff allowed_next_eq split: option.splits)

theorem Allow_adds_witness:
  "isAllowed (the (Allow (Some deny_cache) [''x'', []])) [''x'']"
  using Allow_adds [of "''x''" deny_cache "[''x'', []]"] by (auto split: option.splits)

text \<open>
  The set of names already warned about, denyOnce, is not bounded: it gains every distinct
  name that is refused and loses none, so a stream of new unknown labels grows it without limit,
  one warning each, although the entries themselves stay within the bound.
\<close>

theorem denyOnce_grows:
  assumes "ac_denyUnknown c"
  shows "ac_denyOnce (lookups api ks c) =
    ac_denyOnce c \<union> label_name ` {k \<in> set ks. \<not> permits_labels c k}"
proof (induction ks arbitrary: c)
  case (Cons k ks)
  have step: "ac_denyOnce (snd (find_labels api c k)) =
      ac_denyOnce c \<union> label_name ` {k' \<in> {k}. \<not> permits_labels c k'}" for c :: "'a attrCache"
  proof -
    have "ac_denyOnce (snd (intern_labels api c k)) = ac_denyOnce c"
      by (auto simp: intern_labels_eq reserveSlot_def overflowEntry_def Let_def
          split: option.splits)
    moreover have "ac_denyOnce (fst (noteDenied c (label_name k))) =
        insert (label_name k) (ac_denyOnce c)"
      by (auto simp: noteDenied_def)
    ultimately show ?thesis
      by (auto simp: find_labels_def lookup_labels_eq split: prod.splits)
  qed
  show ?case
    using Cons.IH [of "snd (find_labels api c k)"] step [of c]
    by (auto simp: lookups_def cache_lookup.permits_find)
qed (simp add: lookups_def)

theorem denyOnce_grows_witness:
  "ac_denyOnce (lookups list_api [One ''u1'', One ''u2'', One ''u3''] deny_cache) = {''u1'', ''u2'', ''u3''}"
  using denyOnce_grows [of deny_cache list_api "[One ''u1'', One ''u2'', One ''u3'']"]
  by (simp add: deny_cache_def newAttrCache_def Let_def permits_labels_def isAllowed_def Collect_conv_if
      Collect_disj_eq insert_commute conj_disj_distribR)

section \<open>The listing and the counters\<close>

lemma length_Subjects:
  assumes "cache_wf api c"
  shows "int (length (Subjects (Some c))) = cache_Len c"
proof -
  have "int (length (concat (map (\<lambda>s. map fst (sh_cache s) @ map (duo_name \<circ> fst) (sh_cache2 s)
      @ map (trio_name \<circ> fst) (sh_cache3 s)) shs))) = sum_list (map shard_len shs)" for shs
    by (induction shs) (simp_all add: shard_len_def)
  then show ?thesis using assms by (simp add: Subjects_def cache_Len_def cache_wf_def)
qed

lemma set_Subjects:
  assumes "cache_wf api c"
  shows "set (Subjects (Some c)) = label_name ` dom (cache_view c)"
proof -
  let ?n = "\<lambda>s. map fst (sh_cache s) @ map (duo_name \<circ> fst) (sh_cache2 s)
                 @ map (trio_name \<circ> fst) (sh_cache3 s)"
  have names: "set (?n s) = label_name ` dom (shard_find s)" for s :: "'a attrShard"
  proof -
    have "duo_name d = label_name (duo_label d)" "trio_name t = label_name (trio_label t)" for d t
      by (cases d; cases t; simp add: duo_name_def trio_name_def)+
    then show ?thesis
      by (simp add: dom_shard_find image_Un image_image dom_map_of_conv_image_fst Un_assoc)
  qed
  have "set (Subjects (Some c)) = (\<Union>s \<in> set (ac_shards c). label_name ` dom (shard_find s))"
    unfolding names [symmetric] by (simp add: Subjects_def)
  also have "\<dots> = (\<Union>i < attrCacheShards. label_name ` dom (shard_find (ac_shards c ! i)))"
    using assms by (auto simp: cache_wf_def set_conv_nth)
  finally show ?thesis by (simp add: dom_cache_view [OF assms] image_UN)
qed

text \<open>
  Subjects lists the cached labels, one name per entry: as many as Len says, and exactly the
  names of the labels in the cache, of all three arities (its comment speaks of arity 1 only).
\<close>

theorem Subjects_listing:
  assumes "cache_wf api c"
  shows "int (length (Subjects (Some c))) = cache_Len c \<and>
    set (Subjects (Some c)) = label_name ` dom (cache_view c)"
  by (simp add: length_Subjects [OF assms] set_Subjects [OF assms])

theorem Subjects_listing_witness:
  "set (Subjects (Some (lookups list_api [Two ''a'' ''ok''] (newAttrCache 2)))) = {''a|ok''}"
  using Subjects_listing [OF lookups_wf [OF cache_wf_new_small [of list_api], of "[Two ''a'' ''ok'']"]]
    cache_lookup.find_permitted [of "newAttrCache 2" "Two ''a'' ''ok''" list_api]
    intern_labels_room(2) [OF cache_wf_new_small, of "Two ''a'' ''ok''" list_api]
  by (simp add: lookups_def newAttrCache_2 del: intern_labels.simps)

text \<open>The detector wired into a cache counts misses, and misses that overflowed.\<close>

definition balanced :: "'set attrCache \<Rightarrow> bool" where
  "balanced c \<longleftrightarrow> (case ac_detector c of None \<Rightarrow> True
     | Some d \<Rightarrow> cs_Enable (cd_cfg d) \<longrightarrow> wrap64 (cd_records d - cd_overflows d) = ac_size c)"

lemma intern_balanced:
  assumes "cache_wf api c" and "balanced c"
  shows "balanced (snd (intern_labels api c k))"
proof -
  have "balanced c1" if r: "reserveSlot c m = (b, c1)" for m b c1
    using r assms cache_wf_size [OF assms(1)]
    by (auto simp: reserveSlot_def balanced_def ObserveMiss_def Let_def wrap64_add wrap64_diff
        algebra_simps split: if_splits option.splits)
      (metis add.commute add_diff_eq wrap64_add(1))+
  moreover have "balanced (snd (overflowEntry api c1)) = balanced c1" for c1
    by (auto simp: overflowEntry_def balanced_def Let_def split: option.splits)
  moreover have "balanced (c1\<lparr>ac_shards := s\<rparr>) = balanced c1" for c1 :: "'a attrCache" and s
    by (simp add: balanced_def split: option.split)
  ultimately show ?thesis
    using assms(2) by (auto simp: intern_labels_eq split: option.splits prod.splits bool.splits)
qed

text \<open>
  The counters of an enabled detector account for every entry: the misses it has counted,
  less those that overflowed, are the number of entries in its cache (modulo 2 to the 64), after
  any sequence of lookups on a cache where that held, a fresh one for instance. Hits and denials
  do not touch the two counters.
\<close>

theorem detector_accounts:
  assumes "cache_wf api c" and "balanced c"
  shows "balanced (lookups api ks c)"
  using assms
proof (induction ks arbitrary: c)
  case (Cons k ks)
  have "balanced (snd (find_labels api c k))"
  proof (cases "permits_labels c k")
    case True
    then show ?thesis
      using intern_balanced [OF Cons.prems] by (simp add: cache_lookup.find_permitted)
  next
    case False
    have "balanced (fst (noteDenied c (label_name k)))"
      using Cons.prems(2)
      by (auto simp: noteDenied_def balanced_def ObserveDenied_def split: option.splits)
    then show ?thesis
      using False by (auto simp: find_labels_def lookup_labels_eq split: prod.splits)
  qed
  then show ?case
    using Cons.IH [OF cache_lookup.find_inv [OF Cons.prems(1)]] by (simp add: lookups_def)
qed (simp add: lookups_def)

definition watched_cache :: "keyValue list attrCache" where
  "watched_cache = (newAttrCache 2)\<lparr>ac_detector := Some (newCardinalityDetector
     \<lparr> cs_MaxCardinality = 2, cs_MaxInstruments = 1, cs_DiagnosticInterval = 1,
       cs_WarnUtilizationPct = 50, cs_Enable = True, cs_DenyUnknown = False \<rparr>)\<rparr>"

lemma watched_cache_ok: "cache_wf list_api watched_cache" "balanced watched_cache"
proof -
  show "cache_wf list_api watched_cache"
    using cache_wf_cong [of watched_cache "newAttrCache 2" list_api] cache_wf_new_small
    by (simp add: watched_cache_def)
  show "balanced watched_cache"
    by (simp add: watched_cache_def balanced_def newCardinalityDetector_def newAttrCache_def Let_def
        wrap64_def)
qed

theorem detector_accounts_witness:
  "balanced (lookups list_api [One ''a'', One ''b'', One ''c'', One ''a''] watched_cache)"
  by (rule detector_accounts [OF watched_cache_ok])

section \<open>The shards\<close>

text \<open>
  Every label, whatever its bytes and arity, has a shard index below the number of shards, so
  the indexing of the shard array never fails; the index of a pair does not depend on the order
  of its labels, and a pair of equal labels always falls into shard 0.
\<close>

theorem shard_index_in_range:
  "unat (shardIndex a) < attrCacheShards \<and> unat (shardIndex2 a b) < attrCacheShards \<and>
   unat (shardIndex3 a b c) < attrCacheShards \<and> shardIndex2 a b = shardIndex2 b a \<and>
   shardIndex2 a a = 0"
proof -
  have "shardIndex2 a b = shardIndex2 b a" "shardIndex2 a a = 0"
    by (simp_all add: shardIndex2_def semiring_bit_operations_class.xor.commute)
  then show ?thesis by (simp add: shardIndex_less shardIndex2_less shardIndex3_less)
qed

end
