(* ===== verification/Attr_Cache_Conc.thy ===== *)
theory Attr_Cache_Conc
  imports Attr_Cache_Correct
begin

text \<open>
  The attribute cache under concurrent callers. A call of entry, entry2 or entry3 is a sequence
  of atomic steps of its goroutine: the lookup under the read lock, taking the write lock, the
  second lookup, the load and the compare-and-swap of reserveSlot with its retry, the miss
  counters, the insertion or the overflow entry, and the release. The write lock of a shard is
  the goroutine that holds it. Goroutines are numbers; the Go scheduler is the choice of which
  one steps. A waiting writer of Go's RWMutex may hold readers back longer than here, which
  only removes schedules.
\<close>

section \<open>Goroutines\<close>

datatype 'set pc =
    Idle
  | Reading labels
  | Missed labels
  | Locked labels
  | Reserve labels
  | Loaded labels int
  | Won labels
  | Reserved labels
  | Full labels
  | Refused labels
  | Unlocking labels "'set subjectEntry"
  | Done labels "'set subjectEntry"

record 'set concState =
  cc_cache :: "'set attrCache"
  cc_lock :: "nat \<Rightarrow> nat option"
  cc_pc :: "nat \<Rightarrow> 'set pc"

definition goto :: "nat \<Rightarrow> 'set pc \<Rightarrow> 'set concState \<Rightarrow> 'set concState" where
  "goto t p s = s\<lparr>cc_pc := (cc_pc s)(t := p)\<rparr>"

definition observe :: "labels \<Rightarrow> bool \<Rightarrow> 'set attrCache \<Rightarrow> 'set attrCache" where
  "observe k overflow c = c\<lparr>ac_detector := (case ac_detector c of None \<Rightarrow> None
     | Some d \<Rightarrow> ObserveMiss (Some d) (label_name k) overflow)\<rparr>"

text \<open>
  One atomic step of goroutine \<open>t\<close>; \<^const>\<open>None\<close> when it is blocked on a lock or has nothing to do.
\<close>

definition entry_step :: "'set attr_api \<Rightarrow> nat \<Rightarrow> 'set concState \<Rightarrow> 'set concState option" where
  "entry_step api t s =
     (let c = cc_cache s in
      case cc_pc s t of
        Idle \<Rightarrow> None
      | Reading k \<Rightarrow>
          if cc_lock s (shard_of k) \<noteq> None then None
          else (case cache_view c k of
                  Some e \<Rightarrow> Some (goto t (Done k e) s)
                | None \<Rightarrow> Some (goto t (Missed k) s))
      | Missed k \<Rightarrow>
          if cc_lock s (shard_of k) \<noteq> None then None
          else Some (goto t (Locked k) (s\<lparr>cc_lock := (cc_lock s)(shard_of k := Some t)\<rparr>))
      | Locked k \<Rightarrow>
          (case cache_view c k of
             Some e \<Rightarrow> Some (goto t (Unlocking k e) s)
           | None \<Rightarrow> Some (goto t (Reserve k) s))
      | Reserve k \<Rightarrow>
          (let sz = ac_size c in
           if sz \<ge> ac_maxEntries c then Some (goto t (Full k) s)
           else Some (goto t (Loaded k sz) s))
      | Loaded k sz \<Rightarrow>
          if ac_size c = sz
          then Some (goto t (Won k) (s\<lparr>cc_cache := c\<lparr>ac_size := wrap64 (sz + 1)\<rparr>\<rparr>))
          else Some (goto t (Reserve k) s)
      | Won k \<Rightarrow> Some (goto t (Reserved k) (s\<lparr>cc_cache := observe k False c\<rparr>))
      | Reserved k \<Rightarrow>
          (let e = newSubjectEntry (NewSet api (label_attrs k)) in
           Some (goto t (Unlocking k e) (s\<lparr>cc_cache := c\<lparr>ac_shards := (ac_shards c)
             [shard_of k := shard_put (ac_shards c ! shard_of k) k e]\<rparr>\<rparr>)))
      | Full k \<Rightarrow> Some (goto t (Refused k) (s\<lparr>cc_cache := observe k True c\<rparr>))
      | Refused k \<Rightarrow>
          (case overflowEntry api c of (e, c1) \<Rightarrow>
             Some (goto t (Unlocking k e) (s\<lparr>cc_cache := c1\<rparr>)))
      | Unlocking k e \<Rightarrow>
          Some (goto t (Done k e) (s\<lparr>cc_lock := (cc_lock s)(shard_of k := None)\<rparr>))
      | Done k e \<Rightarrow> None)"

text \<open>A goroutine that is not inside a call may begin one, for any label.\<close>

definition between_calls :: "'set pc \<Rightarrow> bool" where
  "between_calls p \<longleftrightarrow> (case p of Idle \<Rightarrow> True | Done k e \<Rightarrow> True | _ \<Rightarrow> False)"

inductive conc_run :: "'set attr_api \<Rightarrow> int \<Rightarrow> 'set concState \<Rightarrow> bool" for api n where
  start: "conc_run api n \<lparr> cc_cache = newAttrCache n, cc_lock = (\<lambda>i. None), cc_pc = (\<lambda>t. Idle) \<rparr>"
| call: "conc_run api n s \<Longrightarrow> between_calls (cc_pc s t) \<Longrightarrow> conc_run api n (goto t (Reading k) s)"
| step: "conc_run api n s \<Longrightarrow> entry_step api t s = Some s' \<Longrightarrow> conc_run api n s'"

text \<open>A schedule to execute: the start of a call, or a step of a goroutine.\<close>

datatype event = Call nat labels | Step nat

fun exec :: "'set attr_api \<Rightarrow> event list \<Rightarrow> 'set concState \<Rightarrow> 'set concState option" where
  "exec api [] s = Some s"
| "exec api (Call t k # es) s =
     (if between_calls (cc_pc s t) then exec api es (goto t (Reading k) s) else None)"
| "exec api (Step t # es) s =
     (case entry_step api t s of None \<Rightarrow> None | Some s' \<Rightarrow> exec api es s')"

lemma exec_run: "conc_run api n s \<Longrightarrow> exec api es s = Some s' \<Longrightarrow> conc_run api n s'"
  by (induction es arbitrary: s rule: list.induct)
    (simp, case_tac x1, auto intro: conc_run.intros split: if_splits option.splits)

lemma goto_simps [simp]:
  "cc_cache (goto t p s) = cc_cache s" "cc_lock (goto t p s) = cc_lock s"
  "cc_pc (goto t p s) = (cc_pc s)(t := p)"
  by (simp_all add: goto_def)

lemma observe_simps [simp]:
  "ac_shards (observe k b c) = ac_shards c" "ac_size (observe k b c) = ac_size c"
  "ac_maxEntries (observe k b c) = ac_maxEntries c" "ac_overflow (observe k b c) = ac_overflow c"
  "cache_view (observe k b c) = cache_view c"
  by (simp_all add: observe_def cache_view_def fun_eq_iff)

section \<open>The invariant\<close>

text \<open>The label whose shard a goroutine has locked, and the one it has a slot for.\<close>

fun holds :: "'set pc \<Rightarrow> labels option" where
  "holds Idle = None"
| "holds (Reading k) = None"
| "holds (Missed k) = None"
| "holds (Locked k) = Some k"
| "holds (Reserve k) = Some k"
| "holds (Loaded k sz) = Some k"
| "holds (Won k) = Some k"
| "holds (Reserved k) = Some k"
| "holds (Full k) = Some k"
| "holds (Refused k) = Some k"
| "holds (Unlocking k e) = Some k"
| "holds (Done k e) = None"

fun flies :: "'set pc \<Rightarrow> labels option" where
  "flies (Won k) = Some k"
| "flies (Reserved k) = Some k"
| "flies p = None"

definition flying :: "'set concState \<Rightarrow> nat set" where
  "flying s = {t. flies (cc_pc s t) \<noteq> None}"

definition answered :: "'set attr_api \<Rightarrow> 'set attrCache \<Rightarrow> labels \<Rightarrow> 'set subjectEntry \<Rightarrow> bool" where
  "answered api c k e \<longleftrightarrow> cache_view c k = Some e \<or>
     cache_view c k = None \<and> e = overflow_for api \<and> ac_size c = ac_maxEntries c"

fun pc_ok :: "'set attr_api \<Rightarrow> 'set attrCache \<Rightarrow> 'set pc \<Rightarrow> bool" where
  "pc_ok api c (Reserve k) = (cache_view c k = None)"
| "pc_ok api c (Loaded k sz) = (cache_view c k = None \<and> 0 \<le> sz \<and> sz < ac_maxEntries c)"
| "pc_ok api c (Won k) = (cache_view c k = None)"
| "pc_ok api c (Reserved k) = (cache_view c k = None)"
| "pc_ok api c (Full k) = (cache_view c k = None \<and> ac_size c = ac_maxEntries c)"
| "pc_ok api c (Refused k) = (cache_view c k = None \<and> ac_size c = ac_maxEntries c)"
| "pc_ok api c (Unlocking k e) = answered api c k e"
| "pc_ok api c (Done k e) = answered api c k e"
| "pc_ok api c p = True"

definition committed :: "'set concState \<Rightarrow> 'set attrCache" where
  "committed s = (cc_cache s)\<lparr>ac_size := ac_size (cc_cache s) - int (card (flying s))\<rparr>"

definition overflow_final :: "'set concState \<Rightarrow> bool" where
  "overflow_final s \<longleftrightarrow> (\<forall>t t' k e. cc_pc s t = Done k e \<longrightarrow> cache_view (cc_cache s) k = None \<longrightarrow>
     flies (cc_pc s t') \<noteq> Some k)"

definition locks_ok :: "'set concState \<Rightarrow> bool" where
  "locks_ok s \<longleftrightarrow>
     (\<forall>i t. cc_lock s i = Some t \<longleftrightarrow> (\<exists>k. holds (cc_pc s t) = Some k \<and> shard_of k = i))"

definition conc_inv :: "'set attr_api \<Rightarrow> 'set concState \<Rightarrow> bool" where
  "conc_inv api s \<longleftrightarrow> finite {t. cc_pc s t \<noteq> Idle} \<and> cache_wf api (committed s) \<and>
     ac_size (cc_cache s) \<le> ac_maxEntries (cc_cache s) \<and> locks_ok s \<and> overflow_final s \<and>
     (\<forall>t. pc_ok api (cc_cache s) (cc_pc s t))"

lemma holds_flies: "flies p = Some k \<Longrightarrow> holds p = Some k"
  by (cases p) auto

lemma locks_exclusive:
  "locks_ok s \<Longrightarrow> holds (cc_pc s t) = Some k \<Longrightarrow> holds (cc_pc s t') = Some k' \<Longrightarrow>
     shard_of k = shard_of k' \<Longrightarrow> t = t'"
  unfolding locks_ok_def by (metis option.inject)

lemma finite_flying: "finite {t. cc_pc s t \<noteq> Idle} \<Longrightarrow> finite (flying s)"
  by (erule rev_finite_subset) (auto simp: flying_def)

lemma conc_invD:
  assumes "conc_inv api s"
  shows "finite {t. cc_pc s t \<noteq> Idle}" "finite (flying s)" "cache_wf api (committed s)"
    "ac_size (cc_cache s) \<le> ac_maxEntries (cc_cache s)" "locks_ok s" "overflow_final s"
    "pc_ok api (cc_cache s) (cc_pc s t)"
  using assms finite_flying by (auto simp: conc_inv_def)

lemma flying_frame [simp]:
  "flying (s\<lparr>cc_lock := l\<rparr>) = flying s" "flying (s\<lparr>cc_cache := c\<rparr>) = flying s"
  by (simp_all add: flying_def)

lemma flying_same: "flies (cc_pc s t) = flies p \<Longrightarrow> flying (goto t p s) = flying s"
  by (drule sym) (auto simp: flying_def)

lemma committed_simps [simp]:
  "ac_shards (committed s) = ac_shards (cc_cache s)"
  "ac_maxEntries (committed s) = ac_maxEntries (cc_cache s)"
  "ac_overflow (committed s) = ac_overflow (cc_cache s)"
  "ac_size (committed s) = ac_size (cc_cache s) - int (card (flying s))"
  "cache_view (committed s) = cache_view (cc_cache s)"
  by (simp_all add: committed_def cache_view_def fun_eq_iff)

section \<open>The invariant is kept\<close>

text \<open>The steps one by one, for the case distinctions below.\<close>

lemma entry_stepE:
  assumes "entry_step api t s = Some s'"
  obtains (hit) k e where "cc_pc s t = Reading k" "cc_lock s (shard_of k) = None"
      "cache_view (cc_cache s) k = Some e" "s' = goto t (Done k e) s"
  | (miss) k where "cc_pc s t = Reading k" "cc_lock s (shard_of k) = None"
      "cache_view (cc_cache s) k = None" "s' = goto t (Missed k) s"
  | (acquire) k where "cc_pc s t = Missed k" "cc_lock s (shard_of k) = None"
      "s' = goto t (Locked k) (s\<lparr>cc_lock := (cc_lock s)(shard_of k := Some t)\<rparr>)"
  | (again) k e where "cc_pc s t = Locked k" "cache_view (cc_cache s) k = Some e"
      "s' = goto t (Unlocking k e) s"
  | (absent) k where "cc_pc s t = Locked k" "cache_view (cc_cache s) k = None"
      "s' = goto t (Reserve k) s"
  | (full) k where "cc_pc s t = Reserve k"
      "ac_maxEntries (cc_cache s) \<le> ac_size (cc_cache s)" "s' = goto t (Full k) s"
  | (load) k where "cc_pc s t = Reserve k"
      "ac_size (cc_cache s) < ac_maxEntries (cc_cache s)"
      "s' = goto t (Loaded k (ac_size (cc_cache s))) s"
  | (swap) k where "cc_pc s t = Loaded k (ac_size (cc_cache s))"
      "s' = goto t (Won k) (s\<lparr>cc_cache :=
         (cc_cache s)\<lparr>ac_size := wrap64 (ac_size (cc_cache s) + 1)\<rparr>\<rparr>)"
  | (retry) k sz where "cc_pc s t = Loaded k sz" "ac_size (cc_cache s) \<noteq> sz"
      "s' = goto t (Reserve k) s"
  | (count) k where "cc_pc s t = Won k"
      "s' = goto t (Reserved k) (s\<lparr>cc_cache := observe k False (cc_cache s)\<rparr>)"
  | (insert) k where "cc_pc s t = Reserved k"
      "s' = goto t (Unlocking k (entry_for api k)) (s\<lparr>cc_cache := (cc_cache s)\<lparr>ac_shards :=
         (ac_shards (cc_cache s))[shard_of k :=
            shard_put (ac_shards (cc_cache s) ! shard_of k) k (entry_for api k)]\<rparr>\<rparr>)"
  | (refuse) k where "cc_pc s t = Full k"
      "s' = goto t (Refused k) (s\<lparr>cc_cache := observe k True (cc_cache s)\<rparr>)"
  | (overflow) k where "cc_pc s t = Refused k"
      "s' = goto t (Unlocking k (fst (overflowEntry api (cc_cache s))))
         (s\<lparr>cc_cache := snd (overflowEntry api (cc_cache s))\<rparr>)"
  | (release) k e where "cc_pc s t = Unlocking k e"
      "s' = goto t (Done k e) (s\<lparr>cc_lock := (cc_lock s)(shard_of k := None)\<rparr>)"
proof (cases "cc_pc s t")
  case Idle
  with assms show thesis
    by (auto simp: entry_step_def Let_def entry_for_def split: if_splits option.splits prod.splits)
next
  case (Reading k)
  with assms hit miss show thesis
    by (auto simp: entry_step_def Let_def entry_for_def split: if_splits option.splits prod.splits)
next
  case (Missed k)
  with assms acquire show thesis
    by (auto simp: entry_step_def Let_def entry_for_def split: if_splits option.splits prod.splits)
next
  case (Locked k)
  with assms again absent show thesis
    by (auto simp: entry_step_def Let_def entry_for_def split: if_splits option.splits prod.splits)
next
  case (Reserve k)
  with assms full load show thesis
    by (auto simp: entry_step_def Let_def entry_for_def split: if_splits option.splits prod.splits)
next
  case (Loaded k sz)
  with assms swap retry show thesis
    by (auto simp: entry_step_def Let_def entry_for_def split: if_splits option.splits prod.splits)
next
  case (Won k)
  with assms count show thesis
    by (auto simp: entry_step_def Let_def entry_for_def split: if_splits option.splits prod.splits)
next
  case (Reserved k)
  with assms insert show thesis
    by (auto simp: entry_step_def Let_def entry_for_def split: if_splits option.splits prod.splits)
next
  case (Full k)
  with assms refuse show thesis
    by (auto simp: entry_step_def Let_def entry_for_def split: if_splits option.splits prod.splits)
next
  case (Refused k)
  with assms overflow show thesis
    by (auto simp: entry_step_def Let_def entry_for_def split: if_splits option.splits prod.splits)
next
  case (Unlocking k e)
  with assms release show thesis
    by (auto simp: entry_step_def Let_def entry_for_def split: if_splits option.splits prod.splits)
next
  case (Done k e)
  with assms show thesis
    by (auto simp: entry_step_def Let_def entry_for_def split: if_splits option.splits prod.splits)
qed

lemma overflowEntry_frame [simp]:
  "ac_shards (snd (overflowEntry api c)) = ac_shards c"
  "ac_size (snd (overflowEntry api c)) = ac_size c"
  "ac_maxEntries (snd (overflowEntry api c)) = ac_maxEntries c"
  "cache_view (snd (overflowEntry api c)) = cache_view c"
  by (auto simp: overflowEntry_def Let_def cache_view_def fun_eq_iff split: option.splits)

lemma cache_view_size [simp]: "cache_view (c\<lparr>ac_size := n\<rparr>) = cache_view c"
  by (simp add: cache_view_def fun_eq_iff)

lemma view_put:
  assumes "cache_wf api (committed s)"
  shows "cache_view ((cc_cache s)\<lparr>ac_shards := (ac_shards (cc_cache s))
     [shard_of k := shard_put (ac_shards (cc_cache s) ! shard_of k) k e]\<rparr>) =
     (cache_view (cc_cache s))(k \<mapsto> e)"
  using cache_view_insert [OF assms, where k = k and e = e] by (simp add: cache_view_def [abs_def])

text \<open>Each conjunct by itself.\<close>

lemma locks_ok_step:
  assumes "locks_ok s" and "entry_step api t s = Some s'"
  shows "locks_ok s'"
proof -
  have held: "holds (cc_pc s t') = Some k \<Longrightarrow> shard_of k = i \<Longrightarrow> cc_lock s i = Some t'" for k t' i
    using assms(1) by (auto simp: locks_ok_def)
  from assms(2) show ?thesis
  proof (cases rule: entry_stepE)
    case (release k e)
    have "cc_lock s (shard_of k) = Some t" using release held by (metis holds.simps(11))
    then have "holds (cc_pc s t') = Some k' \<Longrightarrow> t' \<noteq> t \<Longrightarrow> shard_of k' \<noteq> shard_of k" for t' k'
      using held [of t' k' "shard_of k"] by auto
    then show ?thesis using assms(1) release by (auto simp: locks_ok_def)
  next
    case (acquire k)
    then have "holds (cc_pc s t') = Some k' \<Longrightarrow> shard_of k' \<noteq> shard_of k" for t' k'
      using held [of t' k' "shard_of k"] by auto
    then show ?thesis using assms(1) acquire by (auto simp: locks_ok_def)
  qed (use assms(1) in \<open>auto simp: locks_ok_def\<close>)
qed

lemma finite_step:
  assumes fin: "finite {t. cc_pc s t \<noteq> Idle}" and st: "entry_step api t s = Some s'"
  shows "finite {t. cc_pc s' t \<noteq> Idle}"
proof -
  have "{t. cc_pc s' t \<noteq> Idle} \<subseteq> insert t {t. cc_pc s t \<noteq> Idle}"
    using st by (cases rule: entry_stepE) auto
  then show ?thesis using fin finite_subset by blast
qed

lemma full_answer:
  assumes "conc_inv api s" and "cc_pc s t = Done k e" and "cache_view (cc_cache s) k = None"
  shows "ac_size (cc_cache s) = ac_maxEntries (cc_cache s)"
  using conc_invD(7) [OF assms(1), of t] assms(2,3) by (simp add: answered_def)

lemma view_step:
  assumes wf: "cache_wf api (committed s)" and st: "entry_step api t s = Some s'"
    and "cache_view (cc_cache s) k \<noteq> None"
  shows "cache_view (cc_cache s') k \<noteq> None"
  using st
proof (cases rule: entry_stepE)
  case (insert k')
  then show ?thesis
    using assms(3) view_put [OF wf, where k = k'] by simp
qed (use assms(3) in \<open>auto\<close>)

lemma overflow_final_step:
  fixes s s' :: "'set concState"
  assumes inv: "conc_inv api s" and st: "entry_step api t s = Some s'"
  shows "overflow_final s'"
proof -
  note D = conc_invD [OF inv]
  have old: "cc_pc s t1 = Done k e \<Longrightarrow> cache_view (cc_cache s') k = None \<Longrightarrow>
      flies (cc_pc s t2) \<noteq> Some k" for t1 t2 k e
    using D(6) view_step [OF D(3) st] unfolding overflow_final_def by blast
  from st show ?thesis
  proof (cases rule: entry_stepE)
    case (swap k)
    then have "ac_size (cc_cache s) < ac_maxEntries (cc_cache s)" using D(7) [of t] by simp
    then have "cache_view (cc_cache s) k' = None \<Longrightarrow> cc_pc s t1 \<noteq> Done k' e"
      for t1 k' and e :: "'set subjectEntry"
      using full_answer [OF inv, of t1 k' e] by auto
    then show ?thesis using swap by (auto simp: overflow_final_def)
  next
    case (count k)
    then have "cache_view (cc_cache s) k = None \<Longrightarrow> cc_pc s t1 \<noteq> Done k e"
      for t1 and e :: "'set subjectEntry"
      using old [of t1 k e t] by auto
    then show ?thesis using count old by (auto simp: overflow_final_def)
  next
    case (release k e)
    have "holds (cc_pc s t) = Some k" using release by simp
    then have "t2 \<noteq> t \<Longrightarrow> flies (cc_pc s t2) \<noteq> Some k" for t2
      using locks_exclusive [OF D(5)] holds_flies by blast
    then show ?thesis using release old by (auto simp: overflow_final_def)
  qed (use old in \<open>auto simp: overflow_final_def\<close>)
qed

text \<open>
  A goroutine's own new position is right, and a step of another one, which never holds the same
  shard, does not disturb it.
\<close>

lemma answered_step:
  assumes inv: "conc_inv api s" and st: "entry_step api t s = Some s'"
    and ans: "answered api (cc_cache s) k e"
    and safe: "cache_view (cc_cache s) k = None \<Longrightarrow> flies (cc_pc s t) \<noteq> Some k"
  shows "answered api (cc_cache s') k e"
  using st
proof (cases rule: entry_stepE)
  case (swap k')
  then have "ac_size (cc_cache s) \<noteq> ac_maxEntries (cc_cache s)"
    using conc_invD(7) [OF inv, of t] by auto
  then show ?thesis using ans swap by (auto simp: answered_def)
next
  case (insert k')
  have "k' \<noteq> k" if "cache_view (cc_cache s) k = None"
    using safe [OF that] insert by auto
  moreover have "cache_view (cc_cache s) k' = None"
    using insert conc_invD(7) [OF inv, of t] by simp
  ultimately show ?thesis
    using ans insert view_put [OF conc_invD(3) [OF inv]] by (auto simp: answered_def)
qed (use ans in \<open>auto simp: answered_def\<close>)

lemma pc_ok_other:
  assumes inv: "conc_inv api s" and st: "entry_step api t s = Some s'" and "t' \<noteq> t"
  shows "pc_ok api (cc_cache s') (cc_pc s t')"
proof -
  note D = conc_invD [OF inv]
  have ans: "answered api (cc_cache s) k e \<Longrightarrow>
      (cache_view (cc_cache s) k = None \<Longrightarrow> flies (cc_pc s t) \<noteq> Some k) \<Longrightarrow>
      answered api (cc_cache s') k e" for k e
    by (rule answered_step [OF inv st])
  have apart: "holds (cc_pc s t') = Some k \<Longrightarrow> flies (cc_pc s t) \<noteq> Some k" for k
    using locks_exclusive [OF D(5)] holds_flies assms(3) by blast
  have quiet: "holds (cc_pc s t') = Some k \<Longrightarrow> cache_view (cc_cache s) k = None \<Longrightarrow>
      cache_view (cc_cache s') k = None" for k
    using st
  proof (cases rule: entry_stepE)
    case (insert k')
    assume "holds (cc_pc s t') = Some k" "cache_view (cc_cache s) k = None"
    moreover from this have "k' \<noteq> k" using apart insert by auto
    ultimately show ?thesis using insert view_put [OF D(3)] by simp
  qed auto
  have max: "ac_maxEntries (cc_cache s') = ac_maxEntries (cc_cache s)"
    using st by (cases rule: entry_stepE) auto
  have full: "ac_size (cc_cache s) = ac_maxEntries (cc_cache s) \<Longrightarrow>
      ac_size (cc_cache s') = ac_size (cc_cache s)"
    using st D(7) [of t] by (cases rule: entry_stepE) auto
  show ?thesis
  proof (cases "cc_pc s t'")
    case (Done k e)
    have "cache_view (cc_cache s) k = None \<Longrightarrow> flies (cc_pc s t) \<noteq> Some k"
      using D(6) Done unfolding overflow_final_def by blast
    then show ?thesis using D(7) [of t'] ans [of k e] Done by simp
  qed (use D(7) [of t'] ans apart quiet max full in auto)
qed

lemma pc_ok_self:
  assumes inv: "conc_inv api s" and st: "entry_step api t s = Some s'"
  shows "pc_ok api (cc_cache s') (cc_pc s' t)"
proof -
  note D = conc_invD [OF inv]
  have self: "pc_ok api (cc_cache s) (cc_pc s t)" by (rule D(7))
  from st show ?thesis
  proof (cases rule: entry_stepE)
    case (full k)
    then show ?thesis using self D(4) by simp
  next
    case (load k)
    moreover have "0 \<le> ac_size (cc_cache s)"
      using cache_wf_size [OF D(3)] by simp
    ultimately show ?thesis using self by simp
  next
    case (insert k)
    then show ?thesis using self view_put [OF D(3)] by (simp add: answered_def)
  next
    case (overflow k)
    have "fst (overflowEntry api (cc_cache s)) = overflow_for api"
      using D(3) by (auto simp: overflowEntry_def overflow_for_def cache_wf_def Let_def
          split: option.split)
    then show ?thesis using overflow self by (simp add: answered_def)
  qed (use self in \<open>auto simp: answered_def\<close>)
qed

lemma size_step:
  assumes inv: "conc_inv api s" and st: "entry_step api t s = Some s'"
  shows "ac_size (cc_cache s') \<le> ac_maxEntries (cc_cache s')"
  using st
proof (cases rule: entry_stepE)
  case (swap k)
  then have "0 \<le> ac_size (cc_cache s)" "ac_size (cc_cache s) < ac_maxEntries (cc_cache s)"
    using conc_invD(7) [OF inv, of t] by auto
  moreover from this have "in_i64 (ac_size (cc_cache s) + 1)"
    using conc_invD(3) [OF inv] by (simp add: cache_wf_def in_i64_def)
  ultimately show ?thesis using swap by simp
qed (use conc_invD(4) [OF inv] in auto)

lemma committed_step:
  assumes inv: "conc_inv api s" and st: "entry_step api t s = Some s'"
  shows "cache_wf api (committed s')"
proof -
  note D = conc_invD [OF inv]
  have same: "cache_wf api (committed s')"
    if "ac_shards (cc_cache s') = ac_shards (cc_cache s)"
      "ac_size (cc_cache s') - int (card (flying s')) = ac_size (cc_cache s) - int (card (flying s))"
      "ac_maxEntries (cc_cache s') = ac_maxEntries (cc_cache s)"
      "ac_overflow (cc_cache s') = ac_overflow (cc_cache s)"
    using D(3) cache_wf_cong [of "committed s'" "committed s"] that by simp
  from st show ?thesis
  proof (cases rule: entry_stepE)
    case (swap k)
    let ?n = "ac_size (cc_cache s)"
    have "in_i64 (?n + 1)" using swap D(3) D(7) [of t] by (simp add: cache_wf_def in_i64_def)
    moreover have "flying s' = insert t (flying s)" "t \<notin> flying s"
      using swap by (auto simp: flying_def)
    ultimately show ?thesis using swap D(2) by (intro same) auto
  next
    case (insert k)
    let ?e = "entry_for api k"
    let ?sh = "(ac_shards (cc_cache s))[shard_of k := shard_put (ac_shards (cc_cache s) ! shard_of k) k ?e]"
    let ?c = "committed s"
    have fly: "flying s' = flying s - {t}" "t \<in> flying s" using insert by (auto simp: flying_def)
    then have "card (flying s) = Suc (card (flying s'))" using card.remove [OF D(2)] by simp
    then have card: "int (card (flying s')) = int (card (flying s)) - 1" "0 < card (flying s)"
      by simp_all
    have "cache_wf api (?c\<lparr>ac_size := ac_size ?c + 1, ac_shards := (ac_shards ?c)
        [shard_of k := shard_put (ac_shards ?c ! shard_of k) k ?e]\<rparr>)"
      using insert D(4) D(7) [of t] card(2) by (intro cache_wf_insert [OF D(3)]) auto
    moreover have "cache_wf api (committed s') =
        cache_wf api (?c\<lparr>ac_size := ac_size ?c + 1, ac_shards := ?sh\<rparr>)"
      using insert card by (intro cache_wf_cong) auto
    ultimately show ?thesis by simp
  next
    case (overflow k)
    have "cache_wf api (snd (overflowEntry api (committed s)))" by (rule overflowEntry_wf [OF D(3)])
    moreover have "cache_wf api (committed s') = cache_wf api (snd (overflowEntry api (committed s)))"
      using overflow
      by (intro cache_wf_cong) (auto simp: overflowEntry_def flying_same Let_def split: option.split)
    ultimately show ?thesis by simp
  qed (rule same; simp add: flying_same)+
qed

lemma conc_inv_step:
  assumes inv: "conc_inv api s" and st: "entry_step api t s = Some s'"
  shows "conc_inv api s'"
proof -
  have "cc_pc s' t' = cc_pc s t'" if "t' \<noteq> t" for t'
    using st that by (cases rule: entry_stepE) auto
  then have "pc_ok api (cc_cache s') (cc_pc s' t')" for t'
    using pc_ok_self [OF inv st] pc_ok_other [OF inv st, of t'] by (cases "t' = t") simp_all
  then show ?thesis
    using locks_ok_step [OF conc_invD(5) [OF inv] st] finite_step [OF conc_invD(1) [OF inv] st]
      committed_step [OF inv st] size_step [OF inv st] overflow_final_step [OF inv st] by (simp add: conc_inv_def)
qed

lemma conc_inv_call:
  assumes "conc_inv api s" and "between_calls (cc_pc s t)"
  shows "conc_inv api (goto t (Reading k) s)"
proof -
  have free: "holds (cc_pc s t) = None" "flies (cc_pc s t) = None"
    using assms(2) by (auto simp: between_calls_def split: pc.splits)
  then have fly: "flying (goto t (Reading k) s) = flying s" by (auto simp: flying_def)
  have "{t'. cc_pc (goto t (Reading k) s) t' \<noteq> Idle} \<subseteq> insert t {t'. cc_pc s t' \<noteq> Idle}" by auto
  then have "finite {t'. cc_pc (goto t (Reading k) s) t' \<noteq> Idle}"
    using conc_invD(1) [OF assms(1)] by (meson finite_insert finite_subset)
  moreover have "cache_wf api (committed (goto t (Reading k) s)) = cache_wf api (committed s)"
    using fly by (intro cache_wf_cong) auto
  moreover have "locks_ok (goto t (Reading k) s)"
    using free(1) conc_invD(5) [OF assms(1)] by (auto simp: locks_ok_def)
  moreover have "overflow_final (goto t (Reading k) s)"
    using conc_invD(6) [OF assms(1)] by (auto simp: overflow_final_def)
  ultimately show ?thesis
    using assms(1) by (simp add: conc_inv_def)
qed

lemma newAttrCache_start: "ac_size (newAttrCache n) = 0" "0 \<le> ac_maxEntries (newAttrCache n)"
  by (simp_all add: newAttrCache_def Let_def defaultMaxCardinality_def)

lemma conc_run_inv [inv_rules]: "conc_run api n s \<Longrightarrow> in_i64 n \<Longrightarrow> conc_inv api s"
proof (induction rule: conc_run.induct)
  case start
  then have "cache_wf api (newAttrCache n)" by (rule cache_wf_new)
  moreover have "cache_wf api (newAttrCache n\<lparr>ac_size := 0\<rparr>) = cache_wf api (newAttrCache n)"
    by (intro cache_wf_cong) (simp_all add: newAttrCache_start)
  ultimately show ?case
    by (simp add: newAttrCache_start conc_inv_def locks_ok_def overflow_final_def committed_def flying_def)
next
  case (call s t k)
  then show ?case by (simp add: conc_inv_call)
next
  case (step s t s')
  then show ?case by (blast intro: conc_inv_step)
qed

section \<open>Bound, answers, quiescence\<close>

text \<open>
  C1: Under any number of concurrent callers and any schedule, the entries of the cache together
  with the slots reserved but not yet filled are exactly what the size counter says, and never
  more than the bound.
\<close>

theorem conc_never_exceeds_bound:
  assumes "conc_run api n s" and "in_i64 n"
  shows "int (card (dom (cache_view (cc_cache s))) + card (flying s)) = ac_size (cc_cache s) \<and>
    ac_size (cc_cache s) \<le> ac_maxEntries (newAttrCache n :: 'set attrCache)"
proof -
  have inv: "conc_inv api s" using assms by (rule conc_run_inv)
  have "ac_maxEntries (cc_cache s) = ac_maxEntries (newAttrCache n :: 'set attrCache)"
    using assms(1)
  proof (induction rule: conc_run.induct)
    case (step s t s')
    from step(2) have "ac_maxEntries (cc_cache s') = ac_maxEntries (cc_cache s)"
      by (cases rule: entry_stepE) auto
    with step show ?case by simp
  qed (simp_all add: newAttrCache_def Let_def)
  then show ?thesis
    using conc_invD(4) [OF inv] card_cache_view [OF conc_invD(3) [OF inv]] by simp
qed

text \<open>
  C14: A call that has returned gave either the entry of its own label, which is then in the
  cache, or the overflow entry; the latter only when the table had become full without the
  label, and from then on it stays full and no call inserts that label.
\<close>

theorem conc_answers:
  assumes "conc_run api n s" and "in_i64 n" and "cc_pc s t = Done k e"
  shows "cache_view (cc_cache s) k = Some e \<and> e = entry_for api k \<or>
    cache_view (cc_cache s) k = None \<and> e = overflow_for api \<and>
      ac_size (cc_cache s) = ac_maxEntries (cc_cache s) \<and> (\<forall>t'. flies (cc_pc s t') \<noteq> Some k)"
proof -
  have inv: "conc_inv api s" using assms(1,2) by (rule conc_run_inv)
  have "answered api (cc_cache s) k e" using conc_invD(7) [OF inv, of t] assms(3) by simp
  moreover have "cache_view (cc_cache s) k = None \<Longrightarrow> flies (cc_pc s t') \<noteq> Some k" for t'
    using conc_invD(6) [OF inv] assms(3) unfolding overflow_final_def by blast
  ultimately show ?thesis
    using cache_view_entry [OF conc_invD(3) [OF inv], of k e] by (auto simp: answered_def)
qed

text \<open>
  When every goroutine is between calls, no slot is reserved, every lock is free and the
  cache satisfies the sequential invariant again, so the sequential theorems apply to it.
\<close>

theorem conc_quiescent:
  assumes "conc_run api n s" and "in_i64 n" and "\<forall>t. between_calls (cc_pc s t)"
  shows "cache_wf api (cc_cache s) \<and> flying s = {} \<and> cc_lock s = (\<lambda>i. None)"
proof -
  have inv: "conc_inv api s" using assms(1,2) by (rule conc_run_inv)
  have idle: "flies (cc_pc s t) = None" "holds (cc_pc s t) = None" for t
    using assms(3) [rule_format, of t] by (auto simp: between_calls_def split: pc.splits)
  have "cc_lock s i = None" for i
    using conc_invD(5) [OF inv] idle(2) by (cases "cc_lock s i") (auto simp: locks_ok_def)
  moreover have "flying s = {}" using idle(1) by (simp add: flying_def)
  moreover have "cache_wf api (cc_cache s) = cache_wf api (committed s)"
    using calculation(2) by (intro cache_wf_cong) auto
  ultimately show ?thesis using conc_invD(3) [OF inv] by auto
qed

section \<open>Every call finishes\<close>

text \<open>
  C16: The cache cannot deadlock: whenever some goroutine is inside a call, some goroutine can
  take a step.
\<close>

theorem conc_no_deadlock:
  assumes "conc_run api n s" and "in_i64 n" and "\<not> between_calls (cc_pc s t)"
  shows "\<exists>t' s'. entry_step api t' s = Some s'"
proof (cases "entry_step api t s")
  case None
  then obtain i where "cc_lock s i \<noteq> None"
    using assms(3)
    by (cases "cc_pc s t") (auto simp: entry_step_def between_calls_def Let_def
      split: if_splits option.splits prod.splits)
  then obtain t' k where "holds (cc_pc s t') = Some k"
    using conc_invD(5) [OF conc_run_inv [OF assms(1,2)]] unfolding locks_ok_def by blast
  then have "entry_step api t' s \<noteq> None"
    by (cases "cc_pc s t'") (auto simp: entry_step_def Let_def split: option.splits prod.splits)
  then show ?thesis by blast
qed blast

text \<open>
  How far a goroutine is from the end of its call. A stale load costs a retry, and the size a
  goroutine has loaded goes stale only when another one takes a slot.
\<close>

fun remaining :: "int \<Rightarrow> 'set pc \<Rightarrow> nat" where
  "remaining n Idle = 0"
| "remaining n (Done k e) = 0"
| "remaining n (Unlocking k e) = 1"
| "remaining n (Refused k) = 2"
| "remaining n (Full k) = 3"
| "remaining n (Reserved k) = 2"
| "remaining n (Won k) = 3"
| "remaining n (Loaded k sz) = (if sz = n then 4 else 6)"
| "remaining n (Reserve k) = 5"
| "remaining n (Locked k) = 7"
| "remaining n (Missed k) = 8"
| "remaining n (Reading k) = 9"

definition work :: "'set concState \<Rightarrow> nat \<times> nat" where
  "work s = (nat (ac_maxEntries (cc_cache s) - ac_size (cc_cache s)),
     \<Sum>t | cc_pc s t \<noteq> Idle. remaining (ac_size (cc_cache s)) (cc_pc s t))"

lemma remaining_sum:
  assumes "finite {t. f t \<noteq> Idle}" and "f t \<noteq> Idle" and "p \<noteq> Idle" and "remaining n p < remaining n (f t)"
  shows "(\<Sum>t' | (f(t := p)) t' \<noteq> Idle. remaining n ((f(t := p)) t')) <
    (\<Sum>t' | f t' \<noteq> Idle. remaining n (f t'))"
proof -
  have "{t'. (f(t := p)) t' \<noteq> Idle} = {t'. f t' \<noteq> Idle}" using assms(2,3) by auto
  then show ?thesis
    using assms by (auto intro!: sum_strict_mono_ex1)
qed

text \<open>
  C15: Every call finishes: each step of a goroutine decreases, lexicographically, the number of
  free slots and then the work left in the calls under way, so the compare-and-swap loop of
  reserveSlot cannot retry for ever and no schedule of the calls already begun is infinite.
\<close>

theorem conc_step_decreases:
  assumes "conc_run api n s" and "in_i64 n" and "entry_step api t s = Some s'"
  shows "(work s', work s) \<in> less_than <*lex*> less_than"
proof -
  have inv: "conc_inv api s" using assms(1,2) by (rule conc_run_inv)
  note fin = conc_invD(1) [OF inv]
  have less: "work s' \<in> {w. (w, work s) \<in> less_than <*lex*> less_than}"
    if "cc_pc s' = (cc_pc s)(t := p)" "cc_pc s t \<noteq> Idle" "p \<noteq> Idle"
      "remaining (ac_size (cc_cache s)) p < remaining (ac_size (cc_cache s)) (cc_pc s t)"
      "ac_size (cc_cache s') = ac_size (cc_cache s)"
      "ac_maxEntries (cc_cache s') = ac_maxEntries (cc_cache s)" for p
    using remaining_sum [OF fin that(2,3,4)] that by (simp add: work_def)
  from assms(3) show ?thesis
  proof (cases rule: entry_stepE)
    case (swap k)
    then have lt: "0 \<le> ac_size (cc_cache s)" "ac_size (cc_cache s) < ac_maxEntries (cc_cache s)"
      using conc_invD(7) [OF inv, of t] by auto
    then have "in_i64 (ac_size (cc_cache s) + 1)"
      using conc_invD(3) [OF inv] by (simp add: cache_wf_def in_i64_def)
    then show ?thesis using swap lt by (simp add: work_def)
  qed (use less in auto)
qed

definition table :: "'set concState \<Rightarrow> labels set" where
  "table s = dom (cache_view (cc_cache s)) \<union> {k. \<exists>t. flies (cc_pc s t) = Some k}"

text \<open>
  C8: What the concurrent cache implements. Read as the labels that are in it or hold a slot, it
  is one table with a bound: a step of a goroutine leaves this table alone, or adds to it one
  absent label while it has room (that is the compare-and-swap), as one atomic intern would.
\<close>

theorem conc_refines_table:
  assumes "conc_run api n s" and "in_i64 n" and "entry_step api t s = Some s'"
  shows "table s' = table s \<or>
    (\<exists>k. cc_pc s t = Loaded k (ac_size (cc_cache s)) \<and> k \<notin> table s \<and> table s' = insert k (table s) \<and>
      int (card (table s)) < ac_maxEntries (cc_cache s))"
proof -
  have inv: "conc_inv api s" using assms(1,2) by (rule conc_run_inv)
  note D = conc_invD [OF inv]
  have self: "pc_ok api (cc_cache s) (cc_pc s t)" by (rule D(7))
  have same: "table s' = table s"
    if "cc_pc s' = (cc_pc s)(t := p)" "flies p = flies (cc_pc s t)"
      "cache_view (cc_cache s') = cache_view (cc_cache s)" for p
  proof -
    have "flies (cc_pc s' t') = flies (cc_pc s t')" for t' using that(1,2) by simp
    then show ?thesis using that(3) by (simp add: table_def)
  qed
  from assms(3) show ?thesis
  proof (cases rule: entry_stepE)
    case (swap k)
    have "flies (cc_pc s t') \<noteq> Some k" for t'
      using locks_exclusive [OF D(5), of t k t' k] holds_flies [of "cc_pc s t'" k] swap by auto
    then have new: "k \<notin> table s" using self swap by (auto simp: table_def)
    moreover have "table s' = insert k (table s)"
    proof -
      have "flies (cc_pc s' t') = (if t' = t then Some k else flies (cc_pc s t'))" for t'
        using swap by simp
      moreover have "flies (cc_pc s t) = None" using swap by simp
      ultimately have "(\<exists>t'. flies (cc_pc s' t') = Some x) \<longleftrightarrow>
          x = k \<or> (\<exists>t'. flies (cc_pc s t') = Some x)" for x
        by (metis option.distinct(1) option.inject)
      then show ?thesis using swap by (auto simp: table_def)
    qed
    moreover have "card (table s) \<le> card (dom (cache_view (cc_cache s))) + card (flying s)"
    proof -
      have "{k. \<exists>t. flies (cc_pc s t) = Some k} = (the \<circ> flies \<circ> cc_pc s) ` flying s"
        by (force simp: flying_def image_iff)
      then show ?thesis
        unfolding table_def by (metis card_Un_le card_image_le D(2) add_left_mono le_trans)
    qed
    moreover have "ac_size (cc_cache s) < ac_maxEntries (cc_cache s)" using self swap by simp
    ultimately show ?thesis
      using swap card_cache_view [OF D(3)] by simp
  next
    case (insert k)
    have "flies (cc_pc s' t') = (if t' = t then None else flies (cc_pc s t'))" for t'
      using insert by simp
    moreover have "flies (cc_pc s t) = Some k" using insert by simp
    ultimately have "(\<exists>t'. flies (cc_pc s t') = Some x) \<longleftrightarrow>
        x = k \<or> (\<exists>t'. flies (cc_pc s' t') = Some x)" for x
      by (metis option.distinct(1) option.inject)
    moreover have "dom (cache_view (cc_cache s')) = insert k (dom (cache_view (cc_cache s)))"
      using insert view_put [OF D(3)] by simp
    ultimately show ?thesis unfolding table_def by auto
  qed (use same in auto)
qed

section \<open>A schedule\<close>

text \<open>
  Two callers on a cache of one slot: both load the size 0, the first swaps, the second retries,
  finds the cache full and gets the overflow entry.
\<close>

definition one_slot :: "keyValue list concState" where
  "one_slot = \<lparr> cc_cache = newAttrCache 1, cc_lock = (\<lambda>i. None), cc_pc = (\<lambda>t. Idle) \<rparr>"

definition label_a :: labels where "label_a = One []"
definition label_b :: labels where "label_b = Two [] []"

definition to_swap :: "event list" where
  "to_swap = [Call 0 label_a, Call 1 label_b, Step 0, Step 0, Step 0, Step 0,
     Step 1, Step 1, Step 1, Step 1]"

definition to_end :: "event list" where
  "to_end = [Step 0, Step 0, Step 0, Step 0, Step 1, Step 1, Step 1, Step 1, Step 1]"

definition both_loaded :: "keyValue list concState" where
  "both_loaded = one_slot\<lparr>cc_lock := (\<lambda>i. None)(shard_of label_a := Some 0, shard_of label_b := Some 1),
     cc_pc := (\<lambda>t. Idle)(0 := Loaded label_a 0, 1 := Loaded label_b 0)\<rparr>"

lemma shards_differ: "shard_of label_a = 5" "shard_of label_b = 0"
  by (simp_all add: label_a_def label_b_def shardIndex_def shardIndex2_def fnv32aString_def
      fnvOffset32_def attrCacheShards_def)

lemma newAttrCache_1: "ac_maxEntries (newAttrCache 1) = 1" "ac_size (newAttrCache 1) = 0"
  by (simp_all add: newAttrCache_def Let_def)

lemmas run_simps = entry_step_def between_calls_def shards_differ newAttrCache_1 goto_def

lemma to_swap_runs: "exec list_api to_swap one_slot = Some both_loaded"
  by (simp add: to_swap_def one_slot_def both_loaded_def run_simps Let_def fun_upd_twist)

lemma one_slot_run: "conc_run list_api 1 one_slot"
  unfolding one_slot_def by (rule conc_run.start)

lemma both_loaded_run: "conc_run list_api 1 both_loaded"
  by (rule exec_run [OF one_slot_run to_swap_runs])

theorem conc_never_exceeds_bound_witness:
  "ac_size (cc_cache both_loaded) \<le> 1"
  using conc_never_exceeds_bound [OF both_loaded_run] by (simp add: newAttrCache_1 in_i64_def)

theorem conc_no_deadlock_witness: "\<exists>t' s'. entry_step list_api t' both_loaded = Some s'"
  by (rule conc_no_deadlock [OF both_loaded_run, of 0])
    (simp_all add: in_i64_def between_calls_def both_loaded_def)

definition won :: "keyValue list concState" where
  "won = goto 0 (Won label_a) (both_loaded\<lparr>cc_cache := (newAttrCache 1)\<lparr>ac_size := 1\<rparr>\<rparr>)"

lemma swap_step: "entry_step list_api 0 both_loaded = Some won"
  by (simp add: won_def both_loaded_def one_slot_def run_simps wrap64_id in_i64_def)

theorem conc_step_decreases_witness:
  "(work won, work both_loaded) \<in> less_than <*lex*> less_than"
  by (rule conc_step_decreases [OF both_loaded_run _ swap_step]) (simp add: in_i64_def)

theorem conc_refines_table_witness:
  "table won = table both_loaded \<or> table won = insert label_a (table both_loaded)"
  using conc_refines_table [OF both_loaded_run _ swap_step]
  by (auto simp: in_i64_def both_loaded_def label_a_def)

definition finished :: "keyValue list concState" where
  "finished = \<lparr> cc_cache = (newAttrCache 1)\<lparr>ac_size := 1,
       ac_overflow := Some (overflow_for list_api),
       ac_shards := (ac_shards (newAttrCache 1))[5 := shard_put
         (ac_shards (newAttrCache 1) ! 5) label_a (entry_for list_api label_a)]\<rparr>,
     cc_lock = (\<lambda>i. None),
     cc_pc = (\<lambda>t. Idle)(0 := Done label_a (entry_for list_api label_a),
       1 := Done label_b (overflow_for list_api)) \<rparr>"

lemma to_end_runs: "exec list_api to_end both_loaded = Some finished"
  by (simp add: to_end_def both_loaded_def one_slot_def finished_def run_simps newAttrCache_def
      observe_def overflowEntry_def overflow_for_def entry_for_def Let_def fun_upd_twist wrap64_id
      in_i64_def fun_eq_iff)

lemma finished_run: "conc_run list_api 1 finished"
  by (rule exec_run [OF both_loaded_run to_end_runs])

theorem conc_answers_witness:
  "cache_view (cc_cache finished) label_b = Some (overflow_for list_api) \<or>
   ac_size (cc_cache finished) = 1"
  using conc_answers [OF finished_run, of 1 label_b "overflow_for list_api"]
  by (auto simp: finished_def in_i64_def newAttrCache_1)

theorem conc_quiescent_witness: "cache_wf list_api (cc_cache finished)"
  using conc_quiescent [OF finished_run]
  by (simp add: finished_def in_i64_def between_calls_def)

section \<open>Allow\<close>

text \<open>
  Allow under concurrent callers: the load of the allowed set and the store of the extended copy
  are two atomic steps, with no compare-and-swap between them.
\<close>

datatype allow_pc = Allowing "string list" | Copied "string set option" "string list" | Allowed

fun allow_step :: "'set attrCache \<Rightarrow> allow_pc \<Rightarrow> 'set attrCache \<times> allow_pc" where
  "allow_step c (Allowing labels) = (if labels = [] then (c, Allowed) else (c, Copied (ac_allowed c) labels))"
| "allow_step c (Copied prev labels) = (c\<lparr>ac_allowed := Some (allowed_next prev labels)\<rparr>, Allowed)"
| "allow_step c Allowed = (c, Allowed)"

fun allow_run :: "nat list \<Rightarrow> 'set attrCache \<times> allow_pc list \<Rightarrow> 'set attrCache \<times> allow_pc list" where
  "allow_run [] s = s"
| "allow_run (t # ts) (c, pcs) =
     (case allow_step c (pcs ! t) of (c1, p) \<Rightarrow> allow_run ts (c1, pcs[t := p]))"

lemma allowed_next_comm:
  "allowed_next (Some (allowed_next A xs)) ys = allowed_next (Some (allowed_next A ys)) xs"
  by (auto simp: allowed_next_eq)

text \<open>
  Two Allow calls that run one after the other, in either order, leave the same cache, as the
  sequential Allow says. When the two loads come before the two stores, the labels of the call
  that stores first are lost: the other one stores a copy made without them.
\<close>

theorem allow_lost_update:
  "Allow (Allow (Some c) [a]) [b] =
     Some (fst (allow_run [0, 0, 1, 1] (c, [Allowing [a], Allowing [b]]))) \<and>
   allow_run [0, 0, 1, 1] (c, [Allowing [a], Allowing [b]]) = allow_run [1, 1, 0, 0] (c, [Allowing [a], Allowing [b]]) \<and>
   allow_run [0, 1, 0, 1] (c, [Allowing [a], Allowing [b]]) =
     (the (Allow (Some c) [b]), [Allowed, Allowed])"
  by (simp add: Allow_def allowed_next_comm)

end
