(* ===== verification/Cardinality_Report.thy ===== *)
theory Cardinality_Report
  imports Attr_Cache_Props
begin

text \<open>
  The rest of cardinality.go: the periodic report with its two warnings, the snapshot served to
  the monitor, Observe, and the background goroutine behind Start and Stop. The code's detector
  and cache point at each other; here the detector is a field of the cache it is wired into, and
  the operations that follow the detector's cache pointer take the cache as an argument.
\<close>

section \<open>The report\<close>

definition utilization :: "int \<Rightarrow> int \<Rightarrow> int" where
  "utilization cacheLen maxCard = go_quot (wrap64 (cacheLen * 100)) maxCard"

definition highLine :: "cardinalityDetector \<Rightarrow> int \<Rightarrow> logLine" where
  "highLine d cacheLen =
     \<lparr> ll_level = WarnL,
       ll_fields = [(''cache_entries'', VInt cacheLen),
         (''max_cardinality'', VInt (cs_MaxCardinality (cd_cfg d))),
         (''utilization_pct'', VInt (utilization cacheLen (cs_MaxCardinality (cd_cfg d)))),
         (''warn_utilization_pct'', VInt (cs_WarnUtilizationPct (cd_cfg d))),
         (''miss_events'', VInt (cd_records d)), (''overflow_events'', VInt (cd_overflows d))],
       ll_msg = ''telemetry cardinality utilization high'' \<rparr>"

definition limitLine :: "cardinalityDetector \<Rightarrow> int \<Rightarrow> logLine" where
  "limitLine d cacheLen =
     \<lparr> ll_level = WarnL,
       ll_fields = [(''cache_entries'', VInt cacheLen),
         (''max_cardinality'', VInt (cs_MaxCardinality (cd_cfg d))),
         (''records'', VInt (cd_records d)), (''overflow_events'', VInt (cd_overflows d))],
       ll_msg = ''telemetry cardinality limit reached'' \<rparr>"

definition report ::
  "cardinalityDetector \<Rightarrow> 'set attrCache \<Rightarrow> cardinalityDetector \<times> logLine list" where
  "report d cache =
     (let cacheLen = cache_Len cache;
          maxCard = cs_MaxCardinality (cd_cfg d);
          (d1, ls) =
            (if cs_WarnUtilizationPct (cd_cfg d) > 0 \<and> maxCard > 0
             then let utilPct = utilization cacheLen maxCard
                  in if utilPct \<ge> cs_WarnUtilizationPct (cd_cfg d)
                     then (d\<lparr>cd_warned := True\<rparr>, [highLine d cacheLen])
                     else (d, [])
             else (d, []))
      in (d1, ls @ (if cacheLen \<ge> maxCard then [limitLine d1 cacheLen] else [])))"

definition Observe ::
  "cardinalityDetector option \<Rightarrow> 'set attrCache option \<Rightarrow> string \<Rightarrow> cardinalityDetector option" where
  "Observe d cache subject =
     (let overflow = (case (d, cache) of (Some d', Some c) \<Rightarrow> cache_Len c \<ge> cs_MaxCardinality (cd_cfg d')
                      | _ \<Rightarrow> False)
      in ObserveMiss d subject overflow)"

section \<open>The snapshot\<close>

record CardinalitySnapshot =
  MissEvents :: int
  OverflowEvents :: int
  DeniedEvents :: int
  snap_Subjects :: "string list"
  CacheEntries :: int
  snap_MaxCardinality :: int
  UtilizationPct :: int
  snap_WarnUtilizationPct :: int
  snap_Instruments :: int
  snap_MaxInstruments :: int
  snap_DenyUnknown :: bool

definition Snapshot ::
  "cardinalityDetector option \<Rightarrow> 'set attrCache option \<Rightarrow> int \<Rightarrow> int \<Rightarrow> CardinalitySnapshot" where
  "Snapshot d cache instruments maxInstruments =
     (let snap = \<lparr> MissEvents = 0, OverflowEvents = 0, DeniedEvents = 0, snap_Subjects = [],
                   CacheEntries = 0, snap_MaxCardinality = 0, UtilizationPct = 0,
                   snap_WarnUtilizationPct = 0, snap_Instruments = instruments,
                   snap_MaxInstruments = maxInstruments, snap_DenyUnknown = False \<rparr>
      in case d of
           None \<Rightarrow> snap
         | Some d \<Rightarrow>
             let cacheLen = (case cache of None \<Rightarrow> 0 | Some c \<Rightarrow> cache_Len c);
                 snap1 = (case cache of None \<Rightarrow> snap
                          | Some c \<Rightarrow> snap\<lparr>snap_Subjects := Subjects (Some c),
                                          snap_DenyUnknown := DenyUnknown (Some c)\<rparr>);
                 maxCard = cs_MaxCardinality (cd_cfg d);
                 util = (if maxCard > 0 then utilization cacheLen maxCard else 0);
                 snap2 = snap1\<lparr>CacheEntries := cacheLen, snap_MaxCardinality := maxCard,
                               UtilizationPct := util,
                               snap_WarnUtilizationPct := cs_WarnUtilizationPct (cd_cfg d),
                               MissEvents := cd_records d, OverflowEvents := cd_overflows d,
                               DeniedEvents := cd_denied d\<rparr>
             in if cs_DenyUnknown (cd_cfg d) then snap2\<lparr>snap_DenyUnknown := True\<rparr> else snap2)"

section \<open>The background goroutine\<close>

text \<open>
  The process as Start, Stop and run see it: the two channels (fields of the detector), how many
  run goroutines are alive, how many callers of Stop wait on doneCh, and whether a close has
  panicked. An event that cannot happen gives \<^const>\<open>None\<close>; the select of run may still take
  the ticker's case after stopCh is closed.
\<close>

record detRun =
  dr_det :: cardinalityDetector
  dr_live :: nat
  dr_waiting :: nat
  dr_panic :: bool

datatype detEvent = CallStart | CallStop | StopReturns | Tick | Leave

fun det_step :: "'set attrCache \<Rightarrow> detEvent \<Rightarrow> detRun \<Rightarrow> (detRun \<times> logLine list) option" where
  "det_step cache CallStart r =
     (if \<not> cs_Enable (cd_cfg (dr_det r)) then Some (r, [])
      else Some (r\<lparr>dr_live := dr_live r + 1\<rparr>, []))"
| "det_step cache CallStop r =
     (if \<not> cs_Enable (cd_cfg (dr_det r)) then Some (r, [])
      else if cd_stopCh (dr_det r) then Some (r\<lparr>dr_panic := True\<rparr>, [])
      else Some (r\<lparr>dr_det := (dr_det r)\<lparr>cd_stopCh := True\<rparr>, dr_waiting := dr_waiting r + 1\<rparr>, []))"
| "det_step cache StopReturns r =
     (if 0 < dr_waiting r \<and> cd_doneCh (dr_det r)
      then Some (r\<lparr>dr_waiting := dr_waiting r - 1\<rparr>, []) else None)"
| "det_step cache Tick r =
     (if 0 < dr_live r
      then (case report (dr_det r) cache of (d1, ls) \<Rightarrow> Some (r\<lparr>dr_det := d1\<rparr>, ls)) else None)"
| "det_step cache Leave r =
     (if 0 < dr_live r \<and> cd_stopCh (dr_det r)
      then if cd_doneCh (dr_det r)
           then Some (r\<lparr>dr_live := dr_live r - 1, dr_panic := True\<rparr>, [])
           else Some (r\<lparr>dr_live := dr_live r - 1, dr_det := (dr_det r)\<lparr>cd_doneCh := True\<rparr>\<rparr>, [])
      else None)"

fun det_run :: "'set attrCache \<Rightarrow> detEvent list \<Rightarrow> detRun \<Rightarrow> (detRun \<times> logLine list) option" where
  "det_run cache [] r = Some (r, [])"
| "det_run cache (e # es) r =
     (case det_step cache e r of
        None \<Rightarrow> None
      | Some (r1, ls) \<Rightarrow>
          (case det_run cache es r1 of None \<Rightarrow> None | Some (r2, ls2) \<Rightarrow> Some (r2, ls @ ls2)))"

definition fresh_run :: "cardinalitySettings \<Rightarrow> detRun" where
  "fresh_run cfg =
     \<lparr> dr_det = newCardinalityDetector cfg, dr_live = 0, dr_waiting = 0, dr_panic = False \<rparr>"

section \<open>The report warns when it should\<close>

lemma utilization_eq:
  assumes "0 \<le> n" and "n \<le> 92233720368547758" and "0 < m"
  shows "utilization n m = n * 100 div m"
  using assms by (simp add: utilization_def go_quot_nonneg in_i64_def)

text \<open>
  C28: On a cache within its bound whose capacity is at most 2 to the 63 by 100, the report writes
  the utilisation warning exactly when entries times 100 has reached the configured percentage
  of the capacity (and a percentage is configured), writes the limit warning exactly when the
  cache is full, and remembers in warned that it has warned.
\<close>

theorem report_warns:
  assumes "settings_ok (cd_cfg d)" and "0 \<le> cache_Len c" and "cache_Len c \<le> 92233720368547758"
  shows "report d c =
    (let high = (0 < cs_WarnUtilizationPct (cd_cfg d) \<and>
           cs_WarnUtilizationPct (cd_cfg d) * cs_MaxCardinality (cd_cfg d) \<le> cache_Len c * 100)
     in (if high then d\<lparr>cd_warned := True\<rparr> else d,
         (if high then [highLine d (cache_Len c)] else []) @
         (if cs_MaxCardinality (cd_cfg d) \<le> cache_Len c then [limitLine d (cache_Len c)] else [])))"
proof -
  let ?m = "cs_MaxCardinality (cd_cfg d)" and ?p = "cs_WarnUtilizationPct (cd_cfg d)"
  have pos: "0 < ?m" using assms(1) by (simp add: settings_ok_def)
  have "?p \<le> utilization (cache_Len c) ?m \<longleftrightarrow> ?p * ?m \<le> cache_Len c * 100"
    using utilization_eq [OF assms(2,3) pos] pos
    by (simp add: le_div_iff_int)
  moreover have "limitLine (d\<lparr>cd_warned := True\<rparr>) n = limitLine d n" for n
    by (simp add: limitLine_def)
  ultimately show ?thesis using pos by (simp add: report_def Let_def)
qed

theorem report_warns_witness:
  "snd (report (newCardinalityDetector \<lparr> cs_MaxCardinality = 2, cs_MaxInstruments = 1,
       cs_DiagnosticInterval = 1, cs_WarnUtilizationPct = 50, cs_Enable = True,
       cs_DenyUnknown = False \<rparr>) (newAttrCache 2 :: keyValue list attrCache)) = []"
  using report_warns [OF newCardinalityDetector_ok, of "newAttrCache 2 :: keyValue list attrCache"
      "\<lparr> cs_MaxCardinality = 2, cs_MaxInstruments = 1, cs_DiagnosticInterval = 1,
         cs_WarnUtilizationPct = 50, cs_Enable = True, cs_DenyUnknown = False \<rparr>"]
  by (simp add: cache_Len_def newAttrCache_2 newCardinalityDetector_def Let_def)

text \<open>
  The snapshot of an enabled detector and the well-formed cache it is wired into is
  consistent: as many subjects are listed as entries are counted, the utilisation lies between 0
  and 100, and the misses less the overflows are the entries.
\<close>

theorem Snapshot_consistent:
  assumes "cache_wf api c" and "balanced c" and "ac_detector c = Some d" and "cs_Enable (cd_cfg d)"
    and "cs_MaxCardinality (cd_cfg d) = ac_maxEntries c" and "ac_maxEntries c \<le> 92233720368547758"
  shows "let s = Snapshot (Some d) (Some c) i m in
    int (length (snap_Subjects s)) = CacheEntries s \<and> CacheEntries s \<le> snap_MaxCardinality s \<and>
    0 \<le> UtilizationPct s \<and> UtilizationPct s \<le> 100 \<and>
    wrap64 (MissEvents s - OverflowEvents s) = CacheEntries s"
proof -
  have size: "0 \<le> ac_size c" "ac_size c \<le> ac_maxEntries c" "0 < ac_maxEntries c"
    using cache_wf_size [OF assms(1)] assms(1) by (auto simp: cache_wf_def)
  have u: "utilization (ac_size c) (ac_maxEntries c) = ac_size c * 100 div ac_maxEntries c"
    using size assms(6) by (intro utilization_eq) auto
  have "ac_size c * 100 div ac_maxEntries c \<le> (ac_maxEntries c * 100) div ac_maxEntries c"
    using size by (intro zdiv_mono1) auto
  then have "utilization (ac_size c) (ac_maxEntries c) \<le> 100" "0 \<le> utilization (ac_size c) (ac_maxEntries c)"
    using u size by (simp_all add: pos_imp_zdiv_nonneg_iff)
  moreover have "wrap64 (cd_records d - cd_overflows d) = ac_size c"
    using assms(2,3,4) by (simp add: balanced_def)
  ultimately show ?thesis
    using size assms(3,5) length_Subjects [OF assms(1)]
    by (simp add: Snapshot_def Let_def cache_Len_def)
qed

theorem Snapshot_consistent_witness:
  "UtilizationPct (Snapshot (ac_detector watched_cache) (Some watched_cache) 3 500) \<le> 100"
  using Snapshot_consistent [OF watched_cache_ok, of "newCardinalityDetector
     \<lparr> cs_MaxCardinality = 2, cs_MaxInstruments = 1, cs_DiagnosticInterval = 1,
       cs_WarnUtilizationPct = 50, cs_Enable = True, cs_DenyUnknown = False \<rparr>" 3 500]
  by (simp add: watched_cache_def newAttrCache_2 newCardinalityDetector_def Let_def)

section \<open>The life of the goroutine\<close>

definition life_inv :: "nat \<Rightarrow> nat \<Rightarrow> detRun \<Rightarrow> bool" where
  "life_inv starts stops r \<longleftrightarrow> cs_Enable (cd_cfg (dr_det r)) \<and> \<not> dr_panic r \<and>
     dr_live r + of_bool (cd_doneCh (dr_det r)) = starts \<and>
     cd_stopCh (dr_det r) = (0 < stops) \<and> (cd_doneCh (dr_det r) \<longrightarrow> cd_stopCh (dr_det r))"

lemma report_frame: "report d c = (d1, ls) \<Longrightarrow>
    cd_cfg d1 = cd_cfg d \<and> cd_stopCh d1 = cd_stopCh d \<and> cd_doneCh d1 = cd_doneCh d"
  by (auto simp: report_def Let_def split: if_splits)

lemma life_inv_step:
  assumes "life_inv starts stops r" and "det_step c e r = Some (r1, ls)"
    and "starts + of_bool (e = CallStart) \<le> 1" and "stops + of_bool (e = CallStop) \<le> 1"
  shows "life_inv (starts + of_bool (e = CallStart)) (stops + of_bool (e = CallStop)) r1"
proof (cases e)
  case Tick
  then obtain d1 where r1: "r1 = r\<lparr>dr_det := d1\<rparr>" and rep: "report (dr_det r) c = (d1, ls)"
    using assms(2) by (auto split: if_splits prod.splits)
  show ?thesis using assms(1) Tick r1 report_frame [OF rep] by (auto simp: life_inv_def)
next
  case CallStart
  then show ?thesis using assms(1,2) by (auto simp: life_inv_def)
next
  case CallStop
  then show ?thesis using assms(1,2,4) by (auto simp: life_inv_def)
next
  case StopReturns
  then show ?thesis using assms(1,2) by (auto simp: life_inv_def split: if_splits)
next
  case Leave
  then show ?thesis
    using assms(1,2,3) by (cases "cd_doneCh (dr_det r)") (auto simp: life_inv_def split: if_splits)
qed

lemma life_inv_run:
  "life_inv starts stops r \<Longrightarrow> det_run c es r = Some (r1, ls) \<Longrightarrow>
   starts + count_list es CallStart \<le> 1 \<Longrightarrow> stops + count_list es CallStop \<le> 1 \<Longrightarrow>
   life_inv (starts + count_list es CallStart) (stops + count_list es CallStop) r1"
proof (induction es arbitrary: r starts stops ls)
  case (Cons e es)
  obtain r2 l2 l3 where st: "det_step c e r = Some (r2, l2)" and run: "det_run c es r2 = Some (r1, l3)"
    using Cons.prems(2) by (auto split: option.splits)
  have "life_inv (starts + of_bool (e = CallStart)) (stops + of_bool (e = CallStop)) r2"
    using Cons.prems(3,4) by (intro life_inv_step [OF Cons.prems(1) st]) (auto split: if_splits)
  from Cons.IH [OF this run] Cons.prems(3,4) show ?case by (auto split: if_splits)
qed simp

lemma det_run_append:
  "det_run c (es @ es') r = (case det_run c es r of None \<Rightarrow> None
     | Some (r1, ls) \<Rightarrow> (case det_run c es' r1 of None \<Rightarrow> None | Some (r2, ls2) \<Rightarrow> Some (r2, ls @ ls2)))"
  by (induction es arbitrary: r) (auto split: option.splits)

lemma no_tick:
  "det_run c es r = Some (r1, ls) \<Longrightarrow> dr_live r = 0 \<Longrightarrow> CallStart \<notin> set es \<Longrightarrow> ls = [] \<and> dr_live r1 = 0"
proof (induction es arbitrary: r ls)
  case (Cons e es)
  then show ?case by (cases e) (auto split: if_splits option.splits)
qed simp

lemma life_inv_fresh: "cs_Enable cfg \<Longrightarrow> life_inv 0 0 (fresh_run cfg)"
  by (simp add: life_inv_def fresh_run_def newCardinalityDetector_def Let_def)

text \<open>
  With one Start and one Stop, in any interleaving with the ticker, no channel is closed
  twice; when Stop returns the goroutine has ended, and no report is written afterwards.
\<close>

theorem detector_lifecycle:
  assumes "cs_Enable cfg" and "det_run c (es @ StopReturns # es') (fresh_run cfg) = Some (r, ls)"
    and "count_list (es @ es') CallStart \<le> 1" and "count_list (es @ es') CallStop \<le> 1"
  shows "\<not> dr_panic r \<and> dr_live r = 0 \<and>
    (\<exists>r0. det_run c (es @ [StopReturns]) (fresh_run cfg) = Some (r0, ls))"
proof -
  have inv: "life_inv (count_list (es @ es') CallStart) (count_list (es @ es') CallStop) r"
    using life_inv_run [OF life_inv_fresh [OF assms(1)] assms(2)] assms(3,4) by simp
  obtain r1 l1 r2 l2 where run1: "det_run c es (fresh_run cfg) = Some (r1, l1)"
    and closed: "cd_doneCh (dr_det r1)" "0 < dr_waiting r1"
    and r2: "r2 = r1\<lparr>dr_waiting := dr_waiting r1 - 1\<rparr>"
    and run2: "det_run c es' r2 = Some (r, l2)" and ls: "ls = l1 @ l2"
    using assms(2) by (auto simp: det_run_append split: option.splits if_splits)
  have inv1: "life_inv (count_list es CallStart) (count_list es CallStop) r1"
    using life_inv_run [OF life_inv_fresh [OF assms(1)] run1] assms(3,4) by simp
  then have "dr_live r1 = 0" "count_list es CallStart = 1"
    using closed assms(3) by (auto simp: life_inv_def)
  moreover from this have "CallStart \<notin> set es'"
    using assms(3) by (simp add: count_list_0_iff)
  ultimately have "l2 = []" "dr_live r = 0" using no_tick [OF run2] r2 by simp_all
  moreover have "det_run c (es @ [StopReturns]) (fresh_run cfg) = Some (r2, l1)"
    using run1 closed r2 by (simp add: det_run_append)
  ultimately show ?thesis using inv ls by (auto simp: life_inv_def)
qed

definition enabled_cfg :: cardinalitySettings where
  "enabled_cfg = \<lparr> cs_MaxCardinality = 1, cs_MaxInstruments = 1, cs_DiagnosticInterval = 1,
     cs_WarnUtilizationPct = 0, cs_Enable = True, cs_DenyUnknown = False \<rparr>"

theorem detector_lifecycle_witness:
  "case det_run (newAttrCache 1 :: keyValue list attrCache)
      ([CallStart, Tick, CallStop, Tick, Leave] @ StopReturns # []) (fresh_run enabled_cfg) of
     None \<Rightarrow> False | Some (r, ls) \<Rightarrow> \<not> dr_panic r \<and> dr_live r = 0"
proof -
  let ?run = "det_run (newAttrCache 1 :: keyValue list attrCache)
      ([CallStart, Tick, CallStop, Tick, Leave] @ StopReturns # []) (fresh_run enabled_cfg)"
  have "?run \<noteq> None"
    by (simp add: fresh_run_def enabled_cfg_def newCardinalityDetector_def report_def Let_def
        cache_Len_def newAttrCache_def)
  then obtain r ls where run: "?run = Some (r, ls)" by auto
  have "\<not> dr_panic r \<and> dr_live r = 0"
    using detector_lifecycle [OF _ run] by (simp add: enabled_cfg_def)
  with run show ?thesis by simp
qed

text \<open>
  Stop is for a started detector and for once: without a Start no Stop ever returns, and a
  second Stop closes stopCh again, which panics. A disabled detector ignores every call.
\<close>

theorem detector_misuse:
  "(cs_Enable cfg \<and> CallStart \<notin> set es \<and> StopReturns \<in> set es \<longrightarrow>
      det_run c es (fresh_run cfg) = None) \<and>
   (cs_Enable cfg \<and> det_run c (es @ CallStop # es' @ [CallStop]) (fresh_run cfg) = Some (r, ls) \<longrightarrow>
      dr_panic r) \<and>
   (\<not> cs_Enable cfg \<and> set es \<subseteq> {CallStart, CallStop} \<longrightarrow>
      det_run c es (fresh_run cfg) = Some (fresh_run cfg, []))"
proof (intro conjI impI; (elim conjE)?)
  have closed: "det_run c es r0 = None"
    if "cs_Enable (cd_cfg (dr_det r0))" "dr_live r0 = 0" "\<not> cd_doneCh (dr_det r0)"
      "CallStart \<notin> set es" "StopReturns \<in> set es" for r0 es
    using that
  proof (induction es arbitrary: r0)
    case (Cons e es)
    then show ?case by (cases e) auto
  qed simp
  assume "cs_Enable cfg" "CallStart \<notin> set es" "StopReturns \<in> set es"
  then show "det_run c es (fresh_run cfg) = None"
    by (intro closed) (simp_all add: fresh_run_def newCardinalityDetector_def Let_def)
next
  have keep: "cs_Enable (cd_cfg (dr_det r2)) = cs_Enable (cd_cfg (dr_det r1)) \<and>
      (cd_stopCh (dr_det r1) \<longrightarrow> cd_stopCh (dr_det r2))"
    if "det_run c es r1 = Some (r2, ls)" for es r1 r2 ls
    using that
  proof (induction es arbitrary: r1 ls)
    case (Cons e es)
    obtain r3 l3 l4 where st: "det_step c e r1 = Some (r3, l3)" and run: "det_run c es r3 = Some (r2, l4)"
      using Cons.prems by (auto split: option.splits)
    have "cs_Enable (cd_cfg (dr_det r3)) = cs_Enable (cd_cfg (dr_det r1)) \<and>
        (cd_stopCh (dr_det r1) \<longrightarrow> cd_stopCh (dr_det r3))"
      using st by (cases e) (auto simp: report_def Let_def split: if_splits)
    then show ?case using Cons.IH [OF run] by auto
  qed simp
  assume en: "cs_Enable cfg" and run: "det_run c (es @ CallStop # es' @ [CallStop]) (fresh_run cfg) = Some (r, ls)"
  obtain r1 l1 r2 l2 r3 l3 where 1: "det_run c es (fresh_run cfg) = Some (r1, l1)"
    and 2: "det_step c CallStop r1 = Some (r2, l2)" and 3: "det_run c es' r2 = Some (r3, l3)"
    and 4: "\<exists>l4. det_step c CallStop r3 = Some (r, l4)"
    using run by (auto simp del: det_step.simps simp add: det_run_append split: option.splits)
  have "cs_Enable (cd_cfg (dr_det r1))"
    using keep [OF 1] en by (simp add: fresh_run_def)
  moreover from this have "cs_Enable (cd_cfg (dr_det r2))" "cd_stopCh (dr_det r2)"
    using 2 by (auto split: if_splits)
  ultimately show "dr_panic r" using keep [OF 3] 4 by auto
next
  assume "\<not> cs_Enable cfg" "set es \<subseteq> {CallStart, CallStop}"
  then show "det_run c es (fresh_run cfg) = Some (fresh_run cfg, [])"
    by (induction es) (auto simp: fresh_run_def)
qed

theorem detector_misuse_witness:
  "det_run (newAttrCache 1 :: keyValue list attrCache) [CallStop, StopReturns] (fresh_run enabled_cfg) = None"
  using detector_misuse [of enabled_cfg "[CallStop, StopReturns]" "newAttrCache 1 :: keyValue list attrCache"]
  by (simp add: enabled_cfg_def)

end
