(* ===== verification/Bytesconv.thy ===== *)
theory Bytesconv
  imports Tel_Prelude
begin

text \<open>
  internal/bytesconv: the conversions between strings and byte slices that share memory. A string
  or slice is a view of a memory: where its bytes start, nil for none, and how many there are.
\<close>

definition IsEmpty :: "string \<Rightarrow> bool" where
  "IsEmpty s \<longleftrightarrow> s = []"

record bytesView =
  bv_data :: "(addr \<times> nat) option"
  bv_len :: nat

type_synonym memory = "addr \<Rightarrow> string"

definition view_bytes :: "memory \<Rightarrow> bytesView \<Rightarrow> string" where
  "view_bytes m v = (case bv_data v of None \<Rightarrow> [] | Some (a, off) \<Rightarrow> take (bv_len v) (drop off (m a)))"

text \<open>A view whose bytes exist.\<close>

definition view_ok :: "memory \<Rightarrow> bytesView \<Rightarrow> bool" where
  "view_ok m v \<longleftrightarrow> (case bv_data v of
     None \<Rightarrow> bv_len v = 0 | Some (a, off) \<Rightarrow> off + bv_len v \<le> length (m a))"

definition StringToBytes :: "bytesView \<Rightarrow> bytesView" where
  "StringToBytes s =
     (if bv_len s = 0 then \<lparr> bv_data = None, bv_len = 0 \<rparr>
      else \<lparr> bv_data = bv_data s, bv_len = bv_len s \<rparr>)"

definition BytesToString :: "bytesView \<Rightarrow> bytesView" where
  "BytesToString b =
     (if bv_len b = 0 then \<lparr> bv_data = None, bv_len = 0 \<rparr>
      else \<lparr> bv_data = bv_data b, bv_len = bv_len b \<rparr>)"

text \<open>In every memory, so also after any later write, the two sides show the same bytes.\<close>

lemma StringToBytes_shares: "view_bytes m (StringToBytes s) = view_bytes m s"
  by (simp add: StringToBytes_def view_bytes_def split: option.split)

lemma BytesToString_shares: "view_bytes m (BytesToString b) = view_bytes m b"
  by (simp add: BytesToString_def view_bytes_def split: option.split)

lemma conversions_ok:
  "view_ok m v \<Longrightarrow> view_ok m (StringToBytes v) \<and> view_ok m (BytesToString v)"
  by (auto simp: view_ok_def StringToBytes_def BytesToString_def split: option.splits)

lemma IsEmpty_view: "view_ok m v \<Longrightarrow> IsEmpty (view_bytes m v) \<longleftrightarrow> bv_len v = 0"
  by (auto simp: IsEmpty_def view_ok_def view_bytes_def split: option.splits)

end
