(* ===== verification/Instruments.thy ===== *)
theory Instruments
  imports Attr_Cache_Correct Go_Strings Bytesconv
begin

text \<open>
  The metric instruments of instruments.go: the registry that creates each instrument once under
  a limit, the fast counters, histograms and gauges that attach interned attributes to a
  measurement, their detachment by epoch, and the timer. The OpenTelemetry meter and its
  instruments are parameters: a meter is three functions that give an instrument or an error,
  and a measurement is an entry of the trace \<open>w_calls\<close>. Caches and epoch counters are shared
  through pointers, so they live in stores indexed by address; registries and instruments, whose
  own fields never change after they are built, are values. A context is passed through to the
  SDK untouched and is left out.
\<close>

section \<open>The world the instruments act on\<close>

datatype instKind = CounterKind | HistogramKind | GaugeKind

datatype ('inst, 'set) sdkCall =
    CounterAdd 'inst int "'set metricOption list"
  | HistogramRecord 'inst float64 "'set metricOption list"
  | GaugeRecord 'inst int "'set metricOption list"

record ('inst, 'set) world =
  w_caches :: "addr \<Rightarrow> 'set attrCache"
  w_epochs :: "addr \<Rightarrow> u64"
  w_calls :: "('inst, 'set) sdkCall list"
  w_logs :: "logLine list"
  w_registered :: "(instKind \<times> string \<times> bool) list"

record ('opt, 'inst) meter =
  Int64Counter :: "string \<Rightarrow> 'opt list \<Rightarrow> go_error + 'inst"
  Float64Histogram :: "string \<Rightarrow> 'opt list \<Rightarrow> go_error + 'inst"
  Int64Gauge :: "string \<Rightarrow> 'opt list \<Rightarrow> go_error + 'inst"

record ('inst, 'set) fastCounter =
  fc_counter :: 'inst
  fc_cache :: addr
  fc_epochPtr :: "addr option"
  fc_opts :: "'set metricOption list"
  fc_epoch :: u64

record ('inst, 'set) fastHistogram =
  fh_histogram :: 'inst
  fh_cache :: addr
  fh_epochPtr :: "addr option"
  fh_recordOpts :: "'set metricOption list"
  fh_epoch :: u64

record ('inst, 'set) fastGauge =
  fg_gauge :: 'inst
  fg_cache :: addr
  fg_epochPtr :: "addr option"
  fg_recordOpts :: "'set metricOption list"
  fg_epoch :: u64

record ('opt, 'inst, 'set) registry =
  rg_meter :: "('opt, 'inst) meter"
  rg_cache :: addr
  rg_epochPtr :: "addr option"
  rg_counters :: "(string \<times> ('inst, 'set) fastCounter) list"
  rg_hists :: "(string \<times> ('inst, 'set) fastHistogram) list"
  rg_gauges :: "(string \<times> ('inst, 'set) fastGauge) list"
  rg_epoch :: u64
  rg_maxInstruments :: int

section \<open>The registry\<close>

definition newRegistryWithCache ::
  "('opt, 'inst) meter \<Rightarrow> addr \<Rightarrow> addr option \<Rightarrow> u64 \<Rightarrow> int \<Rightarrow> ('opt, 'inst, 'set) registry" where
  "newRegistryWithCache m cache epochPtr epoch maxInstruments =
     (let mi = (if maxInstruments \<le> 0 then defaultMaxInstruments else maxInstruments)
      in \<lparr> rg_meter = m, rg_cache = cache, rg_epochPtr = epochPtr, rg_counters = [], rg_hists = [],
           rg_gauges = [], rg_epoch = epoch, rg_maxInstruments = mi \<rparr>)"

text \<open>newRegistry allocates its cache at the address it is given.\<close>

definition newRegistry ::
  "('opt, 'inst) meter \<Rightarrow> addr \<Rightarrow> ('inst, 'set) world
     \<Rightarrow> ('opt, 'inst, 'set) registry \<times> ('inst, 'set) world" where
  "newRegistry m p w =
     (newRegistryWithCache m p None 0 defaultMaxInstruments,
      w\<lparr>w_caches := (w_caches w)(p := newAttrCache defaultMaxCardinality)\<rparr>)"

definition Registry_AttrCache :: "('opt, 'inst, 'set) registry \<Rightarrow> addr" where
  "Registry_AttrCache r = rg_cache r"

definition instrumentCount :: "('opt, 'inst, 'set) registry \<Rightarrow> int" where
  "instrumentCount r =
     int (length (rg_counters r)) + int (length (rg_hists r)) + int (length (rg_gauges r))"

definition maxInstrumentsError :: "int \<Rightarrow> go_error" where
  "maxInstrumentsError m = ''tel: max instruments ('' @ itoa m @ '') exceeded''"

text \<open>
  The section of getOrCreate under the write lock, and the whole: both are parameterised, as the
  code is, by the lookup, the creation (which calls the meter) and the store.
\<close>

definition getOrCreate_locked ::
  "('r \<Rightarrow> int) \<Rightarrow> ('r \<Rightarrow> int) \<Rightarrow> ('r \<Rightarrow> 'f option) \<Rightarrow> ('w \<Rightarrow> (go_error + 'f) \<times> 'w) \<Rightarrow> ('f \<Rightarrow> 'r \<Rightarrow> 'r)
     \<Rightarrow> 'r \<Rightarrow> 'w \<Rightarrow> (go_error + 'f) \<times> 'r \<times> 'w" where
  "getOrCreate_locked count limit look create store reg w =
     (case look reg of
        Some existing \<Rightarrow> (Inr existing, reg, w)
      | None \<Rightarrow>
          if count reg \<ge> limit reg then (Inl (maxInstrumentsError (limit reg)), reg, w)
          else (case create w of
                  (Inl err, w1) \<Rightarrow> (Inl err, reg, w1)
                | (Inr created, w1) \<Rightarrow> (Inr created, store created reg, w1)))"

definition getOrCreate ::
  "('r \<Rightarrow> int) \<Rightarrow> ('r \<Rightarrow> int) \<Rightarrow> ('r \<Rightarrow> 'f option) \<Rightarrow> ('w \<Rightarrow> (go_error + 'f) \<times> 'w) \<Rightarrow> ('f \<Rightarrow> 'r \<Rightarrow> 'r)
     \<Rightarrow> 'r \<Rightarrow> 'w \<Rightarrow> (go_error + 'f) \<times> 'r \<times> 'w" where
  "getOrCreate count limit look create store reg w =
     (case look reg of
        Some existing \<Rightarrow> (Inr existing, reg, w)
      | None \<Rightarrow> getOrCreate_locked count limit look create store reg w)"

text \<open>The calls of the meter are recorded in \<open>w_registered\<close>, with whether they succeeded.\<close>

definition registered ::
  "instKind \<Rightarrow> string \<Rightarrow> bool \<Rightarrow> ('inst, 'set) world \<Rightarrow> ('inst, 'set) world" where
  "registered k name ok w = w\<lparr>w_registered := w_registered w @ [(k, name, ok)]\<rparr>"

definition createCounter where
  "createCounter r name opts w =
     (case Int64Counter (rg_meter r) name opts of
        Inl err \<Rightarrow> (Inl err, registered CounterKind name False w)
      | Inr counter \<Rightarrow>
          (Inr \<lparr> fc_counter = counter, fc_cache = rg_cache r, fc_epochPtr = rg_epochPtr r,
                fc_opts = [], fc_epoch = rg_epoch r \<rparr>, registered CounterKind name True w))"

definition Counter ::
  "('opt, 'inst, 'set) registry \<Rightarrow> string \<Rightarrow> 'opt list \<Rightarrow> ('inst, 'set) world
     \<Rightarrow> (go_error + ('inst, 'set) fastCounter) \<times> ('opt, 'inst, 'set) registry \<times> ('inst, 'set) world" where
  "Counter r name opts w =
     getOrCreate instrumentCount rg_maxInstruments (\<lambda>r. map_of (rg_counters r) name)
       (createCounter r name opts)
       (\<lambda>fast r. r\<lparr>rg_counters := AList.update name fast (rg_counters r)\<rparr>) r w"

definition createHistogram where
  "createHistogram r name opts w =
     (case Float64Histogram (rg_meter r) name opts of
        Inl err \<Rightarrow> (Inl err, registered HistogramKind name False w)
      | Inr histogram \<Rightarrow>
          (Inr \<lparr> fh_histogram = histogram, fh_cache = rg_cache r, fh_epochPtr = rg_epochPtr r,
                fh_recordOpts = [], fh_epoch = rg_epoch r \<rparr>, registered HistogramKind name True w))"

definition Histogram ::
  "('opt, 'inst, 'set) registry \<Rightarrow> string \<Rightarrow> 'opt list \<Rightarrow> ('inst, 'set) world
     \<Rightarrow> (go_error + ('inst, 'set) fastHistogram) \<times> ('opt, 'inst, 'set) registry \<times> ('inst, 'set) world" where
  "Histogram r name opts w =
     getOrCreate instrumentCount rg_maxInstruments (\<lambda>r. map_of (rg_hists r) name)
       (createHistogram r name opts)
       (\<lambda>fast r. r\<lparr>rg_hists := AList.update name fast (rg_hists r)\<rparr>) r w"

definition createGauge where
  "createGauge r name opts w =
     (case Int64Gauge (rg_meter r) name opts of
        Inl err \<Rightarrow> (Inl err, registered GaugeKind name False w)
      | Inr gauge \<Rightarrow>
          (Inr \<lparr> fg_gauge = gauge, fg_cache = rg_cache r, fg_epochPtr = rg_epochPtr r,
                fg_recordOpts = [], fg_epoch = rg_epoch r \<rparr>, registered GaugeKind name True w))"

definition Gauge ::
  "('opt, 'inst, 'set) registry \<Rightarrow> string \<Rightarrow> 'opt list \<Rightarrow> ('inst, 'set) world
     \<Rightarrow> (go_error + ('inst, 'set) fastGauge) \<times> ('opt, 'inst, 'set) registry \<times> ('inst, 'set) world" where
  "Gauge r name opts w =
     getOrCreate instrumentCount rg_maxInstruments (\<lambda>r. map_of (rg_gauges r) name)
       (createGauge r name opts)
       (\<lambda>fast r. r\<lparr>rg_gauges := AList.update name fast (rg_gauges r)\<rparr>) r w"

section \<open>Liveness and the SDK\<close>

definition instrumentLive :: "('inst, 'set) world \<Rightarrow> addr option \<Rightarrow> u64 \<Rightarrow> bool" where
  "instrumentLive w epochPtr epoch \<longleftrightarrow>
     (case epochPtr of None \<Rightarrow> True | Some p \<Rightarrow> w_epochs w p = epoch)"

text \<open>A call of the SDK, and what a lookup in the cache at an address leaves behind.\<close>

definition sdk :: "('inst, 'set) sdkCall \<Rightarrow> ('inst, 'set) world \<Rightarrow> ('inst, 'set) world" where
  "sdk call w = w\<lparr>w_calls := w_calls w @ [call]\<rparr>"

definition put_cache ::
  "addr \<Rightarrow> 'set attrCache \<times> logLine list \<Rightarrow> ('inst, 'set) world \<Rightarrow> ('inst, 'set) world" where
  "put_cache p r w = (case r of (c, ls) \<Rightarrow>
     w\<lparr>w_caches := (w_caches w)(p := c), w_logs := w_logs w @ ls\<rparr>)"

section \<open>Counters\<close>

definition Counter_live :: "('inst, 'set) world \<Rightarrow> ('inst, 'set) fastCounter \<Rightarrow> bool" where
  "Counter_live w c = instrumentLive w (fc_epochPtr c) (fc_epoch c)"

definition Counter_WithAttrs :: "'set attr_api \<Rightarrow> ('inst, 'set) fastCounter \<Rightarrow> 'set \<Rightarrow> ('inst, 'set) fastCounter" where
  "Counter_WithAttrs api c attrs =
     \<lparr> fc_counter = fc_counter c, fc_cache = fc_cache c, fc_epochPtr = fc_epochPtr c,
       fc_opts = attrsToAddOpts api attrs, fc_epoch = fc_epoch c \<rparr>"

definition Counter_Add ::
  "('inst, 'set) fastCounter \<Rightarrow> int \<Rightarrow> ('inst, 'set) world \<Rightarrow> ('inst, 'set) world" where
  "Counter_Add c n w =
     (if \<not> Counter_live w c then w
      else if length (fc_opts c) > 0 then sdk (CounterAdd (fc_counter c) n (fc_opts c)) w
      else sdk (CounterAdd (fc_counter c) n []) w)"

definition addWithOpts ::
  "('inst, 'set) fastCounter \<Rightarrow> int \<Rightarrow> 'set metricOption list
     \<Rightarrow> ('inst, 'set) world \<Rightarrow> ('inst, 'set) world" where
  "addWithOpts c n opts w =
     (if length (fc_opts c) = 0 then sdk (CounterAdd (fc_counter c) n opts) w
      else if length (fc_opts c) = 1 \<and> length opts = 1
      then (let combined = [fc_opts c ! 0, opts ! 0]
            in sdk (CounterAdd (fc_counter c) n combined) w)
      else (let combined = ([] @ fc_opts c) @ opts
            in sdk (CounterAdd (fc_counter c) n combined) w))"

definition Counter_AddWith ::
  "'set attr_api \<Rightarrow> ('inst, 'set) fastCounter \<Rightarrow> int \<Rightarrow> string
     \<Rightarrow> ('inst, 'set) world \<Rightarrow> ('inst, 'set) world" where
  "Counter_AddWith api c n subject w =
     (if \<not> Counter_live w c then w
      else if IsEmpty subject then Counter_Add c n w
      else (case lookup api (w_caches w (fc_cache c)) subject of
              (None, r) \<Rightarrow> put_cache (fc_cache c) r w
            | (Some e, r) \<Rightarrow> addWithOpts c n (se_addOpts e) (put_cache (fc_cache c) r w)))"

definition Counter_AddWith2 ::
  "'set attr_api \<Rightarrow> ('inst, 'set) fastCounter \<Rightarrow> int \<Rightarrow> string \<Rightarrow> string
     \<Rightarrow> ('inst, 'set) world \<Rightarrow> ('inst, 'set) world" where
  "Counter_AddWith2 api c n subject status w =
     (if \<not> Counter_live w c then w
      else if IsEmpty subject \<and> IsEmpty status then Counter_Add c n w
      else (case lookup2 api (w_caches w (fc_cache c)) subject status of
              (None, r) \<Rightarrow> put_cache (fc_cache c) r w
            | (Some e, r) \<Rightarrow> addWithOpts c n (se_addOpts e) (put_cache (fc_cache c) r w)))"

definition Counter_AddWith3 ::
  "'set attr_api \<Rightarrow> ('inst, 'set) fastCounter \<Rightarrow> int \<Rightarrow> string \<Rightarrow> string \<Rightarrow> string
     \<Rightarrow> ('inst, 'set) world \<Rightarrow> ('inst, 'set) world" where
  "Counter_AddWith3 api c n subject status consumer w =
     (if \<not> Counter_live w c then w
      else if IsEmpty subject \<and> IsEmpty status \<and> IsEmpty consumer then Counter_Add c n w
      else (case lookup3 api (w_caches w (fc_cache c)) subject status consumer of
              (None, r) \<Rightarrow> put_cache (fc_cache c) r w
            | (Some e, r) \<Rightarrow> addWithOpts c n (se_addOpts e) (put_cache (fc_cache c) r w)))"

section \<open>Histograms\<close>

definition Histogram_live :: "('inst, 'set) world \<Rightarrow> ('inst, 'set) fastHistogram \<Rightarrow> bool" where
  "Histogram_live w c = instrumentLive w (fh_epochPtr c) (fh_epoch c)"

definition Histogram_WithAttrs :: "'set attr_api \<Rightarrow> ('inst, 'set) fastHistogram \<Rightarrow> 'set \<Rightarrow> ('inst, 'set) fastHistogram" where
  "Histogram_WithAttrs api c attrs =
     \<lparr> fh_histogram = fh_histogram c, fh_cache = fh_cache c, fh_epochPtr = fh_epochPtr c,
       fh_recordOpts = attrsToRecordOpts api attrs, fh_epoch = fh_epoch c \<rparr>"

definition Histogram_Record ::
  "('inst, 'set) fastHistogram \<Rightarrow> float64 \<Rightarrow> ('inst, 'set) world \<Rightarrow> ('inst, 'set) world" where
  "Histogram_Record c value w =
     (if \<not> Histogram_live w c then w
      else if length (fh_recordOpts c) > 0 then sdk (HistogramRecord (fh_histogram c) value (fh_recordOpts c)) w
      else sdk (HistogramRecord (fh_histogram c) value []) w)"

definition hist_recordWithOpts ::
  "('inst, 'set) fastHistogram \<Rightarrow> float64 \<Rightarrow> 'set metricOption list
     \<Rightarrow> ('inst, 'set) world \<Rightarrow> ('inst, 'set) world" where
  "hist_recordWithOpts c value opts w =
     (if length (fh_recordOpts c) = 0 then sdk (HistogramRecord (fh_histogram c) value opts) w
      else if length (fh_recordOpts c) = 1 \<and> length opts = 1
      then (let combined = [fh_recordOpts c ! 0, opts ! 0]
            in sdk (HistogramRecord (fh_histogram c) value combined) w)
      else (let combined = ([] @ fh_recordOpts c) @ opts
            in sdk (HistogramRecord (fh_histogram c) value combined) w))"

definition Histogram_RecordWith ::
  "'set attr_api \<Rightarrow> ('inst, 'set) fastHistogram \<Rightarrow> float64 \<Rightarrow> string
     \<Rightarrow> ('inst, 'set) world \<Rightarrow> ('inst, 'set) world" where
  "Histogram_RecordWith api c value subject w =
     (if \<not> Histogram_live w c then w
      else if IsEmpty subject then Histogram_Record c value w
      else (case lookup api (w_caches w (fh_cache c)) subject of
              (None, r) \<Rightarrow> put_cache (fh_cache c) r w
            | (Some e, r) \<Rightarrow> hist_recordWithOpts c value (se_recordOpts e) (put_cache (fh_cache c) r w)))"

definition Histogram_RecordWith2 ::
  "'set attr_api \<Rightarrow> ('inst, 'set) fastHistogram \<Rightarrow> float64 \<Rightarrow> string \<Rightarrow> string
     \<Rightarrow> ('inst, 'set) world \<Rightarrow> ('inst, 'set) world" where
  "Histogram_RecordWith2 api c value subject status w =
     (if \<not> Histogram_live w c then w
      else if IsEmpty subject \<and> IsEmpty status then Histogram_Record c value w
      else (case lookup2 api (w_caches w (fh_cache c)) subject status of
              (None, r) \<Rightarrow> put_cache (fh_cache c) r w
            | (Some e, r) \<Rightarrow> hist_recordWithOpts c value (se_recordOpts e) (put_cache (fh_cache c) r w)))"

definition Histogram_RecordWith3 ::
  "'set attr_api \<Rightarrow> ('inst, 'set) fastHistogram \<Rightarrow> float64 \<Rightarrow> string \<Rightarrow> string \<Rightarrow> string
     \<Rightarrow> ('inst, 'set) world \<Rightarrow> ('inst, 'set) world" where
  "Histogram_RecordWith3 api c value subject status consumer w =
     (if \<not> Histogram_live w c then w
      else if IsEmpty subject \<and> IsEmpty status \<and> IsEmpty consumer then Histogram_Record c value w
      else (case lookup3 api (w_caches w (fh_cache c)) subject status consumer of
              (None, r) \<Rightarrow> put_cache (fh_cache c) r w
            | (Some e, r) \<Rightarrow> hist_recordWithOpts c value (se_recordOpts e) (put_cache (fh_cache c) r w)))"

section \<open>Gauges\<close>

definition Gauge_live :: "('inst, 'set) world \<Rightarrow> ('inst, 'set) fastGauge \<Rightarrow> bool" where
  "Gauge_live w c = instrumentLive w (fg_epochPtr c) (fg_epoch c)"

definition Gauge_WithAttrs :: "'set attr_api \<Rightarrow> ('inst, 'set) fastGauge \<Rightarrow> 'set \<Rightarrow> ('inst, 'set) fastGauge" where
  "Gauge_WithAttrs api c attrs =
     \<lparr> fg_gauge = fg_gauge c, fg_cache = fg_cache c, fg_epochPtr = fg_epochPtr c,
       fg_recordOpts = attrsToRecordOpts api attrs, fg_epoch = fg_epoch c \<rparr>"

definition Gauge_Record ::
  "('inst, 'set) fastGauge \<Rightarrow> int \<Rightarrow> ('inst, 'set) world \<Rightarrow> ('inst, 'set) world" where
  "Gauge_Record c value w =
     (if \<not> Gauge_live w c then w
      else if length (fg_recordOpts c) > 0 then sdk (GaugeRecord (fg_gauge c) value (fg_recordOpts c)) w
      else sdk (GaugeRecord (fg_gauge c) value []) w)"

definition gauge_recordWithOpts ::
  "('inst, 'set) fastGauge \<Rightarrow> int \<Rightarrow> 'set metricOption list
     \<Rightarrow> ('inst, 'set) world \<Rightarrow> ('inst, 'set) world" where
  "gauge_recordWithOpts c value opts w =
     (if length (fg_recordOpts c) = 0 then sdk (GaugeRecord (fg_gauge c) value opts) w
      else if length (fg_recordOpts c) = 1 \<and> length opts = 1
      then (let combined = [fg_recordOpts c ! 0, opts ! 0]
            in sdk (GaugeRecord (fg_gauge c) value combined) w)
      else (let combined = ([] @ fg_recordOpts c) @ opts
            in sdk (GaugeRecord (fg_gauge c) value combined) w))"

definition Gauge_RecordWith ::
  "'set attr_api \<Rightarrow> ('inst, 'set) fastGauge \<Rightarrow> int \<Rightarrow> string
     \<Rightarrow> ('inst, 'set) world \<Rightarrow> ('inst, 'set) world" where
  "Gauge_RecordWith api c value subject w =
     (if \<not> Gauge_live w c then w
      else if IsEmpty subject then Gauge_Record c value w
      else (case lookup api (w_caches w (fg_cache c)) subject of
              (None, r) \<Rightarrow> put_cache (fg_cache c) r w
            | (Some e, r) \<Rightarrow> gauge_recordWithOpts c value (se_recordOpts e) (put_cache (fg_cache c) r w)))"

definition Gauge_RecordWith2 ::
  "'set attr_api \<Rightarrow> ('inst, 'set) fastGauge \<Rightarrow> int \<Rightarrow> string \<Rightarrow> string
     \<Rightarrow> ('inst, 'set) world \<Rightarrow> ('inst, 'set) world" where
  "Gauge_RecordWith2 api c value subject status w =
     (if \<not> Gauge_live w c then w
      else if IsEmpty subject \<and> IsEmpty status then Gauge_Record c value w
      else (case lookup2 api (w_caches w (fg_cache c)) subject status of
              (None, r) \<Rightarrow> put_cache (fg_cache c) r w
            | (Some e, r) \<Rightarrow> gauge_recordWithOpts c value (se_recordOpts e) (put_cache (fg_cache c) r w)))"

definition Gauge_RecordWith3 ::
  "'set attr_api \<Rightarrow> ('inst, 'set) fastGauge \<Rightarrow> int \<Rightarrow> string \<Rightarrow> string \<Rightarrow> string
     \<Rightarrow> ('inst, 'set) world \<Rightarrow> ('inst, 'set) world" where
  "Gauge_RecordWith3 api c value subject status consumer w =
     (if \<not> Gauge_live w c then w
      else if IsEmpty subject \<and> IsEmpty status \<and> IsEmpty consumer then Gauge_Record c value w
      else (case lookup3 api (w_caches w (fg_cache c)) subject status consumer of
              (None, r) \<Rightarrow> put_cache (fg_cache c) r w
            | (Some e, r) \<Rightarrow> gauge_recordWithOpts c value (se_recordOpts e) (put_cache (fg_cache c) r w)))"

section \<open>Timers\<close>

text \<open>
  A timer on a histogram (or on nil). The clock, time.Now().UnixNano(), is the argument \<open>now\<close>
  of the operations that read it.
\<close>

record ('inst, 'set) timer =
  tm_hist :: "('inst, 'set) fastHistogram option"
  tm_start :: int

definition NewTimer :: "('inst, 'set) fastHistogram option \<Rightarrow> ('inst, 'set) timer" where
  "NewTimer hist = \<lparr> tm_hist = hist, tm_start = 0 \<rparr>"

definition Timer_Start :: "int \<Rightarrow> ('inst, 'set) timer \<Rightarrow> ('inst, 'set) timer" where
  "Timer_Start now t = t\<lparr>tm_start := now\<rparr>"

definition elapsed :: "(rat \<Rightarrow> float64) \<Rightarrow> int \<Rightarrow> ('inst, 'set) timer \<Rightarrow> float64" where
  "elapsed rnd now t =
     (if tm_start t = 0 then Fin 0
      else f_div rnd (rnd (of_int (wrap64 (now - tm_start t)))) (of_int second))"

definition timer_stop :: "(('inst, 'set) fastHistogram \<Rightarrow> ('inst, 'set) world \<Rightarrow> ('inst, 'set) world)
    \<Rightarrow> ('inst, 'set) timer \<Rightarrow> ('inst, 'set) world \<Rightarrow> ('inst, 'set) timer \<times> ('inst, 'set) world" where
  "timer_stop record t w =
     (case tm_hist t of
        None \<Rightarrow> (t, w)
      | Some h \<Rightarrow> if tm_start t = 0 then (t, w) else (t\<lparr>tm_start := 0\<rparr>, record h w))"

definition Timer_Stop where
  "Timer_Stop rnd now t w = timer_stop (\<lambda>h. Histogram_Record h (elapsed rnd now t)) t w"

definition Timer_StopWith where
  "Timer_StopWith api rnd now t subject w =
     timer_stop (\<lambda>h. Histogram_RecordWith api h (elapsed rnd now t) subject) t w"

definition Timer_StopWith2 where
  "Timer_StopWith2 api rnd now t subject status w =
     timer_stop (\<lambda>h. Histogram_RecordWith2 api h (elapsed rnd now t) subject status) t w"

definition Timer_StopWith3 where
  "Timer_StopWith3 api rnd now t subject status consumer w =
     timer_stop (\<lambda>h. Histogram_RecordWith3 api h (elapsed rnd now t) subject status consumer) t w"

end
