(* ===== verification/Instruments_Correct.thy ===== *)
theory Instruments_Correct
  imports Instruments Attr_Cache_Props
begin

text \<open>
  The registry and the fast instruments meet their contracts. \<open>once_registry\<close> is what the three
  maps of the registry have in common behind getOrCreate; \<open>fast_instrument\<close> is what counters,
  histograms and gauges have in common in front of the attribute cache. Both are interpreted on
  the code's three kinds, and the properties are their facts.
\<close>

section \<open>The interface of a map behind getOrCreate\<close>

locale once_registry =
  fixes look :: "'r \<Rightarrow> 'n \<Rightarrow> 'f option"
    and put :: "'n \<Rightarrow> 'f \<Rightarrow> 'r \<Rightarrow> 'r"
    and count :: "'r \<Rightarrow> int"
    and limit :: "'r \<Rightarrow> int"
  assumes look_put: "look (put n f r) n' = (if n' = n then Some f else look r n')"
    and count_put: "look r n = None \<Longrightarrow> count (put n f r) = count r + 1"
    and limit_put: "limit (put n f r) = limit r"
begin

abbreviation locked where
  "locked n create \<equiv> getOrCreate_locked count limit (\<lambda>r. look r n) create (put n)"

abbreviation get where
  "get n create \<equiv> getOrCreate count limit (\<lambda>r. look r n) create (put n)"

lemma get_locked: "get n create r w = locked n create r w"
  by (simp add: getOrCreate_def getOrCreate_locked_def split: option.split)

lemma locked_hit: "look r n = Some f \<Longrightarrow> locked n create r w = (Inr f, r, w)"
  by (simp add: getOrCreate_locked_def)

lemma locked_full:
  "look r n = None \<Longrightarrow> limit r \<le> count r \<Longrightarrow>
   locked n create r w = (Inl (maxInstrumentsError (limit r)), r, w)"
  by (simp add: getOrCreate_locked_def)

lemma locked_new:
  "look r n = None \<Longrightarrow> count r < limit r \<Longrightarrow> create w = (Inr f, w1) \<Longrightarrow>
   locked n create r w = (Inr f, put n f r, w1)"
  by (simp add: getOrCreate_locked_def)

lemma locked_keeps:
  "locked n create r w = (x, r1, w1) \<Longrightarrow> look r n' = Some f \<Longrightarrow> look r1 n' = Some f"
  by (auto simp: getOrCreate_locked_def look_put split: option.splits if_splits sum.splits prod.splits)

lemma locked_got: "locked n create r w = (Inr f, r1, w1) \<Longrightarrow> look r1 n = Some f"
  by (auto simp: getOrCreate_locked_def look_put split: option.splits if_splits sum.splits prod.splits)

lemma locked_bound:
  "locked n create r w = (x, r1, w1) \<Longrightarrow> count r \<le> limit r \<Longrightarrow> count r1 \<le> limit r1 \<and> limit r1 = limit r"
  by (auto simp: getOrCreate_locked_def count_put limit_put
      split: option.splits if_splits sum.splits prod.splits)

end

definition put_counter where
  "put_counter name fast r = r\<lparr>rg_counters := AList.update name fast (rg_counters r)\<rparr>"

definition put_hist where
  "put_hist name fast r = r\<lparr>rg_hists := AList.update name fast (rg_hists r)\<rparr>"

definition put_gauge where
  "put_gauge name fast r = r\<lparr>rg_gauges := AList.update name fast (rg_gauges r)\<rparr>"

lemmas put_defs = put_counter_def put_hist_def put_gauge_def

interpretation counters: once_registry "\<lambda>r. map_of (rg_counters r)" put_counter instrumentCount
  rg_maxInstruments
  by unfold_locales (auto simp: put_defs instrumentCount_def length_AList_update_new)

interpretation hists: once_registry "\<lambda>r. map_of (rg_hists r)" put_hist instrumentCount
  rg_maxInstruments
  by unfold_locales (auto simp: put_defs instrumentCount_def length_AList_update_new)

interpretation gauges: once_registry "\<lambda>r. map_of (rg_gauges r)" put_gauge instrumentCount
  rg_maxInstruments
  by unfold_locales (auto simp: put_defs instrumentCount_def length_AList_update_new)

lemma Counter_get: "Counter r name opts w = counters.get name (createCounter r name opts) r w"
  by (simp add: Counter_def put_counter_def [abs_def])

lemma Histogram_get: "Histogram r name opts w = hists.get name (createHistogram r name opts) r w"
  by (simp add: Histogram_def put_hist_def [abs_def])

lemma Gauge_get: "Gauge r name opts w = gauges.get name (createGauge r name opts) r w"
  by (simp add: Gauge_def put_gauge_def [abs_def])

section \<open>Concurrent requests\<close>

text \<open>
  The read section of getOrCreate changes nothing and the section under the write lock excludes
  every other section, so an interleaving of any number of requests is, for the registry and the
  meter, a sequence of locked sections.
\<close>

datatype 'opt request = WantCounter string "'opt list" | WantHistogram string "'opt list"
  | WantGauge string "'opt list"

fun serve_locked :: "'opt request \<Rightarrow> ('opt, 'inst, 'set) registry \<times> ('inst, 'set) world
    \<Rightarrow> ('opt, 'inst, 'set) registry \<times> ('inst, 'set) world" where
  "serve_locked (WantCounter name opts) (r, w) =
     snd (counters.locked name (createCounter r name opts) r w)"
| "serve_locked (WantHistogram name opts) (r, w) =
     snd (hists.locked name (createHistogram r name opts) r w)"
| "serve_locked (WantGauge name opts) (r, w) =
     snd (gauges.locked name (createGauge r name opts) r w)"

definition created_names :: "('inst, 'set) world \<Rightarrow> (instKind \<times> string) list" where
  "created_names w = map (\<lambda>(k, n, ok). (k, n)) (filter (\<lambda>(k, n, ok). ok) (w_registered w))"

definition registry_names :: "('opt, 'inst, 'set) registry \<Rightarrow> (instKind \<times> string) set" where
  "registry_names r = Pair CounterKind ` dom (map_of (rg_counters r)) \<union>
     Pair HistogramKind ` dom (map_of (rg_hists r)) \<union> Pair GaugeKind ` dom (map_of (rg_gauges r))"

definition registry_wf :: "('opt, 'inst, 'set) registry \<Rightarrow> ('inst, 'set) world \<Rightarrow> bool" where
  "registry_wf r w \<longleftrightarrow> distinct (created_names w) \<and> set (created_names w) = registry_names r \<and>
     int (length (created_names w)) = instrumentCount r \<and> instrumentCount r \<le> rg_maxInstruments r"

lemma created_names_registered [simp]:
  "created_names (registered k n ok w) = created_names w @ (if ok then [(k, n)] else [])"
  by (simp add: created_names_def registered_def)

lemma registry_names_put:
  "registry_names (put_counter n fc r) = insert (CounterKind, n) (registry_names r)"
  "registry_names (put_hist n fh r) = insert (HistogramKind, n) (registry_names r)"
  "registry_names (put_gauge n fg r) = insert (GaugeKind, n) (registry_names r)"
  by (auto simp: registry_names_def put_defs)

lemma registry_names_iff:
  "(CounterKind, n) \<in> registry_names r \<longleftrightarrow> map_of (rg_counters r) n \<noteq> None"
  "(HistogramKind, n) \<in> registry_names r \<longleftrightarrow> map_of (rg_hists r) n \<noteq> None"
  "(GaugeKind, n) \<in> registry_names r \<longleftrightarrow> map_of (rg_gauges r) n \<noteq> None"
  by (auto simp: registry_names_def image_iff)

lemma registry_wf_failed: "registry_wf r w \<Longrightarrow> registry_wf r (registered k n False w)"
  by (simp add: registry_wf_def)

lemma registry_wf_counter:
  assumes "registry_wf r w" and "map_of (rg_counters r) n = None" and "instrumentCount r < rg_maxInstruments r"
  shows "registry_wf (put_counter n f r) (registered CounterKind n True w)"
  using assms registry_names_iff [of n r] counters.count_put [of r n f]
  unfolding registry_wf_def registry_names_put counters.limit_put created_names_registered by simp

lemma registry_wf_hist:
  assumes "registry_wf r w" and "map_of (rg_hists r) n = None" and "instrumentCount r < rg_maxInstruments r"
  shows "registry_wf (put_hist n f r) (registered HistogramKind n True w)"
  using assms registry_names_iff [of n r] hists.count_put [of r n f]
  unfolding registry_wf_def registry_names_put hists.limit_put created_names_registered by simp

lemma registry_wf_gauge:
  assumes "registry_wf r w" and "map_of (rg_gauges r) n = None" and "instrumentCount r < rg_maxInstruments r"
  shows "registry_wf (put_gauge n f r) (registered GaugeKind n True w)"
  using assms registry_names_iff [of n r] gauges.count_put [of r n f]
  unfolding registry_wf_def registry_names_put gauges.limit_put created_names_registered by simp

lemma serve_locked_wf [inv_rules]:
  assumes "registry_wf r w" and "serve_locked q (r, w) = (r1, w1)"
  shows "registry_wf r1 w1 \<and> rg_maxInstruments r1 = rg_maxInstruments r"
proof (cases q)
  case (WantCounter name opts)
  show ?thesis
  proof (cases "fst (counters.locked name (createCounter r name opts) r w)")
    case (Inl e)
    then have "r1 = r \<and> (w1 = w \<or> (\<exists>k n. w1 = registered k n False w))"
      using assms(2) WantCounter
      by (auto simp: getOrCreate_locked_def createCounter_def split: option.splits if_splits sum.splits)
    then show ?thesis using assms(1) registry_wf_failed by auto
  next
    case (Inr fast)
    then have "r1 = r \<and> w1 = w \<or> map_of (rg_counters r) name = None \<and>
        instrumentCount r < rg_maxInstruments r \<and> r1 = put_counter name fast r \<and>
        w1 = registered CounterKind name True w"
      using assms(2) WantCounter
      by (auto simp: getOrCreate_locked_def createCounter_def split: option.splits if_splits sum.splits)
    then show ?thesis using assms(1) registry_wf_counter counters.limit_put by auto
  qed
next
  case (WantHistogram name opts)
  show ?thesis
  proof (cases "fst (hists.locked name (createHistogram r name opts) r w)")
    case (Inl e)
    then have "r1 = r \<and> (w1 = w \<or> (\<exists>k n. w1 = registered k n False w))"
      using assms(2) WantHistogram
      by (auto simp: getOrCreate_locked_def createHistogram_def split: option.splits if_splits sum.splits)
    then show ?thesis using assms(1) registry_wf_failed by auto
  next
    case (Inr fast)
    then have "r1 = r \<and> w1 = w \<or> map_of (rg_hists r) name = None \<and>
        instrumentCount r < rg_maxInstruments r \<and> r1 = put_hist name fast r \<and>
        w1 = registered HistogramKind name True w"
      using assms(2) WantHistogram
      by (auto simp: getOrCreate_locked_def createHistogram_def split: option.splits if_splits sum.splits)
    then show ?thesis using assms(1) registry_wf_hist hists.limit_put by auto
  qed
next
  case (WantGauge name opts)
  show ?thesis
  proof (cases "fst (gauges.locked name (createGauge r name opts) r w)")
    case (Inl e)
    then have "r1 = r \<and> (w1 = w \<or> (\<exists>k n. w1 = registered k n False w))"
      using assms(2) WantGauge
      by (auto simp: getOrCreate_locked_def createGauge_def split: option.splits if_splits sum.splits)
    then show ?thesis using assms(1) registry_wf_failed by auto
  next
    case (Inr fast)
    then have "r1 = r \<and> w1 = w \<or> map_of (rg_gauges r) name = None \<and>
        instrumentCount r < rg_maxInstruments r \<and> r1 = put_gauge name fast r \<and>
        w1 = registered GaugeKind name True w"
      using assms(2) WantGauge
      by (auto simp: getOrCreate_locked_def createGauge_def split: option.splits if_splits sum.splits)
    then show ?thesis using assms(1) registry_wf_gauge gauges.limit_put by auto
  qed
qed

lemma serve_all_wf:
  "registry_wf r w \<Longrightarrow> fold serve_locked qs (r, w) = (r1, w1) \<Longrightarrow>
   registry_wf r1 w1 \<and> rg_maxInstruments r1 = rg_maxInstruments r"
proof (induction qs arbitrary: r w)
  case (Cons q qs)
  obtain r2 w2 where "serve_locked q (r, w) = (r2, w2)" by fastforce
  then show ?case
    using serve_locked_wf [OF Cons.prems(1)] Cons.IH [of r2 w2] Cons.prems(2) by simp
qed simp

text \<open>
  Whatever requests for instruments arrive, in any interleaving, the meter creates each
  instrument at most once: no kind and name is created twice, the instruments created are those
  the registry holds, and there are never more than the limit.
\<close>

theorem registry_creates_once:
  assumes "created_names w = []"
    and "fold serve_locked qs (newRegistryWithCache m cache epochPtr epoch maxInstruments, w) = (r1, w1)"
  shows "distinct (created_names w1) \<and> set (created_names w1) = registry_names r1 \<and>
    int (length (created_names w1)) = instrumentCount r1 \<and>
    instrumentCount r1 \<le> (if maxInstruments \<le> 0 then 500 else maxInstruments)"
proof -
  let ?r = "newRegistryWithCache m cache epochPtr epoch maxInstruments"
  have "registry_wf ?r w"
    using assms(1) by (simp add: registry_wf_def registry_names_def newRegistryWithCache_def
        instrumentCount_def defaultMaxInstruments_def)
  from serve_all_wf [OF this assms(2)] show ?thesis
    by (simp add: registry_wf_def newRegistryWithCache_def Let_def defaultMaxInstruments_def
        split: if_splits)
qed

text \<open>A meter that accepts every instrument, and an empty world.\<close>

definition echo_meter :: "(string, instKind \<times> string) meter" where
  "echo_meter = \<lparr> Int64Counter = (\<lambda>n os. Inr (CounterKind, n)),
     Float64Histogram = (\<lambda>n os. if n = [] then Inl ''bad name'' else Inr (HistogramKind, n)),
     Int64Gauge = (\<lambda>n os. Inr (GaugeKind, n)) \<rparr>"

definition empty_world :: "int \<Rightarrow> (instKind \<times> string, keyValue list) world" where
  "empty_world n = \<lparr> w_caches = (\<lambda>p. newAttrCache n), w_epochs = (\<lambda>p. 0), w_calls = [],
     w_logs = [], w_registered = [] \<rparr>"

lemma created_names_empty [simp]: "created_names (empty_world n) = []"
  by (simp add: created_names_def empty_world_def)

theorem registry_creates_once_witness:
  "distinct (created_names (snd (fold serve_locked
     [WantCounter ''a'' [], WantHistogram [] [], WantCounter ''a'' [''o''], WantHistogram ''a'' []]
     (newRegistryWithCache echo_meter 0 None 0 1, empty_world 2))))"
  using registry_creates_once [OF created_names_empty,
      of "[WantCounter ''a'' [], WantHistogram [] [], WantCounter ''a'' [''o''], WantHistogram ''a'' []]"
      echo_meter 0 None 0 1 2]
  by (metis prod.collapse)

lemma serve_locked_keeps:
  assumes "map_of (rg_counters r) name = Some c" and "serve_locked q (r, w) = (r1, w1)"
  shows "map_of (rg_counters r1) name = Some c"
proof (cases q)
  case (WantCounter n os)
  then show ?thesis
    using assms counters.locked_keeps
    by (cases "counters.locked n (createCounter r n os) r w") auto
qed (use assms in \<open>auto simp: getOrCreate_locked_def put_defs
    split: option.splits if_splits sum.splits prod.splits\<close>)

lemma serve_all_keeps:
  "map_of (rg_counters r) name = Some c \<Longrightarrow> fold serve_locked qs (r, w) = (r1, w1) \<Longrightarrow>
   map_of (rg_counters r1) name = Some c"
proof (induction qs arbitrary: r w)
  case (Cons q qs)
  then show ?case
    using serve_locked_keeps [OF Cons.prems(1), of q w] by (cases "serve_locked q (r, w)") auto
qed simp

text \<open>
  C27: A name the registry knows gives the same instrument for ever and without a call of the
  meter, at the limit too. A new name at the limit gives the error that names the limit, and
  changes nothing.
\<close>

theorem Counter_stable_and_limited:
  "(Counter r name opts w = (Inr c, r1, w1) \<and> fold serve_locked qs (r1, w1) = (r2, w2) \<longrightarrow>
      Counter r2 name opts2 w2 = (Inr c, r2, w2)) \<and>
   (map_of (rg_counters r) name = None \<and> rg_maxInstruments r \<le> instrumentCount r \<longrightarrow>
      Counter r name opts w =
        (Inl (''tel: max instruments ('' @ itoa (rg_maxInstruments r) @ '') exceeded''), r, w))"
proof (intro conjI impI; (elim conjE)?)
  assume got: "Counter r name opts w = (Inr c, r1, w1)" and "fold serve_locked qs (r1, w1) = (r2, w2)"
  moreover have "map_of (rg_counters r1) name = Some c"
    using got counters.locked_got by (simp add: Counter_get counters.get_locked)
  ultimately have "map_of (rg_counters r2) name = Some c" by (metis serve_all_keeps)
  then show "Counter r2 name opts2 w2 = (Inr c, r2, w2)"
    by (simp add: Counter_get counters.get_locked counters.locked_hit)
next
  assume "map_of (rg_counters r) name = None" "rg_maxInstruments r \<le> instrumentCount r"
  then show "Counter r name opts w =
      (Inl (''tel: max instruments ('' @ itoa (rg_maxInstruments r) @ '') exceeded''), r, w)"
    by (simp add: Counter_get counters.get_locked counters.locked_full maxInstrumentsError_def)
qed

definition full_registry :: "(string, instKind \<times> string, keyValue list) registry" where
  "full_registry = (newRegistryWithCache echo_meter 0 None 0 1)\<lparr>rg_gauges := [(''g'',
     \<lparr> fg_gauge = (GaugeKind, ''g''), fg_cache = 0, fg_epochPtr = None, fg_recordOpts = [],
       fg_epoch = 0 \<rparr>)]\<rparr>"

theorem Counter_stable_and_limited_witness:
  "fst (Counter full_registry ''a'' [] (empty_world 2)) = Inl ''tel: max instruments (1) exceeded''"
proof -
  have "map_of (rg_counters full_registry) ''a'' = None" "instrumentCount full_registry = 1"
    "rg_maxInstruments full_registry = 1"
    by (simp_all add: full_registry_def newRegistryWithCache_def instrumentCount_def)
  moreover have "itoa 1 = ''1''" by code_simp
  ultimately show ?thesis
    using Counter_stable_and_limited [of full_registry "''a''" "[]" "empty_world 2"] by auto
qed

end
