(* ===== verification/Fast_Instruments.thy ===== *)
theory Fast_Instruments
  imports Instruments_Correct
begin

text \<open>
  Counters, histograms and gauges emit measurements in the same way. The interface
  \<open>fast_instrument\<close> says how: a stale instrument does nothing, empty labels take the plain path,
  other labels go through the attribute cache, and what a lookup gives is appended to the
  instrument's own options. The three interpretations show that each of the code's operations
  does this, with its special cases for no option and for one; what follows from it, that
  a bounded cache bounds the attribute sets an instrument can ever emit, is proved once.
\<close>

section \<open>Combining options\<close>

lemma addWithOpts_append:
  "addWithOpts c n opts w = sdk (CounterAdd (fc_counter c) n (fc_opts c @ opts)) w"
  by (cases "fc_opts c"; cases opts) (auto simp: addWithOpts_def Let_def)

lemma hist_recordWithOpts_append:
  "hist_recordWithOpts h v opts w = sdk (HistogramRecord (fh_histogram h) v (fh_recordOpts h @ opts)) w"
  by (cases "fh_recordOpts h"; cases opts) (auto simp: hist_recordWithOpts_def Let_def)

lemma gauge_recordWithOpts_append:
  "gauge_recordWithOpts g v opts w = sdk (GaugeRecord (fg_gauge g) v (fg_recordOpts g @ opts)) w"
  by (cases "fg_recordOpts g"; cases opts) (auto simp: gauge_recordWithOpts_def Let_def)

section \<open>The interface\<close>

lemma instrumentLive_cong:
  "w_epochs w = w_epochs w' \<Longrightarrow> instrumentLive w p n = instrumentLive w' p n"
  by (simp add: instrumentLive_def split: option.split)

definition all_empty :: "labels \<Rightarrow> bool" where
  "all_empty k \<longleftrightarrow> list_all IsEmpty (label_list k)"

lemma all_empty_simps [simp]:
  "all_empty (One a) = IsEmpty a" "all_empty (Two a b) = (IsEmpty a \<and> IsEmpty b)"
  "all_empty (Three a b c) = (IsEmpty a \<and> IsEmpty b \<and> IsEmpty c)"
  by (simp_all add: all_empty_def)

lemma sdk_simps [simp]:
  "w_caches (sdk call w) = w_caches w" "w_epochs (sdk call w) = w_epochs w"
  "w_calls (sdk call w) = w_calls w @ [call]" "w_logs (sdk call w) = w_logs w"
  by (simp_all add: sdk_def)

lemma put_cache_simps [simp]:
  "w_caches (put_cache p r w) = (w_caches w)(p := fst r)" "w_epochs (put_cache p r w) = w_epochs w"
  "w_calls (put_cache p r w) = w_calls w" "w_logs (put_cache p r w) = w_logs w @ snd r"
  by (simp_all add: put_cache_def split: prod.splits)

locale fast_instrument =
  fixes api :: "'set attr_api"
    and live :: "('inst, 'set) world \<Rightarrow> 'f \<Rightarrow> bool"
    and cache :: "'f \<Rightarrow> addr"
    and opts :: "'f \<Rightarrow> 'set metricOption list"
    and entry_opts :: "'set subjectEntry \<Rightarrow> 'set metricOption list"
    and mk :: "'f \<Rightarrow> 'v \<Rightarrow> 'set metricOption list \<Rightarrow> ('inst, 'set) sdkCall"
    and emit :: "'f \<Rightarrow> 'v \<Rightarrow> labels \<Rightarrow> ('inst, 'set) world \<Rightarrow> ('inst, 'set) world"
  assumes live_epochs: "w_epochs w = w_epochs w' \<Longrightarrow> live w f = live w' f"
    and entry_opts: "entry_opts (newSubjectEntry a) = [WithAttributeSet a]"
    and emit_spec: "emit f v k w =
      (if \<not> live w f then w
       else if all_empty k then sdk (mk f v (opts f)) w
       else (case lookup_labels api (w_caches w (cache f)) k of
               (None, r) \<Rightarrow> put_cache (cache f) r w
             | (Some e, r) \<Rightarrow> sdk (mk f v (opts f @ entry_opts e)) (put_cache (cache f) r w)))"
begin

lemma emit_dead: "\<not> live w f \<Longrightarrow> emit f v k w = w"
  by (simp add: emit_spec)

lemma emit_epochs [simp]: "w_epochs (emit f v k w) = w_epochs w"
  by (simp add: emit_spec split: option.splits prod.splits)

lemma emit_cache:
  "live w f \<Longrightarrow> w_caches (emit f v k w) = (w_caches w)(cache f :=
     if all_empty k then w_caches w (cache f)
     else snd (find_labels api (w_caches w (cache f)) k))"
  by (auto simp: emit_spec find_labels_def split: option.splits prod.splits)

lemma emit_calls:
  "live w f \<Longrightarrow> w_calls (emit f v k w) = w_calls w @
     (if all_empty k then [mk f v (opts f)]
      else (case fst (find_labels api (w_caches w (cache f)) k) of
              None \<Rightarrow> [] | Some e \<Rightarrow> [mk f v (opts f @ entry_opts e)]))"
  by (auto simp: emit_spec find_labels_def split: option.splits prod.splits)

text \<open>A sequence of measurements, and the option lists it may use given the cache's contents.\<close>

definition emits :: "'f \<Rightarrow> ('v \<times> labels) list \<Rightarrow> ('inst, 'set) world \<Rightarrow> ('inst, 'set) world" where
  "emits f vks w = fold (\<lambda>(v, k). emit f v k) vks w"

definition known_opts :: "'f \<Rightarrow> (labels \<Rightarrow> 'set subjectEntry option) \<Rightarrow> 'set metricOption list set" where
  "known_opts f m = insert (opts f) (insert (opts f @ entry_opts (overflow_for api))
     ((\<lambda>k. opts f @ entry_opts (entry_for api k)) ` dom m))"

lemma known_opts_card:
  assumes "finite (dom m)"
  shows "finite (known_opts f m)" and "card (known_opts f m) \<le> card (dom m) + 2"
proof -
  show "finite (known_opts f m)" using assms by (simp add: known_opts_def)
  have insert: "card (insert x A) \<le> Suc (card A)" if "finite A" for x :: "'set metricOption list" and A
    using that by (simp add: card_insert_if)
  have "card (known_opts f m) \<le> Suc (Suc (card ((\<lambda>k. opts f @ entry_opts (entry_for api k)) ` dom m)))"
    unfolding known_opts_def using assms
    using insert [of "insert (opts f @ entry_opts (overflow_for api))
        ((\<lambda>k. opts f @ entry_opts (entry_for api k)) ` dom m)" "opts f"]
      insert [of "(\<lambda>k. opts f @ entry_opts (entry_for api k)) ` dom m"
        "opts f @ entry_opts (overflow_for api)"] by simp
  also have "\<dots> \<le> card (dom m) + 2" using card_image_le [OF assms] by simp
  finally show "card (known_opts f m) \<le> card (dom m) + 2" .
qed

lemma emit_known:
  assumes wf: "cache_wf api (w_caches w (cache f))"
  shows "cache_wf api (w_caches (emit f v k w) (cache f))"
    and "ac_maxEntries (w_caches (emit f v k w) (cache f)) = ac_maxEntries (w_caches w (cache f))"
    and "known_opts f (cache_view (w_caches w (cache f))) \<subseteq>
         known_opts f (cache_view (w_caches (emit f v k w) (cache f)))"
    and "\<exists>cs. w_calls (emit f v k w) = w_calls w @ cs \<and> (\<forall>c \<in> set cs.
         \<exists>v'. \<exists>os \<in> known_opts f (cache_view (w_caches (emit f v k w) (cache f))). c = mk f v' os)"
proof -
  let ?c = "w_caches w (cache f)" and ?c' = "w_caches (emit f v k w) (cache f)"
  have c': "?c' = (if live w f \<and> \<not> all_empty k then snd (find_labels api ?c k) else ?c)"
    by (cases "live w f") (simp_all add: emit_cache emit_dead)
  show "cache_wf api ?c'"
    using c' wf cache_lookup.find_inv [OF wf] by simp
  show "ac_maxEntries ?c' = ac_maxEntries ?c"
    using c' by (auto simp: find_labels_def lookup_labels_eq intern_labels_config
        dest: noteDenied_frame split: prod.splits)
  have "dom (cache_view ?c) \<subseteq> dom (cache_view ?c')"
    using c' cache_lookup.find_keeps [OF wf] by (auto split: if_splits)
  then show "known_opts f (cache_view ?c) \<subseteq> known_opts f (cache_view ?c')"
    by (auto simp: known_opts_def)
  have "opts f @ entry_opts e \<in> known_opts f (cache_view ?c')"
    if "live w f" "\<not> all_empty k" "fst (find_labels api ?c k) = Some e" for e
  proof -
    have p: "permits_labels ?c k" using that(3) cache_lookup.find_None_iff by (metis option.distinct(1))
    have e: "e = fst (intern_labels api ?c k)" and c1: "?c' = snd (intern_labels api ?c k)"
      using that c' by (simp_all add: cache_lookup.find_permitted [OF p])
    show ?thesis
      by (rule cache_intern.intern_cases [OF wf, of k])
        (auto simp: e c1 known_opts_def)
  qed
  moreover have "opts f \<in> known_opts f (cache_view ?c')" by (simp add: known_opts_def)
  moreover have "w_calls (emit f v k w) = w_calls w \<or>
      (live w f \<and> all_empty k \<and> w_calls (emit f v k w) = w_calls w @ [mk f v (opts f)]) \<or>
      (\<exists>e. live w f \<and> \<not> all_empty k \<and> fst (find_labels api ?c k) = Some e \<and>
         w_calls (emit f v k w) = w_calls w @ [mk f v (opts f @ entry_opts e)])"
    by (cases "live w f") (auto simp: emit_calls emit_dead split: option.split)
  ultimately have "w_calls (emit f v k w) = w_calls w \<or>
      (\<exists>os \<in> known_opts f (cache_view ?c'). w_calls (emit f v k w) = w_calls w @ [mk f v os])"
    by blast
  then show "\<exists>cs. w_calls (emit f v k w) = w_calls w @ cs \<and> (\<forall>c \<in> set cs.
      \<exists>v'. \<exists>os \<in> known_opts f (cache_view ?c'). c = mk f v' os)"
    by (metis append_Nil2 empty_iff empty_set set_ConsD)
qed

lemma emits_known:
  assumes "cache_wf api (w_caches w (cache f))"
  shows "cache_wf api (w_caches (emits f vks w) (cache f)) \<and>
    ac_maxEntries (w_caches (emits f vks w) (cache f)) = ac_maxEntries (w_caches w (cache f)) \<and>
    (\<exists>cs. w_calls (emits f vks w) = w_calls w @ cs \<and> (\<forall>c \<in> set cs.
       \<exists>v. \<exists>os \<in> known_opts f (cache_view (w_caches (emits f vks w) (cache f))). c = mk f v os))"
proof (induction vks rule: rev_induct)
  case Nil
  then show ?case using assms by (simp add: emits_def)
next
  case (snoc x xs)
  obtain v k where x: "x = (v, k)" by fastforce
  have step: "emits f (xs @ [x]) w = emit f v k (emits f xs w)" by (simp add: emits_def x)
  note W = emit_known [of "emits f xs w" f v k]
  show ?case
    using snoc W unfolding step by (fastforce simp: Ball_def)
qed

lemma emits_bounded:
  assumes "cache_wf api (w_caches w (cache f))"
  shows "\<exists>cs S. w_calls (emits f vks w) = w_calls w @ cs \<and> finite S \<and>
    int (card S) \<le> ac_maxEntries (w_caches w (cache f)) + 2 \<and>
    (\<forall>c \<in> set cs. \<exists>v. \<exists>os \<in> S. c = mk f v os)"
proof -
  let ?c = "w_caches (emits f vks w) (cache f)"
  have wf: "cache_wf api ?c" and max: "ac_maxEntries ?c = ac_maxEntries (w_caches w (cache f))"
    using emits_known [OF assms] by blast+
  have fin: "finite (dom (cache_view ?c))" by (rule cache_wf_finite [OF wf])
  have "int (card (dom (cache_view ?c))) \<le> ac_maxEntries ?c"
    using card_cache_view [OF wf] cache_wf_size [OF wf] by simp
  then have "int (card (known_opts f (cache_view ?c))) \<le> ac_maxEntries (w_caches w (cache f)) + 2"
    using known_opts_card(2) [OF fin, of f] max by linarith
  then show ?thesis
    using emits_known [OF assms, of vks] known_opts_card(1) [OF fin, of f] by blast
qed

end

section \<open>The three kinds\<close>

fun counter_emit where
  "counter_emit api c n (One s) w = Counter_AddWith api c n s w"
| "counter_emit api c n (Two a b) w = Counter_AddWith2 api c n a b w"
| "counter_emit api c n (Three a b d) w = Counter_AddWith3 api c n a b d w"

fun hist_emit where
  "hist_emit api h v (One s) w = Histogram_RecordWith api h v s w"
| "hist_emit api h v (Two a b) w = Histogram_RecordWith2 api h v a b w"
| "hist_emit api h v (Three a b d) w = Histogram_RecordWith3 api h v a b d w"

fun gauge_emit where
  "gauge_emit api g v (One s) w = Gauge_RecordWith api g v s w"
| "gauge_emit api g v (Two a b) w = Gauge_RecordWith2 api g v a b w"
| "gauge_emit api g v (Three a b d) w = Gauge_RecordWith3 api g v a b d w"

lemma Counter_Add_eq:
  "Counter_Add c n w = (if Counter_live w c then sdk (CounterAdd (fc_counter c) n (fc_opts c)) w else w)"
  by (cases "fc_opts c") (simp_all add: Counter_Add_def)

lemma Histogram_Record_eq:
  "Histogram_Record h v w =
     (if Histogram_live w h then sdk (HistogramRecord (fh_histogram h) v (fh_recordOpts h)) w else w)"
  by (cases "fh_recordOpts h") (simp_all add: Histogram_Record_def)

lemma Gauge_Record_eq:
  "Gauge_Record g v w =
     (if Gauge_live w g then sdk (GaugeRecord (fg_gauge g) v (fg_recordOpts g)) w else w)"
  by (cases "fg_recordOpts g") (simp_all add: Gauge_Record_def)

interpretation fast_counter: fast_instrument api Counter_live fc_cache fc_opts se_addOpts
  "\<lambda>c. CounterAdd (fc_counter c)" "counter_emit api" for api
proof (unfold_locales, goal_cases)
  case 1 then show ?case unfolding Counter_live_def by (rule instrumentLive_cong)
next
  case 2 show ?case by (simp add: newSubjectEntry_def)
next
  case (3 f v k w)
  show ?case
    by (cases k) (simp_all add: Counter_AddWith_def Counter_AddWith2_def Counter_AddWith3_def
        Counter_Add_eq addWithOpts_append split: option.split prod.split)
qed

interpretation fast_hist: fast_instrument api Histogram_live fh_cache fh_recordOpts se_recordOpts
  "\<lambda>h. HistogramRecord (fh_histogram h)" "hist_emit api" for api
proof (unfold_locales, goal_cases)
  case 1 then show ?case unfolding Histogram_live_def by (rule instrumentLive_cong)
next
  case 2 show ?case by (simp add: newSubjectEntry_def)
next
  case (3 f v k w)
  show ?case
    by (cases k) (simp_all add: Histogram_RecordWith_def Histogram_RecordWith2_def
        Histogram_RecordWith3_def Histogram_Record_eq hist_recordWithOpts_append
        split: option.split prod.split)
qed

interpretation fast_gauge: fast_instrument api Gauge_live fg_cache fg_recordOpts se_recordOpts
  "\<lambda>g. GaugeRecord (fg_gauge g)" "gauge_emit api" for api
proof (unfold_locales, goal_cases)
  case 1 then show ?case unfolding Gauge_live_def by (rule instrumentLive_cong)
next
  case 2 show ?case by (simp add: newSubjectEntry_def)
next
  case (3 f v k w)
  show ?case
    by (cases k) (simp_all add: Gauge_RecordWith_def Gauge_RecordWith2_def
        Gauge_RecordWith3_def Gauge_Record_eq gauge_recordWithOpts_append
        split: option.split prod.split)
qed

section \<open>Properties\<close>

text \<open>
  The cardinality guard, end to end: whatever labels are given to a counter, the SDK sees at
  most the cache's bound and two more distinct attribute lists from it (the two being the plain
  one and the overflow one), each measurement reaching the SDK through that counter's instrument.
\<close>

theorem counter_cardinality_bounded:
  assumes "cache_wf api (w_caches w (fc_cache c))"
  shows "\<exists>cs S. w_calls (fold (\<lambda>(n, k). counter_emit api c n k) nks w) = w_calls w @ cs \<and> finite S \<and>
    int (card S) \<le> ac_maxEntries (w_caches w (fc_cache c)) + 2 \<and>
    (\<forall>call \<in> set cs. \<exists>n. \<exists>os \<in> S. call = CounterAdd (fc_counter c) n os)"
  using fast_counter.emits_bounded [OF assms, of nks] by (simp add: fast_counter.emits_def)

definition demo_counter :: "(instKind \<times> string, keyValue list) fastCounter" where
  "demo_counter = \<lparr> fc_counter = (CounterKind, ''n''), fc_cache = 0, fc_epochPtr = Some 7,
     fc_opts = [], fc_epoch = 0 \<rparr>"

theorem counter_cardinality_bounded_witness:
  "\<exists>S. int (card S) \<le> 4 \<and> (\<forall>call \<in> set (w_calls (fold (\<lambda>(n, k). counter_emit list_api demo_counter n k)
     [(1, One ''a''), (1, One ''b''), (2, One ''c''), (1, One ''d''), (5, Two ''a'' ''e''), (1, One [])]
     (empty_world 2))). \<exists>n. \<exists>os \<in> S. call = CounterAdd (CounterKind, ''n'') n os)"
proof -
  have wf: "cache_wf list_api (w_caches (empty_world 2) (fc_cache demo_counter))"
    by (simp add: empty_world_def cache_wf_new_small)
  have "ac_maxEntries (w_caches (empty_world 2) (fc_cache demo_counter)) = 2"
    "w_calls (empty_world 2) = []" "fc_counter demo_counter = (CounterKind, ''n'')"
    by (simp_all add: empty_world_def newAttrCache_2 demo_counter_def)
  then show ?thesis
    using counter_cardinality_bounded [OF wf, of "[(1, One ''a''), (1, One ''b''), (2, One ''c''),
        (1, One ''d''), (5, Two ''a'' ''e''), (1, One [])]"]
    by (metis (no_types, lifting) append_Nil numeral_plus_numeral semiring_norm(2) semiring_norm(6))
qed

text \<open>
  A measurement on a live instrument is one SDK call carrying the instrument's own options
  followed by those of the labels, whichever of the code's paths for none, one or many options
  it takes; for a label that deny-unknown mode refuses there is no call, and for empty labels
  the call carries the instrument's own options only.
\<close>

theorem counter_emits_one_call:
  assumes "Counter_live w c"
  shows "w_calls (counter_emit api c n k w) = w_calls w @
    (if all_empty k then [CounterAdd (fc_counter c) n (fc_opts c)]
     else case fst (find_labels api (w_caches w (fc_cache c)) k) of
            None \<Rightarrow> []
          | Some e \<Rightarrow> [CounterAdd (fc_counter c) n (fc_opts c @ se_addOpts e)])"
  by (rule fast_counter.emit_calls [OF assms])

theorem counter_emits_one_call_witness:
  "w_calls (counter_emit list_api demo_counter 3 (One []) (empty_world 2)) =
     [CounterAdd (CounterKind, ''n'') 3 []]"
proof -
  have "Counter_live (empty_world 2) demo_counter"
    by (simp add: Counter_live_def instrumentLive_def demo_counter_def empty_world_def)
  from counter_emits_one_call [OF this, of list_api 3 "One []"] show ?thesis
    by (simp add: IsEmpty_def demo_counter_def empty_world_def)
qed

text \<open>
  The same for histograms: the RecordWith family makes one SDK call, with the options
  appended, exactly when the instrument is live and its labels are not refused.
\<close>

theorem hist_emits_one_call:
  assumes "Histogram_live w h"
  shows "w_calls (hist_emit api h v k w) = w_calls w @
    (if all_empty k then [HistogramRecord (fh_histogram h) v (fh_recordOpts h)]
     else case fst (find_labels api (w_caches w (fh_cache h)) k) of
            None \<Rightarrow> []
          | Some e \<Rightarrow> [HistogramRecord (fh_histogram h) v (fh_recordOpts h @ se_recordOpts e)])"
  by (rule fast_hist.emit_calls [OF assms])

definition demo_hist :: "(instKind \<times> string, keyValue list) fastHistogram" where
  "demo_hist = \<lparr> fh_histogram = (HistogramKind, ''h''), fh_cache = 0, fh_epochPtr = Some 7,
     fh_recordOpts = [], fh_epoch = 0 \<rparr>"

theorem hist_emits_one_call_witness:
  "w_calls (hist_emit list_api demo_hist (Fin 3) (Two [] []) (empty_world 2)) =
     [HistogramRecord (HistogramKind, ''h'') (Fin 3) []]"
proof -
  have "Histogram_live (empty_world 2) demo_hist"
    by (simp add: Histogram_live_def instrumentLive_def demo_hist_def empty_world_def)
  from hist_emits_one_call [OF this, of list_api "Fin 3" "Two [] []"] show ?thesis
    by (simp add: IsEmpty_def demo_hist_def empty_world_def)
qed

text \<open>
  An instrument of an earlier epoch is inert: once the epoch counter it points at has moved
  on, its operations change neither the SDK's trace nor the cache, and no log line is written.
\<close>

theorem stale_instruments_inert:
  "(Counter_live w c \<or> Counter_Add c n w = w \<and> counter_emit api c n k w = w) \<and>
   (Histogram_live w h \<or> Histogram_Record h v w = w \<and> hist_emit api h v k w = w) \<and>
   (Gauge_live w g \<or> Gauge_Record g n w = w \<and> gauge_emit api g n k w = w)"
  by (simp add: Counter_Add_def Histogram_Record_def Gauge_Record_def fast_counter.emit_dead
      fast_hist.emit_dead fast_gauge.emit_dead)

text \<open>
  A timer measures once: Stop after Start records the elapsed time in seconds, rounded as
  float64 arithmetic rounds, exactly once, and leaves the timer stopped, so that a second Stop,
  or a Stop without a Start, records nothing.
\<close>

theorem timer_records_once:
  assumes "tm_hist t = Some h" and "m \<noteq> 0"
  shows "Timer_Stop rnd now (Timer_Start m t) w =
      (t\<lparr>tm_start := 0\<rparr>, Histogram_Record h (f_div rnd (rnd (of_int (wrap64 (now - m)))) (of_int second)) w) \<and>
    (case Timer_Stop rnd now (Timer_Start m t) w of (t1, w1) \<Rightarrow> Timer_Stop rnd now2 t1 w1 = (t1, w1)) \<and>
    Timer_Stop rnd now (NewTimer (Some h)) w = (NewTimer (Some h), w)"
  using assms
  by (auto simp: Timer_Stop_def timer_stop_def Timer_Start_def elapsed_def NewTimer_def)

theorem timer_records_once_witness:
  "snd (Timer_Stop Fin 2000000007 (Timer_Start 7 (NewTimer (Some demo_hist))) (empty_world 2)) =
     Histogram_Record demo_hist (Fin 2) (empty_world 2)"
  using timer_records_once [of "NewTimer (Some demo_hist)" demo_hist 7 Fin 2000000007 "empty_world 2"]
  by (simp add: NewTimer_def second_def in_i64_def)

end
