(* ===== verification/Log_Sampler.thy ===== *)
theory Log_Sampler
  imports Go_Strings
begin

text \<open>
  The log rate sampler of log_sampler.go. zerolog's level numbers and its ParseLevel are the
  parameters in \<open>level_api\<close>; the clock, time.Now().UnixNano(), is an argument of every operation
  that reads it. Counters and limits are uint64, so words.
\<close>

record level_api =
  DebugLevel :: int
  FatalLevel :: int
  ParseLevel :: "string \<Rightarrow> int option"

definition logSamplerTick :: int where
  "logSamplerTick = second"

definition logSamplerNumLevels :: "level_api \<Rightarrow> nat" where
  "logSamplerNumLevels la = nat (FatalLevel la - DebugLevel la + 1)"

record rateCounter =
  rc_resetAt :: int
  rc_count :: u64

record rateSampler =
  rs_globalLimit :: u64
  rs_levelLimit :: "u64 list"
  rs_global :: rateCounter
  rs_levels :: "rateCounter list"

text \<open>\<^const>\<open>None\<close> is the index -1 of a level that is not counted.\<close>

definition logSamplerIndex :: "level_api \<Rightarrow> int \<Rightarrow> nat option" where
  "logSamplerIndex la lvl =
     (if lvl < DebugLevel la \<or> lvl > FatalLevel la then None else Some (nat (lvl - DebugLevel la)))"

definition fresh_counter :: rateCounter where
  "fresh_counter = \<lparr> rc_resetAt = 0, rc_count = 0 \<rparr>"

definition NewRateSampler :: "level_api \<Rightarrow> int \<Rightarrow> (int \<times> u64) list \<Rightarrow> rateSampler" where
  "NewRateSampler la globalLimit levelLimits =
     (let sampler = \<lparr> rs_globalLimit = 0, rs_levelLimit = replicate (logSamplerNumLevels la) 0,
                     rs_global = fresh_counter,
                     rs_levels = replicate (logSamplerNumLevels la) fresh_counter \<rparr>;
          sampler1 = (if globalLimit > 0 then sampler\<lparr>rs_globalLimit := word_of_int globalLimit\<rparr>
                      else sampler)
      in fold (\<lambda>(lvl, n) s. case logSamplerIndex la lvl of
                  None \<Rightarrow> s
                | Some idx \<Rightarrow> s\<lparr>rs_levelLimit := (rs_levelLimit s)[idx := n]\<rparr>)
           levelLimits sampler1)"

text \<open>
  inc on a single goroutine, where the compare-and-swap that follows the store cannot fail; the
  interleaved version is \<open>inc_step\<close> below.
\<close>

definition inc :: "int \<Rightarrow> int \<Rightarrow> rateCounter \<Rightarrow> u64 \<times> rateCounter" where
  "inc tick now c =
     (let resetAfter = rc_resetAt c
      in if resetAfter > now then (rc_count c + 1, c\<lparr>rc_count := rc_count c + 1\<rparr>)
         else (let c1 = c\<lparr>rc_count := 1\<rparr>; newReset = wrap64 (now + tick)
               in (1, c1\<lparr>rc_resetAt := newReset\<rparr>)))"

text \<open>\<open>now1\<close> is the clock where the level is counted, \<open>now2\<close> where the total is.\<close>

definition Sample ::
  "level_api \<Rightarrow> int \<Rightarrow> int \<Rightarrow> int \<Rightarrow> rateSampler option \<Rightarrow> bool \<times> rateSampler option" where
  "Sample la lvl now1 now2 s =
     (case s of
        None \<Rightarrow> (True, None)
      | Some s \<Rightarrow>
          if lvl \<ge> FatalLevel la then (True, Some s)
          else (case logSamplerIndex la lvl of
                  None \<Rightarrow> (True, Some s)
                | Some idx \<Rightarrow>
                    let limit = rs_levelLimit s ! idx;
                        (over, s1) =
                          (if limit > 0
                           then (case inc logSamplerTick now1 (rs_levels s ! idx) of
                                   (n, c) \<Rightarrow> (n > limit, s\<lparr>rs_levels := (rs_levels s)[idx := c]\<rparr>))
                           else (False, s))
                    in if over then (False, Some s1)
                       else if rs_globalLimit s1 > 0
                       then (case inc logSamplerTick now2 (rs_global s1) of
                               (n, c) \<Rightarrow>
                                 if n > rs_globalLimit s1 then (False, Some (s1\<lparr>rs_global := c\<rparr>))
                                 else (True, Some (s1\<lparr>rs_global := c\<rparr>)))
                       else (True, Some s1)))"

definition limit_part :: "level_api \<Rightarrow> string \<Rightarrow> (int \<times> u64) list \<Rightarrow> (int \<times> u64) list" where
  "limit_part la p out =
     (let part = trim_space p
      in case cut_at CHR ''='' part of
           None \<Rightarrow> out
         | Some (k, limitStr) \<Rightarrow>
             (case ParseLevel la (trim_space k) of
                None \<Rightarrow> out
              | Some lvl \<Rightarrow>
                  (case parse_uint64 (trim_space limitStr) of
                     None \<Rightarrow> out
                   | Some n \<Rightarrow> AList.update lvl n out)))"

definition parseLevelMessageLimits :: "level_api \<Rightarrow> string \<Rightarrow> (int \<times> u64) list option" where
  "parseLevelMessageLimits la s =
     (let spec = trim_space s
      in if spec = [] then None
         else let out = fold (limit_part la) (split_on CHR '','' spec) []
              in if length out = 0 then None else Some out)"

section \<open>The counter\<close>

text \<open>The results of a sequence of increments at the given clock readings.\<close>

fun incs :: "int \<Rightarrow> int list \<Rightarrow> rateCounter \<Rightarrow> u64 list" where
  "incs tick [] c = []"
| "incs tick (n # ns) c = (case inc tick n c of (r, c1) \<Rightarrow> r # incs tick ns c1)"

lemma length_incs [simp]: "length (incs tick ns c) = length ns"
  by (induction ns arbitrary: c) (auto split: prod.split)

lemma incs_open:
  assumes "\<forall>n \<in> set ns. n < rc_resetAt c" and "unat (rc_count c) + length ns < 2 ^ 64"
  shows "length (filter (\<lambda>r. r \<le> L) (incs tick ns c)) \<le> unat L - unat (rc_count c)"
  using assms
proof (induction ns arbitrary: c)
  case (Cons n ns)
  let ?c = "c\<lparr>rc_count := rc_count c + 1\<rparr>"
  have up: "unat (rc_count c + 1) = unat (rc_count c) + 1"
    using Cons.prems(2) by (simp add: unat_plus_if_size word_size)
  have "incs tick (n # ns) c = (rc_count c + 1) # incs tick ns ?c"
    using Cons.prems(1) by (simp add: inc_def)
  moreover have "length (filter (\<lambda>r. r \<le> L) (incs tick ns ?c)) \<le> unat L - unat (rc_count ?c)"
    using Cons.prems up by (intro Cons.IH) auto
  moreover have "rc_count c + 1 \<le> L \<longleftrightarrow> unat (rc_count c) + 1 \<le> unat L"
    using up by (simp add: word_le_nat_alt)
  ultimately show ?case using up by auto
qed simp

lemma incs_second:
  assumes "\<forall>n \<in> set ns. t \<le> n \<and> n < t + tick" and "0 \<le> tick" and "in_i64 t" and "in_i64 (t + 2 * tick)"
    and "unat (rc_count c) + length ns + 1 < 2 ^ 64"
  shows "length (filter (\<lambda>r. r \<le> L) (incs tick ns c)) \<le> 2 * unat L"
proof -
  have "length (filter (\<lambda>r. r \<le> L) (incs tick ns c)) \<le> (unat L - unat (rc_count c)) + unat L"
    using assms(1,5)
  proof (induction ns arbitrary: c)
    case (Cons n ns)
    show ?case
    proof (cases "n < rc_resetAt c")
      case True
      let ?c = "c\<lparr>rc_count := rc_count c + 1\<rparr>"
      have up: "unat (rc_count c + 1) = unat (rc_count c) + 1"
        using Cons.prems(2) by (simp add: unat_plus_if_size word_size)
      have "incs tick (n # ns) c = (rc_count c + 1) # incs tick ns ?c"
        using True by (simp add: inc_def)
      moreover have "length (filter (\<lambda>r. r \<le> L) (incs tick ns ?c)) \<le> (unat L - unat (rc_count ?c)) + unat L"
        using Cons.prems up by (intro Cons.IH) auto
      moreover have "rc_count c + 1 \<le> L \<longleftrightarrow> unat (rc_count c) + 1 \<le> unat L"
        using up by (simp add: word_le_nat_alt)
      ultimately show ?thesis using up by auto
    next
      case False
      let ?c = "c\<lparr>rc_count := 1, rc_resetAt := n + tick\<rparr>"
      have "in_i64 (n + tick)"
        using Cons.prems(1) assms(2,3,4) by (intro in_i64_between [OF assms(3,4)]) auto
      then have eq: "incs tick (n # ns) c = 1 # incs tick ns ?c"
        using False by (simp add: inc_def)
      have "length (filter (\<lambda>r. r \<le> L) (incs tick ns ?c)) \<le> unat L - unat (rc_count ?c)"
        using Cons.prems by (intro incs_open) auto
      moreover have "(1 :: u64) \<le> L \<longleftrightarrow> 1 \<le> unat L" by (simp add: word_le_nat_alt)
      ultimately show ?thesis unfolding eq by auto
    qed
  qed simp
  then show ?thesis by linarith
qed

section \<open>Sequences of messages\<close>

text \<open>A message is its level and the two clock readings; \<open>samples\<close> tells which ones pass.\<close>

type_synonym message = "int \<times> int \<times> int"

fun samples :: "level_api \<Rightarrow> message list \<Rightarrow> rateSampler option \<Rightarrow> bool list" where
  "samples la [] s = []"
| "samples la ((lvl, n1, n2) # ms) s =
     (case Sample la lvl n1 n2 s of (b, s1) \<Rightarrow> b # samples la ms s1)"

definition counted :: "level_api \<Rightarrow> int \<Rightarrow> bool" where
  "counted la lvl \<longleftrightarrow> DebugLevel la \<le> lvl \<and> lvl < FatalLevel la"

definition passed :: "(message \<Rightarrow> bool) \<Rightarrow> level_api \<Rightarrow> message list \<Rightarrow> rateSampler \<Rightarrow> nat" where
  "passed P la ms s = length (filter (\<lambda>(m, b). b \<and> P m) (zip ms (samples la ms (Some s))))"

definition sampler_wf :: "level_api \<Rightarrow> rateSampler \<Rightarrow> bool" where
  "sampler_wf la s \<longleftrightarrow> length (rs_levelLimit s) = logSamplerNumLevels la \<and>
     length (rs_levels s) = logSamplerNumLevels la"

lemma index_counted:
  "counted la lvl \<Longrightarrow> logSamplerIndex la lvl = Some (nat (lvl - DebugLevel la)) \<and>
     nat (lvl - DebugLevel la) < logSamplerNumLevels la"
  by (auto simp: counted_def logSamplerIndex_def logSamplerNumLevels_def)

text \<open>
  What one call does: to a counted level it counts the level (when limited), and unless that
  drops the message it counts the total (when limited); the message passes when neither is over.
\<close>

lemma Sample_uncounted: "\<not> counted la lvl \<Longrightarrow> Sample la lvl n1 n2 (Some s) = (True, Some s)"
  by (auto simp: Sample_def counted_def logSamplerIndex_def)

lemma Sample_counted:
  assumes "counted la lvl" and "i = nat (lvl - DebugLevel la)"
  obtains (over) n c where "0 < rs_levelLimit s ! i" "inc logSamplerTick n1 (rs_levels s ! i) = (n, c)"
      "rs_levelLimit s ! i < n"
      "Sample la lvl n1 n2 (Some s) = (False, Some (s\<lparr>rs_levels := (rs_levels s)[i := c]\<rparr>))"
  | (level) n c m d where "0 < rs_levelLimit s ! i" "inc logSamplerTick n1 (rs_levels s ! i) = (n, c)"
      "n \<le> rs_levelLimit s ! i" "inc logSamplerTick n2 (rs_global s) = (m, d)"
      "Sample la lvl n1 n2 (Some s) =
        (if 0 < rs_globalLimit s
         then (m \<le> rs_globalLimit s, Some (s\<lparr>rs_levels := (rs_levels s)[i := c], rs_global := d\<rparr>))
         else (True, Some (s\<lparr>rs_levels := (rs_levels s)[i := c]\<rparr>)))"
  | (global) m d where "rs_levelLimit s ! i = 0" "inc logSamplerTick n2 (rs_global s) = (m, d)"
      "Sample la lvl n1 n2 (Some s) =
        (if 0 < rs_globalLimit s
         then (m \<le> rs_globalLimit s, Some (s\<lparr>rs_global := d\<rparr>)) else (True, Some s))"
proof -
  have low: "\<not> FatalLevel la \<le> lvl" using assms(1) by (simp add: counted_def)
  have idx: "logSamplerIndex la lvl = Some i"
    using index_counted [OF assms(1)] assms(2) by simp
  obtain n c where lev: "inc logSamplerTick n1 (rs_levels s ! i) = (n, c)" by fastforce
  obtain m d where glo: "inc logSamplerTick n2 (rs_global s) = (m, d)" by fastforce
  show thesis
  proof (cases "rs_levelLimit s ! i = 0")
    case True
    then show thesis
      using low idx glo by (intro global [OF _ glo]) (auto simp: Sample_def Let_def not_less)
  next
    case False
    then have pos: "0 < rs_levelLimit s ! i" by (simp add: word_gt_0)
    show thesis
    proof (cases "rs_levelLimit s ! i < n")
      case True
      then show thesis
        using low idx lev pos by (intro over [OF pos lev]) (simp_all add: Sample_def Let_def)
    next
      case False
      then show thesis
        using low idx lev glo pos
        by (intro level [OF pos lev _ glo]) (auto simp: Sample_def Let_def not_less)
    qed
  qed
qed

lemma Sample_Some: "\<exists>b s1. Sample la lvl n1 n2 (Some s) = (b, Some s1)"
proof (cases "counted la lvl")
  case True
  show ?thesis by (rule Sample_counted [OF True refl, of s n1 n2]) auto
qed (use Sample_uncounted in blast)

text \<open>The messages that pass are among those for which a counter was at most its limit.\<close>

lemma passed_global:
  assumes "0 < rs_globalLimit s"
  shows "\<exists>ns. set ns \<subseteq> (\<lambda>m. snd (snd m)) ` set ms \<and> length ns \<le> length ms \<and>
    passed (\<lambda>m. counted la (fst m)) la ms s =
      length (filter (\<lambda>r. r \<le> rs_globalLimit s) (incs logSamplerTick ns (rs_global s)))"
  using assms
proof (induction ms arbitrary: s)
  case Nil
  then show ?case by (simp add: passed_def)
next
  case (Cons m ms)
  obtain lvl n1 n2 where m: "m = (lvl, n1, n2)" by (cases m)
  let ?P = "\<lambda>m :: message. counted la (fst m)"
  have skip: "\<exists>ns. set ns \<subseteq> (\<lambda>m. snd (snd m)) ` set (m # ms) \<and> length ns \<le> length (m # ms) \<and>
      passed ?P la (m # ms) s =
        length (filter (\<lambda>r. r \<le> rs_globalLimit s) (incs logSamplerTick ns (rs_global s)))"
    if "Sample la lvl n1 n2 (Some s) = (b, Some s1)" "\<not> (b \<and> counted la lvl)"
      "rs_globalLimit s1 = rs_globalLimit s" "rs_global s1 = rs_global s" for b s1
  proof -
    have "passed ?P la (m # ms) s = passed ?P la ms s1"
      using that by (auto simp: passed_def m)
    moreover note eqs = that(3,4)
    obtain ns where "set ns \<subseteq> (\<lambda>m. snd (snd m)) ` set ms" "length ns \<le> length ms"
      "passed ?P la ms s1 =
         length (filter (\<lambda>r. r \<le> rs_globalLimit s) (incs logSamplerTick ns (rs_global s)))"
      using Cons.IH [of s1] Cons.prems eqs by auto
    ultimately show ?thesis by (intro exI [of _ ns]) auto
  qed
  have count: "\<exists>ns. set ns \<subseteq> (\<lambda>m. snd (snd m)) ` set (m # ms) \<and> length ns \<le> length (m # ms) \<and>
      passed ?P la (m # ms) s =
        length (filter (\<lambda>r. r \<le> rs_globalLimit s) (incs logSamplerTick ns (rs_global s)))"
    if "Sample la lvl n1 n2 (Some s) = (r \<le> rs_globalLimit s, Some s1)" "counted la lvl"
      "inc logSamplerTick n2 (rs_global s) = (r, d)"
      "rs_globalLimit s1 = rs_globalLimit s" "rs_global s1 = d" for r d s1
  proof -
    note eqs = that
    obtain ns where ns: "set ns \<subseteq> (\<lambda>m. snd (snd m)) ` set ms" "length ns \<le> length ms"
      "passed ?P la ms s1 = length (filter (\<lambda>r. r \<le> rs_globalLimit s) (incs logSamplerTick ns d))"
      using Cons.IH [of s1] Cons.prems eqs(4,5) by auto
    have "passed ?P la (m # ms) s = (if r \<le> rs_globalLimit s then 1 else 0) + passed ?P la ms s1"
      using eqs by (auto simp: passed_def m)
    then show ?thesis
      using ns eqs(3) m by (intro exI [of _ "n2 # ns"]) auto
  qed
  show ?case
  proof (cases "counted la lvl")
    case False
    then show ?thesis using skip [OF Sample_uncounted] by simp
  next
    case True
    show ?thesis
    proof (rule Sample_counted [OF True refl, of s n1 n2], goal_cases)
      case (1 n c)
      show ?case by (rule skip [OF 1(4)]) simp_all
    next
      case (2 n c r d)
      from 2(5) Cons.prems have "Sample la lvl n1 n2 (Some s) = (r \<le> rs_globalLimit s,
          Some (s\<lparr>rs_levels := (rs_levels s)[nat (lvl - DebugLevel la) := c], rs_global := d\<rparr>))"
        by simp
      then show ?case by (rule count [OF _ True 2(4)]) simp_all
    next
      case (3 r d)
      from 3(3) Cons.prems have
        "Sample la lvl n1 n2 (Some s) = (r \<le> rs_globalLimit s, Some (s\<lparr>rs_global := d\<rparr>))" by simp
      then show ?case by (rule count [OF _ True 3(2)]) simp_all
    qed
  qed
qed

lemma passed_level:
  assumes "counted la lvl" and "sampler_wf la s" and "0 < rs_levelLimit s ! nat (lvl - DebugLevel la)"
  shows "\<exists>ns. set ns \<subseteq> (\<lambda>m. fst (snd m)) ` set ms \<and> length ns \<le> length ms \<and>
    passed (\<lambda>m. fst m = lvl) la ms s \<le>
      length (filter (\<lambda>r. r \<le> rs_levelLimit s ! nat (lvl - DebugLevel la))
        (incs logSamplerTick ns (rs_levels s ! nat (lvl - DebugLevel la))))"
  using assms(2,3)
proof (induction ms arbitrary: s)
  case Nil
  then show ?case by (simp add: passed_def)
next
  case (Cons m ms)
  let ?i = "nat (lvl - DebugLevel la)" and ?P = "\<lambda>m :: message. fst m = lvl"
  obtain l n1 n2 where m: "m = (l, n1, n2)" by (cases m)
  obtain b s1 where st: "Sample la l n1 n2 (Some s) = (b, Some s1)"
    using Sample_Some by blast
  show ?case
  proof (cases "l = lvl")
    case False
    have s1: "rs_levelLimit s1 = rs_levelLimit s \<and> length (rs_levels s1) = length (rs_levels s) \<and>
        rs_levels s1 ! ?i = rs_levels s ! ?i"
    proof (cases "counted la l")
      case True
      then have "nat (l - DebugLevel la) \<noteq> ?i"
        using False assms(1) by (auto simp: counted_def)
      then show ?thesis
        using st by (rule_tac Sample_counted [OF True refl, of s n1 n2]) (auto split: if_splits)
    qed (use st Sample_uncounted in auto)
    have "passed ?P la (m # ms) s = passed ?P la ms s1"
      using False st by (simp add: passed_def m)
    moreover obtain ns where "set ns \<subseteq> (\<lambda>m. fst (snd m)) ` set ms" "length ns \<le> length ms"
      "passed ?P la ms s1 \<le> length (filter (\<lambda>r. r \<le> rs_levelLimit s ! ?i)
         (incs logSamplerTick ns (rs_levels s ! ?i)))"
      using Cons.IH [of s1] Cons.prems s1 by (auto simp: sampler_wf_def)
    ultimately show ?thesis by (intro exI [of _ ns]) auto
  next
    case True
    obtain r c where inc: "inc logSamplerTick n1 (rs_levels s ! ?i) = (r, c)" by fastforce
    have i: "?i < length (rs_levels s)"
      using Cons.prems(1) index_counted [OF assms(1)] by (simp add: sampler_wf_def)
    have s1: "rs_levelLimit s1 = rs_levelLimit s \<and> length (rs_levels s1) = length (rs_levels s) \<and>
        rs_levels s1 ! ?i = c \<and> (b \<longrightarrow> r \<le> rs_levelLimit s ! ?i)"
      using st inc i Cons.prems(2) True
      by (rule_tac Sample_counted [OF assms(1) refl, of s n1 n2]) (auto split: if_splits)
    obtain ns where ns: "set ns \<subseteq> (\<lambda>m. fst (snd m)) ` set ms" "length ns \<le> length ms"
      "passed ?P la ms s1 \<le> length (filter (\<lambda>r. r \<le> rs_levelLimit s ! ?i) (incs logSamplerTick ns c))"
      using Cons.IH [of s1] Cons.prems s1 by (auto simp: sampler_wf_def)
    have "passed ?P la (m # ms) s = of_bool b + passed ?P la ms s1"
      using True st by (simp add: passed_def m)
    then show ?thesis
      using ns s1 inc m by (intro exI [of _ "n1 # ns"]) auto
  qed
qed

section \<open>Properties of the sampler\<close>

text \<open>
  The global cap with one caller at a time: of the messages below the fatal level that arrive within any one
  second, in any order and number and whatever happened before, at most twice the configured
  messages per second pass (the second can straddle one reset of the counter), and at most the
  limit, less those already counted, while the counter's window stays open.
\<close>

theorem global_cap:
  assumes "0 < rs_globalLimit s"
    and "\<forall>m \<in> set ms. t \<le> snd (snd m) \<and> snd (snd m) < t + second"
    and "in_i64 t" and "in_i64 (t + 2 * second)"
    and "unat (rc_count (rs_global s)) + length ms + 1 < 2 ^ 64"
  shows "passed (\<lambda>m. counted la (fst m)) la ms s \<le> 2 * unat (rs_globalLimit s) \<and>
    ((\<forall>m \<in> set ms. snd (snd m) < rc_resetAt (rs_global s)) \<longrightarrow>
      passed (\<lambda>m. counted la (fst m)) la ms s \<le> unat (rs_globalLimit s) - unat (rc_count (rs_global s)))"
proof -
  obtain ns where ns: "set ns \<subseteq> (\<lambda>m. snd (snd m)) ` set ms" "length ns \<le> length ms"
    "passed (\<lambda>m. counted la (fst m)) la ms s = length (filter (\<lambda>r. r \<le> rs_globalLimit s)
       (incs logSamplerTick ns (rs_global s)))"
    using passed_global [OF assms(1)] by blast
  have "length (filter (\<lambda>r. r \<le> rs_globalLimit s) (incs logSamplerTick ns (rs_global s)))
      \<le> 2 * unat (rs_globalLimit s)"
    using ns(1,2) assms(2-5)
    by (intro incs_second [of _ t]) (auto simp: logSamplerTick_def second_def)
  moreover have "length (filter (\<lambda>r. r \<le> rs_globalLimit s) (incs logSamplerTick ns (rs_global s)))
      \<le> unat (rs_globalLimit s) - unat (rc_count (rs_global s))"
    if "\<forall>m \<in> set ms. snd (snd m) < rc_resetAt (rs_global s)"
    using ns(1,2) assms(5) that by (intro incs_open) auto
  ultimately show ?thesis using ns(3) by simp
qed

text \<open>zerolog's level numbers, with a ParseLevel of three names.\<close>

definition zerolog_like :: level_api where
  "zerolog_like = \<lparr> DebugLevel = 0, FatalLevel = 4, ParseLevel = (\<lambda>s. if s = ''debug'' then Some 0
     else if s = ''info'' then Some 1 else if s = ''warn'' then Some 2 else None) \<rparr>"

theorem global_cap_witness:
  "passed (\<lambda>m. counted zerolog_like (fst m)) zerolog_like
     [(1, 5, 5), (1, 6, 6), (0, 7, 8), (4, 9, 9), (2, 500000000, 500000000)]
     (NewRateSampler zerolog_like 2 []) \<le> 4"
  using global_cap [of "NewRateSampler zerolog_like 2 []"
      "[(1, 5, 5), (1, 6, 6), (0, 7, 8), (4, 9, 9), (2, 500000000, 500000000)]" 5 zerolog_like]
  by (simp add: NewRateSampler_def Let_def fresh_counter_def second_def in_i64_def)

text \<open>
  C20: A nil sampler, a fatal or higher level and a level below debug always pass and leave the
  counters alone; with neither limit configured everything passes.
\<close>

theorem never_dropped:
  "Sample la lvl n1 n2 None = (True, None) \<and>
   (FatalLevel la \<le> lvl \<or> lvl < DebugLevel la \<longrightarrow> Sample la lvl n1 n2 (Some s) = (True, Some s)) \<and>
   fst (Sample la lvl n1 n2 (Some (NewRateSampler la 0 [])))"
proof (intro conjI impI)
  show "FatalLevel la \<le> lvl \<or> lvl < DebugLevel la \<Longrightarrow> Sample la lvl n1 n2 (Some s) = (True, Some s)"
    by (rule Sample_uncounted) (auto simp: counted_def)
  show "fst (Sample la lvl n1 n2 (Some (NewRateSampler la 0 [])))"
  proof (cases "counted la lvl")
    case True
    then show ?thesis
      using index_counted [OF True]
      by (auto simp: Sample_def NewRateSampler_def Let_def)
  qed (simp add: Sample_uncounted)
qed (simp_all add: Sample_def)

theorem never_dropped_witness:
  "Sample zerolog_like 5 0 0 (Some (NewRateSampler zerolog_like 1 [(0, 1)])) =
     (True, Some (NewRateSampler zerolog_like 1 [(0, 1)]))"
  using never_dropped [of zerolog_like 5 0 0 "NewRateSampler zerolog_like 1 [(0, 1)]"]
  by (simp add: zerolog_like_def)

text \<open>
  A per-level cap holds in the same way: of the messages of one level within any one second
  at most twice that level's limit pass, whatever the other levels do.
\<close>

theorem level_cap:
  assumes "counted la lvl" and "sampler_wf la s" and "0 < rs_levelLimit s ! nat (lvl - DebugLevel la)"
    and "\<forall>m \<in> set ms. t \<le> fst (snd m) \<and> fst (snd m) < t + second"
    and "in_i64 t" and "in_i64 (t + 2 * second)"
    and "unat (rc_count (rs_levels s ! nat (lvl - DebugLevel la))) + length ms + 1 < 2 ^ 64"
  shows "passed (\<lambda>m. fst m = lvl) la ms s \<le> 2 * unat (rs_levelLimit s ! nat (lvl - DebugLevel la))"
proof -
  let ?i = "nat (lvl - DebugLevel la)"
  obtain ns where ns: "set ns \<subseteq> (\<lambda>m. fst (snd m)) ` set ms" "length ns \<le> length ms"
    "passed (\<lambda>m. fst m = lvl) la ms s \<le> length (filter (\<lambda>r. r \<le> rs_levelLimit s ! ?i)
       (incs logSamplerTick ns (rs_levels s ! ?i)))"
    using passed_level [OF assms(1,2,3)] by blast
  have "length (filter (\<lambda>r. r \<le> rs_levelLimit s ! ?i) (incs logSamplerTick ns (rs_levels s ! ?i)))
      \<le> 2 * unat (rs_levelLimit s ! ?i)"
    using ns(1,2) assms(4-7)
    by (intro incs_second [of _ t]) (auto simp: logSamplerTick_def second_def)
  then show ?thesis using ns(3) by linarith
qed

definition debug_sampler :: rateSampler where
  "debug_sampler = NewRateSampler zerolog_like 0 [(0, 2)]"

lemma debug_sampler_eq:
  "debug_sampler = \<lparr> rs_globalLimit = 0, rs_levelLimit = [2, 0, 0, 0, 0],
     rs_global = fresh_counter, rs_levels = replicate 5 fresh_counter \<rparr>"
  by (simp add: debug_sampler_def NewRateSampler_def zerolog_like_def logSamplerNumLevels_def
      logSamplerIndex_def Let_def numeral_eq_Suc)

theorem level_cap_witness:
  "passed (\<lambda>m. fst m = 0) zerolog_like [(0, 5, 5), (1, 6, 6), (0, 7, 8), (0, 9, 9)] debug_sampler \<le> 4"
  using level_cap [of zerolog_like 0 debug_sampler "[(0, 5, 5), (1, 6, 6), (0, 7, 8), (0, 9, 9)]" 5]
  by (simp add: debug_sampler_eq zerolog_like_def counted_def sampler_wf_def logSamplerNumLevels_def
      second_def in_i64_def fresh_counter_def)

section \<open>Concurrent increments\<close>

text \<open>
  inc as the atomic steps of one goroutine: the clock and the load of resetAt, then either the
  Add, or the Store of 1 followed by the compare-and-swap, and the Add when that fails.
\<close>

datatype inc_pc = IncStart int | IncLoaded int int | IncStored int int | IncLost | IncDone u64

fun inc_step :: "int \<Rightarrow> rateCounter \<Rightarrow> inc_pc \<Rightarrow> rateCounter \<times> inc_pc" where
  "inc_step tick c (IncStart now) = (c, IncLoaded now (rc_resetAt c))"
| "inc_step tick c (IncLoaded now resetAfter) =
     (if resetAfter > now then (c\<lparr>rc_count := rc_count c + 1\<rparr>, IncDone (rc_count c + 1))
      else (c\<lparr>rc_count := 1\<rparr>, IncStored now resetAfter))"
| "inc_step tick c (IncStored now resetAfter) =
     (if rc_resetAt c = resetAfter then (c\<lparr>rc_resetAt := wrap64 (now + tick)\<rparr>, IncDone 1)
      else (c, IncLost))"
| "inc_step tick c IncLost = (c\<lparr>rc_count := rc_count c + 1\<rparr>, IncDone (rc_count c + 1))"
| "inc_step tick c (IncDone n) = (c, IncDone n)"

fun inc_steps :: "nat \<Rightarrow> int \<Rightarrow> rateCounter \<Rightarrow> inc_pc \<Rightarrow> rateCounter \<times> inc_pc" where
  "inc_steps 0 tick c p = (c, p)"
| "inc_steps (Suc n) tick c p = (case inc_step tick c p of (c1, p1) \<Rightarrow> inc_steps n tick c1 p1)"

text \<open>
  Alone, the steps of inc are the sequential inc. A goroutine that loaded resetAt before
  another one opened a new window, though, stores 1 over the count of that window, fails its
  compare-and-swap and counts itself as the second: however many messages had been counted, the
  count is 2 again in the same open window, so more than the limit can pass in it.
\<close>

theorem inc_race:
  "(\<exists>r c1. inc tick now c = (r, c1) \<and> inc_steps 4 tick c (IncStart now) = (c1, IncDone r)) \<and>
   (rc_resetAt c1 \<noteq> old \<and> old \<le> now \<longrightarrow>
      inc_steps 3 tick c1 (IncLoaded now old) = (c1\<lparr>rc_count := 2\<rparr>, IncDone 2))"
  by (auto simp: inc_def Let_def numeral_eq_Suc)

theorem inc_race_witness:
  "inc_steps 3 second \<lparr> rc_resetAt = 1000000005, rc_count = 50 \<rparr> (IncLoaded 5 0) =
     (\<lparr> rc_resetAt = 1000000005, rc_count = 2 \<rparr>, IncDone 2)"
  using inc_race [of second 5 fresh_counter "\<lparr> rc_resetAt = 1000000005, rc_count = 50 \<rparr>" 0]
  by simp

section \<open>Parsing the per-level limits\<close>

text \<open>The format the configuration documents: name=limit, separated by commas.\<close>

definition limit_text :: "string \<times> nat \<Rightarrow> string" where
  "limit_text x = fst x @ CHR ''='' # show_nat (snd x)"

definition limits_text :: "(string \<times> nat) list \<Rightarrow> string" where
  "limits_text xs = join_with CHR '','' (map limit_text xs)"

definition level_name :: "level_api \<Rightarrow> string \<Rightarrow> bool" where
  "level_name la k \<longleftrightarrow> k \<noteq> [] \<and> list_all visible k \<and> CHR '','' \<notin> set k \<and> CHR ''='' \<notin> set k \<and>
     ParseLevel la k \<noteq> None"

lemma digit_visible: "is_digit c \<Longrightarrow> visible c \<and> c \<noteq> CHR '','' \<and> c \<noteq> CHR ''=''"
  by (auto simp: is_digit_def visible_def byte_def)

lemma show_nat_trim: "trim_space (show_nat n) = show_nat n"
  using digit_visible show_nat_visible [of _ n] by (intro trim_space_visible) simp

lemma level_name_trim: "level_name la k \<Longrightarrow> trim_space k = k"
  by (intro trim_space_visible) (simp add: level_name_def list_all_iff)

lemma limit_text_ends:
  assumes "level_name la k"
  shows "visible (hd (limit_text (k, n))) \<and> visible (last (limit_text (k, n)))"
proof -
  have "last (limit_text (k, n)) \<in> set (show_nat n)" by (simp add: limit_text_def)
  moreover have "hd (limit_text (k, n)) \<in> set k" using assms by (simp add: limit_text_def level_name_def)
  ultimately show ?thesis
    using assms digit_visible show_nat_visible by (auto simp: level_name_def list_all_iff)
qed

lemma limit_part_text:
  assumes "level_name la k" and "n < 2 ^ 64"
  shows "limit_part la (limit_text (k, n)) out =
    AList.update (the (ParseLevel la k)) (word_of_nat n) out"
proof -
  have "trim_space (limit_text (k, n)) = limit_text (k, n)"
    using limit_text_ends [OF assms(1)] by (intro trim_space_visible) blast
  moreover have "cut_at CHR ''='' (limit_text (k, n)) = Some (k, show_nat n)"
    using assms(1) by (simp add: cut_at_Some limit_text_def level_name_def)
  moreover obtain l where "ParseLevel la k = Some l" using assms(1) by (auto simp: level_name_def)
  ultimately show ?thesis
    using assms by (simp add: limit_part_def level_name_trim show_nat_trim parse_uint64_show)
qed

lemma limits_text_ends:
  "xs \<noteq> [] \<Longrightarrow> \<forall>x \<in> set xs. level_name la (fst x) \<Longrightarrow>
   limits_text xs \<noteq> [] \<and> visible (hd (limits_text xs)) \<and> visible (last (limits_text xs))"
proof (induction xs rule: list_nonempty_induct)
  case (single x)
  then show ?case
    using limit_text_ends [of la "fst x" "snd x"] by (simp add: limits_text_def limit_text_def)
next
  case (cons x xs)
  then obtain y ys where "xs = y # ys" by (cases xs) auto
  then have "limits_text (x # xs) = limit_text x @ CHR '','' # limits_text xs"
    by (simp add: limits_text_def)
  moreover have "limit_text x \<noteq> []" by (simp add: limit_text_def)
  ultimately show ?case
    using cons limit_text_ends [of la "fst x" "snd x"] by simp
qed

lemma map_of_fold_update:
  "map_of (fold (\<lambda>x. AList.update (fst (f x)) (snd (f x))) ys out) = map_of out ++ map_of (rev (map f ys))"
  by (induction ys arbitrary: out) (auto simp: fun_eq_iff map_add_def split: option.split)

text \<open>
  The per-level limits written in the documented format are read back: each level gets its
  limit, and of two limits for one level the later one counts.
\<close>

theorem limits_roundtrip:
  assumes "xs \<noteq> []" and "\<forall>x \<in> set xs. level_name la (fst x) \<and> snd x < 2 ^ 64"
  shows "\<exists>m. parseLevelMessageLimits la (limits_text xs) = Some m \<and>
    map_of m = map_of (rev (map (\<lambda>x. (the (ParseLevel la (fst x)), word_of_nat (snd x))) xs))"
proof -
  let ?f = "\<lambda>x. (the (ParseLevel la (fst x)), word_of_nat (snd x) :: u64)"
  have trim: "trim_space (limits_text xs) = limits_text xs" "limits_text xs \<noteq> []"
    using limits_text_ends [OF assms(1), of la] assms(2) trim_space_visible by blast+
  have "CHR '','' \<notin> set (limit_text x)" if "x \<in> set xs" for x
    using assms(2) that digit_visible show_nat_visible
    by (fastforce simp: limit_text_def level_name_def)
  then have split: "split_on CHR '','' (limits_text xs) = map limit_text xs"
    using assms(1) unfolding limits_text_def by (intro split_join) auto
  have fold: "fold (limit_part la) (map limit_text ys) out = fold (\<lambda>x. AList.update (fst (?f x)) (snd (?f x))) ys out"
    if "set ys \<subseteq> set xs" for ys out
    using that
  proof (induction ys arbitrary: out)
    case (Cons y ys)
    then show ?case
      using limit_part_text [of la "fst y" "snd y"] assms(2) by auto
  qed simp
  let ?m = "fold (\<lambda>x. AList.update (fst (?f x)) (snd (?f x))) xs []"
  have m: "map_of ?m = map_of (rev (map ?f xs))"
    using map_of_fold_update [of ?f xs "[]"] by simp
  moreover have "?m \<noteq> []"
  proof
    assume "?m = []"
    then have "map_of (rev (map ?f xs)) = Map.empty" using m by simp
    then show False using assms(1) by (simp only: map_of_eq_empty_iff) simp
  qed
  ultimately show ?thesis
    using trim split fold [of xs "[]"] by (simp add: parseLevelMessageLimits_def Let_def)
qed

theorem limits_roundtrip_witness:
  "\<exists>m. parseLevelMessageLimits zerolog_like (limits_text [(''debug'', 50), (''info'', 200)]) = Some m \<and>
     map_of m 1 = Some 200"
proof -
  have "\<forall>x \<in> set [(''debug'', 50 :: nat), (''info'', 200)].
      level_name zerolog_like (fst x) \<and> snd x < 2 ^ 64"
    by (simp add: level_name_def zerolog_like_def visible_def byte_def)
  from limits_roundtrip [OF _ this] show ?thesis by (auto simp: zerolog_like_def)
qed

end
