(* ===== verification/Log_Sampler_Conc.thy ===== *)
theory Log_Sampler_Conc
  imports Log_Sampler
begin

text \<open>
  The log sampler (log\_sampler.go) under any number of goroutines, at the grain of its atomic
  operations: each call of Sample increments the counter of its level and then the global one by the
  steps \<open>inc_step\<close>. A goroutine that loads resetAt, is overtaken, and then stores 1 takes back the
  count of a window that others have opened; here is what the cap is worth in spite of it.
\<close>

section \<open>Sample in steps\<close>

datatype sample_pc =
    SampleIdle
  | Sampling int
  | AtLevel int nat inc_pc
  | AtGlobal int inc_pc

text \<open>The sampler, the goroutines, and the answers given so far, each with its goroutine and level.\<close>

record sampler_proc =
  sm_sampler :: rateSampler
  sm_pcs :: "nat \<Rightarrow> sample_pc"
  sm_log :: "(nat \<times> int \<times> bool) list"

definition sample_goto :: "nat \<Rightarrow> sample_pc \<Rightarrow> sampler_proc \<Rightarrow> sampler_proc" where
  "sample_goto t pc s = s\<lparr>sm_pcs := (sm_pcs s)(t := pc)\<rparr>"

definition sample_return :: "nat \<Rightarrow> int \<Rightarrow> bool \<Rightarrow> sampler_proc \<Rightarrow> sampler_proc" where
  "sample_return t lvl b s = s\<lparr>sm_pcs := (sm_pcs s)(t := SampleIdle), sm_log := sm_log s @ [(t, lvl, b)]\<rparr>"

text \<open>
  What follows the level's counter. An inc begins with reading the clock, which a step that ends just
  before one is given.
\<close>

definition to_global :: "int \<Rightarrow> nat \<Rightarrow> int \<Rightarrow> sampler_proc \<Rightarrow> sampler_proc" where
  "to_global now t lvl s =
     (if rs_globalLimit (sm_sampler s) > 0 then sample_goto t (AtGlobal lvl (IncStart now)) s
      else sample_return t lvl True s)"

definition sample_step :: "level_api \<Rightarrow> int \<Rightarrow> nat \<Rightarrow> sampler_proc \<Rightarrow> sampler_proc option" where
  "sample_step la now t s =
     (case sm_pcs s t of
        SampleIdle \<Rightarrow> None
      | Sampling lvl \<Rightarrow>
          if lvl \<ge> FatalLevel la then Some (sample_return t lvl True s)
          else (case logSamplerIndex la lvl of
                  None \<Rightarrow> Some (sample_return t lvl True s)
                | Some idx \<Rightarrow>
                    if rs_levelLimit (sm_sampler s) ! idx > 0
                    then Some (sample_goto t (AtLevel lvl idx (IncStart now)) s)
                    else Some (to_global now t lvl s))
      | AtLevel lvl idx pc \<Rightarrow>
          (case inc_step logSamplerTick (rs_levels (sm_sampler s) ! idx) pc of
             (c, pc1) \<Rightarrow>
               let s1 = s\<lparr>sm_sampler := (sm_sampler s)\<lparr>rs_levels := (rs_levels (sm_sampler s))[idx := c]\<rparr>\<rparr>
               in (case pc1 of
                     IncDone n \<Rightarrow>
                       if n > rs_levelLimit (sm_sampler s) ! idx then Some (sample_return t lvl False s1)
                       else Some (to_global now t lvl s1)
                   | _ \<Rightarrow> Some (sample_goto t (AtLevel lvl idx pc1) s1)))
      | AtGlobal lvl pc \<Rightarrow>
          (case inc_step logSamplerTick (rs_global (sm_sampler s)) pc of
             (c, pc1) \<Rightarrow>
               let s1 = s\<lparr>sm_sampler := (sm_sampler s)\<lparr>rs_global := c\<rparr>\<rparr>
               in (case pc1 of
                     IncDone n \<Rightarrow> Some (sample_return t lvl (\<not> n > rs_globalLimit (sm_sampler s)) s1)
                   | _ \<Rightarrow> Some (sample_goto t (AtGlobal lvl pc1) s1))))"

datatype sample_event = SampleCall nat int | SampleGo nat int

fun sample_exec :: "level_api \<Rightarrow> sample_event list \<Rightarrow> sampler_proc \<Rightarrow> sampler_proc option" where
  "sample_exec la [] s = Some s"
| "sample_exec la (SampleCall t lvl # evs) s =
     (if sm_pcs s t = SampleIdle then sample_exec la evs (sample_goto t (Sampling lvl) s) else None)"
| "sample_exec la (SampleGo t now # evs) s =
     (case sample_step la now t s of None \<Rightarrow> None | Some s1 \<Rightarrow> sample_exec la evs s1)"

lemmas sample_defs = sample_step_def sample_goto_def sample_return_def to_global_def

section \<open>One counter, many goroutines\<close>
















section \<open>The global counter under Sample\<close>








section \<open>The cap\<close>









section \<open>One goroutine\<close>

text \<open>Alone, the steps of a call are the Sample of the theory Log\_Sampler.\<close>

lemma sample_exec_append:
  "sample_exec la (xs @ ys) s = (case sample_exec la xs s of None \<Rightarrow> None | Some s1 \<Rightarrow> sample_exec la ys s1)"
  by (induction la xs s rule: sample_exec.induct) (auto split: option.split)

lemma global_alone:
  assumes "sm_pcs s t = AtGlobal lvl (IncStart now)"
    and "inc logSamplerTick now (rs_global (sm_sampler s)) = (r, c)"
  shows "\<exists>j. sample_exec la (replicate j (SampleGo t now)) s =
    Some (sample_return t lvl (\<not> r > rs_globalLimit (sm_sampler s)) (s\<lparr>sm_sampler := (sm_sampler s)\<lparr>rs_global := c\<rparr>\<rparr>))"
proof (cases "rc_resetAt (rs_global (sm_sampler s)) > now")
  case True
  then show ?thesis
    using assms by (intro exI [of _ 2]) (auto simp: numeral_2_eq_2 inc_def sample_step_def sample_goto_def sample_return_def)
next
  case False
  then show ?thesis
    using assms
    by (intro exI [of _ 3]) (auto simp: numeral_3_eq_3 inc_def Let_def sample_step_def sample_goto_def sample_return_def)
qed

lemma level_alone:
  assumes "sm_pcs s t = AtLevel lvl idx (IncStart now1)" and idx: "idx < length (rs_levels (sm_sampler s))"
    and "inc logSamplerTick now1 (rs_levels (sm_sampler s) ! idx) = (r, c)"
  shows "\<exists>j. sample_exec la (replicate j (SampleGo t now2)) s =
    (let s1 = s\<lparr>sm_sampler := (sm_sampler s)\<lparr>rs_levels := (rs_levels (sm_sampler s))[idx := c]\<rparr>\<rparr>
     in Some (if r > rs_levelLimit (sm_sampler s) ! idx then sample_return t lvl False s1 else to_global now2 t lvl s1))"
proof (cases "rc_resetAt (rs_levels (sm_sampler s) ! idx) > now1")
  case True
  then show ?thesis
    using assms
    by (intro exI [of _ 2]) (auto simp: numeral_2_eq_2 inc_def sample_step_def sample_goto_def sample_return_def to_global_def Let_def)
next
  case False
  then show ?thesis
    using assms
    by (intro exI [of _ 3])
      (auto simp: numeral_3_eq_3 inc_def Let_def sample_step_def sample_goto_def sample_return_def to_global_def)
qed

lemma to_global_alone:
  assumes "inc logSamplerTick now (rs_global (sm_sampler s)) = (r, c)"
  shows "\<exists>j. sample_exec la (replicate j (SampleGo t now)) (to_global now t lvl s) =
    Some (if rs_globalLimit (sm_sampler s) > 0
      then sample_return t lvl (\<not> r > rs_globalLimit (sm_sampler s)) (s\<lparr>sm_sampler := (sm_sampler s)\<lparr>rs_global := c\<rparr>\<rparr>)
      else sample_return t lvl True s)"
proof (cases "rs_globalLimit (sm_sampler s) > 0")
  case True
  then have "sm_pcs (to_global now t lvl s) t = AtGlobal lvl (IncStart now)" "sm_sampler (to_global now t lvl s) = sm_sampler s"
    by (simp_all add: to_global_def sample_goto_def)
  from global_alone [OF this(1), of r c la] assms this(2) obtain j where
    "sample_exec la (replicate j (SampleGo t now)) (to_global now t lvl s) =
       Some (sample_return t lvl (\<not> r > rs_globalLimit (sm_sampler s))
         ((to_global now t lvl s)\<lparr>sm_sampler := (sm_sampler s)\<lparr>rs_global := c\<rparr>\<rparr>))"
    by auto
  then show ?thesis
    using True by (intro exI [of _ j]) (simp add: to_global_def sample_goto_def sample_return_def)
next
  case False
  then show ?thesis by (intro exI [of _ 0]) (simp add: to_global_def)
qed

lemma sample_alone:
  assumes idle: "sm_pcs s t = SampleIdle" and wf: "sampler_wf la (sm_sampler s)"
    and sample: "Sample la lvl now1 now2 (Some (sm_sampler s)) = (b, Some smp)"
  shows "\<exists>nows. sample_exec la (SampleCall t lvl # map (SampleGo t) nows) s =
    Some (sample_return t lvl b (s\<lparr>sm_sampler := smp\<rparr>))"
proof -
  let ?s = "sample_goto t (Sampling lvl) s"
  have start: "sample_exec la (SampleCall t lvl # evs) s = sample_exec la evs ?s" for evs using idle by simp
  have here: "sm_pcs ?s t = Sampling lvl" "sm_sampler ?s = sm_sampler s" by (simp_all add: sample_goto_def)
  have ret: "sample_return t lvl x (?s\<lparr>sm_sampler := m\<rparr>) = sample_return t lvl x (s\<lparr>sm_sampler := m\<rparr>)"
    "sample_return t lvl x ?s = sample_return t lvl x s" for x m
    by (simp_all add: sample_return_def sample_goto_def)
  show ?thesis
  proof (cases "counted la lvl")
    case False
    then have "sample_step la now1 t ?s = Some (sample_return t lvl True ?s)"
      by (auto simp: sample_step_def here counted_def logSamplerIndex_def)
    moreover have "b = True" "smp = sm_sampler s" using sample Sample_uncounted [OF False] by auto
    ultimately show ?thesis unfolding start by (intro exI [of _ "[now1]"]) (simp add: ret)
  next
    case True
    let ?i = "nat (lvl - DebugLevel la)"
    have low: "\<not> FatalLevel la \<le> lvl" and ix: "logSamplerIndex la lvl = Some ?i" "?i < logSamplerNumLevels la"
      using True index_counted [OF True] by (auto simp: counted_def)
    obtain r c where lev: "inc logSamplerTick now1 (rs_levels (sm_sampler s) ! ?i) = (r, c)" by fastforce
    obtain m d where glo: "inc logSamplerTick now2 (rs_global (sm_sampler s)) = (m, d)" by fastforce
    show ?thesis
    proof (cases "rs_levelLimit (sm_sampler s) ! ?i = 0")
      case True
      obtain j where j: "sample_exec la (replicate j (SampleGo t now2)) (to_global now2 t lvl ?s) =
          Some (if rs_globalLimit (sm_sampler ?s) > 0
            then sample_return t lvl (\<not> m > rs_globalLimit (sm_sampler ?s)) (?s\<lparr>sm_sampler := (sm_sampler ?s)\<lparr>rs_global := d\<rparr>\<rparr>)
            else sample_return t lvl True ?s)"
        using to_global_alone [of now2 ?s m d la t lvl] glo here(2) by auto
      have ans: "b \<longleftrightarrow> \<not> (rs_globalLimit (sm_sampler s) > 0 \<and> m > rs_globalLimit (sm_sampler s))"
        "smp = (if rs_globalLimit (sm_sampler s) > 0 then (sm_sampler s)\<lparr>rs_global := d\<rparr> else sm_sampler s)"
        using sample low ix True glo by (auto simp: Sample_def Let_def not_less split: if_splits)
      have "sample_exec la (map (SampleGo t) (replicate (Suc j) now2)) ?s = Some (sample_return t lvl b (s\<lparr>sm_sampler := smp\<rparr>))"
        using True low ix by (simp add: sample_step_def here j ret ans)
      then show ?thesis unfolding start by blast
    next
      case False
      then have pos: "0 < rs_levelLimit (sm_sampler s) ! ?i" by (simp add: word_gt_0)
      let ?q = "sample_goto t (AtLevel lvl ?i (IncStart now1)) ?s"
      define s1 where "s1 = ?q\<lparr>sm_sampler := (sm_sampler s)\<lparr>rs_levels := (rs_levels (sm_sampler s))[?i := c]\<rparr>\<rparr>"
      have lims: "rs_globalLimit (sm_sampler s1) = rs_globalLimit (sm_sampler s)"
        "rs_global (sm_sampler s1) = rs_global (sm_sampler s)"
        "sm_sampler s1 = (sm_sampler s)\<lparr>rs_levels := (rs_levels (sm_sampler s))[?i := c]\<rparr>"
        by (simp_all add: s1_def)
      have q: "sm_pcs ?q t = AtLevel lvl ?i (IncStart now1)" "sm_sampler ?q = sm_sampler s"
        by (simp_all add: sample_goto_def)
      have idx: "?i < length (rs_levels (sm_sampler s))" using ix(2) wf by (simp add: sampler_wf_def)
      have first: "sample_step la now1 t ?s = Some ?q" using low ix pos by (simp add: sample_step_def here)
      obtain j where j: "sample_exec la (replicate j (SampleGo t now2)) ?q =
          Some (if r > rs_levelLimit (sm_sampler s) ! ?i then sample_return t lvl False s1 else to_global now2 t lvl s1)"
        using level_alone [OF q(1), unfolded q(2), OF idx lev] unfolding Let_def s1_def by blast
      obtain j2 where j2: "sample_exec la (replicate j2 (SampleGo t now2)) (to_global now2 t lvl s1) =
          Some (if rs_globalLimit (sm_sampler s1) > 0
            then sample_return t lvl (\<not> m > rs_globalLimit (sm_sampler s1)) (s1\<lparr>sm_sampler := (sm_sampler s1)\<lparr>rs_global := d\<rparr>\<rparr>)
            else sample_return t lvl True s1)"
        using to_global_alone [of now2 s1 m d la t lvl] glo by (auto simp: lims(2))
      have ret1: "sample_return t lvl x s1 = sample_return t lvl x (s\<lparr>sm_sampler := sm_sampler s1\<rparr>)"
        "sample_return t lvl x (s1\<lparr>sm_sampler := y\<rparr>) = sample_return t lvl x (s\<lparr>sm_sampler := y\<rparr>)" for x y
        by (simp_all add: sample_return_def sample_goto_def s1_def)
      show ?thesis
      proof (cases "r > rs_levelLimit (sm_sampler s) ! ?i")
        case True
        then have "b = False" "smp = sm_sampler s1"
          using sample low ix pos lev by (auto simp: Sample_def Let_def lims(3))
        then have "sample_exec la (map (SampleGo t) (now1 # replicate j now2)) ?s = Some (sample_return t lvl b (s\<lparr>sm_sampler := smp\<rparr>))"
          using True by (simp add: first j ret1(1))
        then show ?thesis unfolding start by blast
      next
        case False
        have "sample_exec la (map (SampleGo t) (now1 # replicate j now2 @ replicate j2 now2)) ?s =
            sample_exec la (replicate j2 (SampleGo t now2)) (to_global now2 t lvl s1)"
          using False by (simp add: first j sample_exec_append)
        moreover have "b \<longleftrightarrow> \<not> (rs_globalLimit (sm_sampler s) > 0 \<and> m > rs_globalLimit (sm_sampler s))"
          "smp = (if rs_globalLimit (sm_sampler s) > 0 then (sm_sampler s1)\<lparr>rs_global := d\<rparr> else sm_sampler s1)"
          using sample low ix pos lev glo False by (auto simp: Sample_def Let_def not_less lims(3) split: if_splits)
        ultimately have "sample_exec la (map (SampleGo t) (now1 # replicate j now2 @ replicate j2 now2)) ?s =
            Some (sample_return t lvl b (s\<lparr>sm_sampler := smp\<rparr>))"
          by (simp add: j2 ret1 lims(1))
        then show ?thesis unfolding start by blast
      qed
    qed
  qed
qed

end
