(* ===== verification/Tel_Config.thy ===== *)
theory Tel_Config
  imports Detector Go_Strings
begin

text \<open>
  The configuration (model.go, config\_env.go, config\_env\_gen.go and the default configurations of
  tel.go). The environment of the process is a map; the env package (its emptiness test, its
  parsers, its .env loader), the host name and time.ParseDuration are parameters. The generated
  loader collects one error per field it cannot parse; the hand-written one for the nested
  settings falls back to the default.
\<close>

section \<open>The configuration records\<close>

record TLSRawConfig =
  raw_CA :: string
  raw_Cert :: string
  raw_Key :: string

record HistogramOpt =
  ho_Name :: string
  ho_Boundaries :: "float64 list"

text \<open>
  CardinalityDetectorConfig and cardinalitySettings are two struct types with the same fields, and
  the code converts the one into the other; here they are one.
\<close>

type_synonym CardinalityDetectorConfig = cardinalitySettings

record MetricsConfig =
  mx_CardinalityDetector :: CardinalityDetectorConfig
  mx_EnableRetry :: bool

record TracesConfig =
  tr_Enable :: bool
  tr_Sampler :: string

record MonitorConfig =
  mc_MonitorAddr :: string
  mc_Enable :: bool

record TelConfig =
  tl_Address :: string
  tl_ServerName :: string
  tl_Raw :: TLSRawConfig
  tl_BucketView :: "HistogramOpt list"
  tl_Metrics :: MetricsConfig
  tl_MetricsPeriodicIntervalSec :: int
  tl_ExportIntervalSec :: int
  tl_WithInsecure :: bool
  tl_Enable :: bool
  tl_WithCompression :: bool
  tl_Traces :: TracesConfig

record Config =
  cf_MonitorConfig :: MonitorConfig
  cf_TelConfig :: TelConfig
  cf_Service :: string
  cf_Pod :: string
  cf_Namespace :: string
  cf_Environment :: string
  cf_Version :: string
  cf_LogLevel :: string
  cf_LogEncode :: string
  cf_MaxMessagesPerSecond :: int
  cf_MaxLevelMessagesPerSecond :: string
  cf_Debug :: bool

text \<open>Go's zero value of the struct.\<close>

definition zeroConfig :: Config where
  "zeroConfig = \<lparr> cf_MonitorConfig = \<lparr> mc_MonitorAddr = [], mc_Enable = False \<rparr>,
     cf_TelConfig = \<lparr> tl_Address = [], tl_ServerName = [],
       tl_Raw = \<lparr> raw_CA = [], raw_Cert = [], raw_Key = [] \<rparr>, tl_BucketView = [],
       tl_Metrics = \<lparr> mx_CardinalityDetector = \<lparr> cs_MaxCardinality = 0, cs_MaxInstruments = 0,
         cs_DiagnosticInterval = 0, cs_WarnUtilizationPct = 0, cs_Enable = False,
         cs_DenyUnknown = False \<rparr>, mx_EnableRetry = False \<rparr>,
       tl_MetricsPeriodicIntervalSec = 0, tl_ExportIntervalSec = 0, tl_WithInsecure = False,
       tl_Enable = False, tl_WithCompression = False,
       tl_Traces = \<lparr> tr_Enable = False, tr_Sampler = [] \<rparr> \<rparr>,
     cf_Service = [], cf_Pod = [], cf_Namespace = [], cf_Environment = [], cf_Version = [],
     cf_LogLevel = [], cf_LogEncode = [], cf_MaxMessagesPerSecond = 0,
     cf_MaxLevelMessagesPerSecond = [], cf_Debug = False \<rparr>"

section \<open>The surroundings\<close>

type_synonym environment = "string \<Rightarrow> string option"

datatype dotEnvError = DotEnvNotExist | DotEnvError go_error

datatype 'a parsed = Parsed 'a | ParseError go_error

type_synonym fieldError = "string \<times> string \<times> string \<times> go_error"

record env_api =
  ea_IsEmpty :: "string \<Rightarrow> bool"
  ea_ParseBool :: "string \<Rightarrow> bool parsed"
  ea_ParseInt :: "string \<Rightarrow> int parsed"
  ea_LoadDotEnv :: "string \<Rightarrow> environment \<Rightarrow> dotEnvError option \<times> environment"
  ea_Hostname :: "string parsed"
  ea_ParseDuration :: "string \<Rightarrow> int option"
  ea_ulower :: "string \<Rightarrow> string"

definition getenv :: "environment \<Rightarrow> string \<Rightarrow> string" where
  "getenv e key = (case e key of None \<Rightarrow> [] | Some v \<Rightarrow> v)"

text \<open>The host name where the code drops the error.\<close>

definition hostname_or_empty :: "env_api \<Rightarrow> string" where
  "hostname_or_empty ea = (case ea_Hostname ea of Parsed h \<Rightarrow> h | ParseError e \<Rightarrow> [])"

definition host_service :: "env_api \<Rightarrow> string" where
  "host_service ea =
     to_lower (ea_ulower ea) (replace_byte CHR ''-'' CHR ''_'' (hostname_or_empty ea))"

section \<open>The generated loader\<close>

type_synonym loading = "Config \<times> fieldError list"

definition load_text ::
  "env_api \<Rightarrow> environment \<Rightarrow> string \<Rightarrow> string option \<Rightarrow> (string \<Rightarrow> Config \<Rightarrow> Config) \<Rightarrow> loading \<Rightarrow> loading" where
  "load_text ea snap key deflt upd st =
     (case st of (cfg, errs) \<Rightarrow>
        (case snap key of
           Some raw \<Rightarrow> if ea_IsEmpty ea raw
                       then (case deflt of None \<Rightarrow> (cfg, errs) | Some v \<Rightarrow> (upd v cfg, errs))
                       else (upd raw cfg, errs)
         | None \<Rightarrow> (case deflt of None \<Rightarrow> (cfg, errs) | Some v \<Rightarrow> (upd v cfg, errs))))"

definition load_parsed ::
  "(string \<Rightarrow> 'v parsed) \<Rightarrow> env_api \<Rightarrow> environment \<Rightarrow> string \<Rightarrow> string \<Rightarrow> string \<Rightarrow> ('v \<Rightarrow> Config \<Rightarrow> Config)
     \<Rightarrow> loading \<Rightarrow> loading" where
  "load_parsed parse ea snap path key deflt upd st =
     (case st of (cfg, errs) \<Rightarrow>
        let raw = (case snap key of
                     Some raw \<Rightarrow> if ea_IsEmpty ea raw then deflt else raw | None \<Rightarrow> deflt)
        in (case parse raw of
              ParseError err \<Rightarrow> (cfg, errs @ [(path, key, raw, err)])
            | Parsed v \<Rightarrow> (upd v cfg, errs)))"

definition set_tel :: "(TelConfig \<Rightarrow> TelConfig) \<Rightarrow> Config \<Rightarrow> Config" where
  "set_tel f cfg = cfg\<lparr>cf_TelConfig := f (cf_TelConfig cfg)\<rparr>"

definition set_monitor :: "(MonitorConfig \<Rightarrow> MonitorConfig) \<Rightarrow> Config \<Rightarrow> Config" where
  "set_monitor f cfg = cfg\<lparr>cf_MonitorConfig := f (cf_MonitorConfig cfg)\<rparr>"

text \<open>
  The fields in the order of the generated code; the parse errors come out in that order. A step
  loads one field.
\<close>

definition load_endpoints :: "env_api \<Rightarrow> environment \<Rightarrow> (loading \<Rightarrow> loading) list" where
  "load_endpoints ea snap =
       [load_text ea snap ''MONITOR_ADDR'' (Some ''127.0.0.1:8011'')
          (\<lambda>v. set_monitor (\<lambda>m. m\<lparr>mc_MonitorAddr := v\<rparr>)),
        load_parsed (ea_ParseBool ea) ea snap ''MonitorConfig.Enable'' ''MONITOR_ENABLE'' ''true''
          (\<lambda>v. set_monitor (\<lambda>m. m\<lparr>mc_Enable := v\<rparr>)),
        load_text ea snap ''TEL_COLLECTOR_GRPC_ADDR'' (Some ''127.0.0.1:4317'')
          (\<lambda>v. set_tel (\<lambda>t. t\<lparr>tl_Address := v\<rparr>)),
        load_text ea snap ''TEL_COLLECTOR_TLS_SERVER_NAME'' None
          (\<lambda>v. set_tel (\<lambda>t. t\<lparr>tl_ServerName := v\<rparr>)),
        load_parsed (ea_ParseInt ea) ea snap ''TelConfig.MetricsPeriodicIntervalSec''
          ''TEL_METRIC_PERIODIC_INTERVAL_SEC'' ''15''
          (\<lambda>v. set_tel (\<lambda>t. t\<lparr>tl_MetricsPeriodicIntervalSec := v\<rparr>)),
        load_parsed (ea_ParseInt ea) ea snap ''TelConfig.ExportIntervalSec''
          ''TEL_EXPORT_INTERVAL_SEC'' ''0'' (\<lambda>v. set_tel (\<lambda>t. t\<lparr>tl_ExportIntervalSec := v\<rparr>)),
        load_parsed (ea_ParseBool ea) ea snap ''TelConfig.WithInsecure''
          ''TEL_EXPORTER_WITH_INSECURE'' ''true'' (\<lambda>v. set_tel (\<lambda>t. t\<lparr>tl_WithInsecure := v\<rparr>)),
        load_parsed (ea_ParseBool ea) ea snap ''TelConfig.Enable'' ''TEL_ENABLE'' ''true''
          (\<lambda>v. set_tel (\<lambda>t. t\<lparr>tl_Enable := v\<rparr>)),
        load_parsed (ea_ParseBool ea) ea snap ''TelConfig.WithCompression''
          ''TEL_ENABLE_COMPRESSION'' ''true'' (\<lambda>v. set_tel (\<lambda>t. t\<lparr>tl_WithCompression := v\<rparr>))]"

definition load_service :: "env_api \<Rightarrow> environment \<Rightarrow> (loading \<Rightarrow> loading) list" where
  "load_service ea snap =
       [load_text ea snap ''TEL_SERVICE_NAME'' None (\<lambda>v c. c\<lparr>cf_Service := v\<rparr>),
        load_text ea snap ''POD_NAME'' None (\<lambda>v c. c\<lparr>cf_Pod := v\<rparr>),
        load_text ea snap ''NAMESPACE'' (Some ''default'') (\<lambda>v c. c\<lparr>cf_Namespace := v\<rparr>),
        load_text ea snap ''DEPLOY_ENVIRONMENT'' (Some ''dev'') (\<lambda>v c. c\<lparr>cf_Environment := v\<rparr>),
        load_text ea snap ''VERSION'' (Some ''dev'') (\<lambda>v c. c\<lparr>cf_Version := v\<rparr>),
        load_text ea snap ''LOG_LEVEL'' (Some ''info'') (\<lambda>v c. c\<lparr>cf_LogLevel := v\<rparr>),
        load_text ea snap ''LOG_ENCODE'' (Some ''console'') (\<lambda>v c. c\<lparr>cf_LogEncode := v\<rparr>),
        load_parsed (ea_ParseInt ea) ea snap ''MaxMessagesPerSecond''
          ''LOGS_MAX_MESSAGES_PER_SECOND'' ''0'' (\<lambda>v c. c\<lparr>cf_MaxMessagesPerSecond := v\<rparr>),
        load_text ea snap ''LOGS_MAX_LEVEL_MESSAGES_PER_SECOND'' None
          (\<lambda>v c. c\<lparr>cf_MaxLevelMessagesPerSecond := v\<rparr>),
        load_parsed (ea_ParseBool ea) ea snap ''Debug'' ''DEBUG'' ''false''
          (\<lambda>v c. c\<lparr>cf_Debug := v\<rparr>)]"

definition loadConfig :: "env_api \<Rightarrow> Config \<Rightarrow> environment \<Rightarrow> Config \<times> fieldError list" where
  "loadConfig ea cfg snap =
     fold (\<lambda>step st. step st) (load_endpoints ea snap @ load_service ea snap) (cfg, [])"

lemmas loadConfig_defs = loadConfig_def load_endpoints_def load_service_def append.simps

text \<open>
  LoadConfig on the current snapshot. The configuration, as far as it was filled, comes back with the
  error, which is the list of field errors; env.NewError of an empty list is nil.
\<close>

definition LoadConfig :: "env_api \<Rightarrow> environment \<Rightarrow> Config \<times> fieldError list option" where
  "LoadConfig ea snap =
     (case loadConfig ea zeroConfig snap of (cfg, errs) \<Rightarrow> if errs \<noteq> [] then (cfg, Some errs) else (cfg, None))"

definition ReloadConfig :: "env_api \<Rightarrow> environment \<Rightarrow> Config \<Rightarrow> fieldError list option \<times> Config" where
  "ReloadConfig ea snap cfg =
     (case loadConfig ea zeroConfig snap of (nxt, errs) \<Rightarrow>
        if errs \<noteq> [] then (Some errs, cfg) else (None, nxt))"

section \<open>The nested settings\<close>

definition blank :: "string \<Rightarrow> bool" where
  "blank s \<longleftrightarrow> trim_space s = []"

definition envString :: "environment \<Rightarrow> string \<Rightarrow> string \<Rightarrow> string" where
  "envString e key deflt =
     (case e key of Some v \<Rightarrow> if \<not> blank v then v else deflt | None \<Rightarrow> deflt)"

definition envBool :: "environment \<Rightarrow> string \<Rightarrow> bool \<Rightarrow> bool" where
  "envBool e key deflt =
     (case e key of
        None \<Rightarrow> deflt
      | Some v \<Rightarrow> if blank v then deflt
                  else (case parse_bool v of None \<Rightarrow> deflt | Some b \<Rightarrow> b))"

definition envInt :: "environment \<Rightarrow> string \<Rightarrow> int \<Rightarrow> int" where
  "envInt e key deflt =
     (case e key of
        None \<Rightarrow> deflt
      | Some v \<Rightarrow> if blank v then deflt else (case atoi v of None \<Rightarrow> deflt | Some n \<Rightarrow> n))"

definition envDuration :: "env_api \<Rightarrow> environment \<Rightarrow> string \<Rightarrow> int \<Rightarrow> int" where
  "envDuration ea e key deflt =
     (case e key of
        None \<Rightarrow> deflt
      | Some v \<Rightarrow> if blank v then deflt
                  else (case ea_ParseDuration ea v of None \<Rightarrow> deflt | Some d \<Rightarrow> d))"

definition nested_raw :: "environment \<Rightarrow> TLSRawConfig \<Rightarrow> TLSRawConfig" where
  "nested_raw e r0 =
     (let v1 = getenv e ''OTEL_COLLECTOR_TLS_CA_CERT'';
          r1 = (if v1 \<noteq> [] then r0\<lparr>raw_CA := v1\<rparr> else r0);
          v2 = getenv e ''OTEL_COLLECTOR_TLS_CLIENT_CERT'';
          r2 = (if v2 \<noteq> [] then r1\<lparr>raw_Cert := v2\<rparr> else r1);
          v3 = getenv e ''OTEL_COLLECTOR_TLS_CLIENT_KEY''
      in if v3 \<noteq> [] then r2\<lparr>raw_Key := v3\<rparr> else r2)"

definition nested_detector :: "env_api \<Rightarrow> environment \<Rightarrow> CardinalityDetectorConfig" where
  "nested_detector ea e =
     \<lparr> cs_MaxCardinality =
         envInt e ''METRICS_CARDINALITY_DETECTOR_MAX_CARDINALITY'' defaultMaxCardinality,
       cs_MaxInstruments =
         envInt e ''METRICS_CARDINALITY_DETECTOR_MAX_INSTRUMENTS'' defaultMaxInstruments,
       cs_DiagnosticInterval =
         envDuration ea e ''METRICS_CARDINALITY_DETECTOR_DIAGNOSTIC_INTERVAL'' defaultDiagnosticInterval,
       cs_WarnUtilizationPct =
         envInt e ''METRICS_CARDINALITY_WARN_UTILIZATION_PCT'' defaultWarnUtilizationPct,
       cs_Enable = envBool e ''METRICS_CARDINALITY_DETECTOR_ENABLE'' True,
       cs_DenyUnknown = envBool e ''METRICS_CARDINALITY_DENY_UNKNOWN'' False \<rparr>"

definition applyNestedEnv :: "env_api \<Rightarrow> environment \<Rightarrow> Config \<Rightarrow> Config" where
  "applyNestedEnv ea e =
     set_tel (\<lambda>t. t\<lparr>
       tl_Traces := \<lparr> tr_Enable = envBool e ''TEL_TRACES_ENABLE'' True,
                      tr_Sampler = envString e ''TEL_TRACES_SAMPLER'' defaultTracesSampler \<rparr>,
       tl_Metrics := \<lparr> mx_CardinalityDetector = nested_detector ea e,
                       mx_EnableRetry = envBool e ''METRICS_ENABLE_RETRY'' False \<rparr>,
       tl_Raw := nested_raw e (tl_Raw t)\<rparr>)"

section \<open>The whole configuration\<close>

text \<open>resolvePod of zlog.go.\<close>

definition resolvePod :: "env_api \<Rightarrow> environment \<Rightarrow> Config \<Rightarrow> string" where
  "resolvePod ea e cfg =
     (let s = trim_space (cf_Pod cfg)
      in if s \<noteq> [] then s
         else let s = trim_space (getenv e ''POD_NAME'')
              in if s \<noteq> [] then s
                 else let s = trim_space (getenv e ''HOSTNAME'')
                      in if s \<noteq> [] then s
                         else (case ea_Hostname ea of
                                 ParseError err \<Rightarrow> []
                               | Parsed host \<Rightarrow> trim_space host))"

definition defaultDotEnvPath :: string where
  "defaultDotEnvPath = ''.env''"

text \<open>The loader of the .env file changes the environment; its error counts unless the file is missing.\<close>

definition loadDotEnv :: "env_api \<Rightarrow> environment \<Rightarrow> go_error option \<times> environment" where
  "loadDotEnv ea e =
     (let path0 = trim_space (getenv e ''TEL_DOTENV'');
          path = (if path0 = [] then defaultDotEnvPath else path0)
      in (case ea_LoadDotEnv ea path e of
            (Some (DotEnvError err), e1) \<Rightarrow> (Some err, e1)
          | (Some DotEnvNotExist, e1) \<Rightarrow> (None, e1)
          | (None, e1) \<Rightarrow> (None, e1)))"

datatype configError = DotEnvFailed go_error | FieldsFailed "fieldError list"

definition GetConfigFromEnv :: "env_api \<Rightarrow> environment \<Rightarrow> (configError + Config) \<times> environment" where
  "GetConfigFromEnv ea e =
     (case loadDotEnv ea e of
        (Some err, e1) \<Rightarrow> (Inl (DotEnvFailed err), e1)
      | (None, e1) \<Rightarrow>
          (case LoadConfig ea e1 of
             (cfg0, Some errs) \<Rightarrow> (Inl (FieldsFailed errs), e1)
           | (cfg0, None) \<Rightarrow>
               let cfg1 = applyNestedEnv ea e1 cfg0;
                   cfg2 = (if blank (cf_Service cfg1)
                           then let s = host_service ea
                                in cfg1\<lparr>cf_Service := if s = [] then defaultServiceUnknown else s\<rparr>
                           else cfg1);
                   cfg3 = (if blank (cf_Pod cfg2) then cfg2\<lparr>cf_Pod := resolvePod ea e1 cfg2\<rparr>
                           else cfg2)
               in (Inr cfg3, e1)))"

section \<open>The default configurations of tel.go\<close>

definition DefaultConfig :: "env_api \<Rightarrow> Config" where
  "DefaultConfig ea =
     zeroConfig\<lparr>cf_Service := host_service ea, cf_Pod := hostname_or_empty ea,
       cf_Version := defaultVersion, cf_Namespace := defaultNamespace,
       cf_Environment := defaultEnvironment, cf_LogEncode := defaultLogEncode,
       cf_LogLevel := defaultLogLevel,
       cf_MonitorConfig := \<lparr> mc_MonitorAddr = defaultMonitorAddr, mc_Enable = True \<rparr>,
       cf_TelConfig := (cf_TelConfig zeroConfig)\<lparr>
         tl_Address := defaultOTLPGRPCAddr, tl_WithInsecure := True, tl_Enable := True,
         tl_WithCompression := True, tl_MetricsPeriodicIntervalSec := defaultMetricsPeriodicIntervalSec,
         tl_Metrics := \<lparr> mx_CardinalityDetector = \<lparr> cs_MaxCardinality = defaultMaxCardinality,
             cs_MaxInstruments = defaultMaxInstruments,
             cs_DiagnosticInterval = defaultDiagnosticInterval,
             cs_WarnUtilizationPct = defaultWarnUtilizationPct, cs_Enable = True,
             cs_DenyUnknown = False \<rparr>, mx_EnableRetry = False \<rparr>,
         tl_Traces := \<lparr> tr_Enable = True, tr_Sampler = defaultTracesSampler \<rparr>\<rparr>\<rparr>"

definition DefaultDebugConfig :: "env_api \<Rightarrow> Config" where
  "DefaultDebugConfig ea =
     (let c = DefaultConfig ea
      in set_tel (\<lambda>t. t\<lparr>tl_Enable := False,
             tl_Traces := (tl_Traces t)\<lparr>tr_Sampler := defaultDebugTracesSampler\<rparr>\<rparr>)
           (set_monitor (\<lambda>m. m\<lparr>mc_Enable := False\<rparr>)
             (c\<lparr>cf_Debug := True, cf_LogLevel := defaultDebugLogLevel,
                cf_LogEncode := defaultDebugLogEncode\<rparr>)))"

definition maxInstrumentsFromCfg :: "Config \<Rightarrow> int" where
  "maxInstrumentsFromCfg cfg =
     (let n = cs_MaxInstruments (mx_CardinalityDetector (tl_Metrics (cf_TelConfig cfg)))
      in if n \<le> 0 then defaultMaxInstruments else n)"

section \<open>Properties\<close>

text \<open>What the env package documents of its parsers, on the defaults of the struct tags.\<close>

definition parses_defaults :: "env_api \<Rightarrow> bool" where
  "parses_defaults ea \<longleftrightarrow> ea_ParseBool ea ''true'' = Parsed True \<and> ea_ParseBool ea ''false'' = Parsed False \<and>
     ea_ParseInt ea ''15'' = Parsed 15 \<and> ea_ParseInt ea ''0'' = Parsed 0"

text \<open>
  C23: The struct tags, the constants of defaults.go and DefaultConfig agree: in an environment that
  sets nothing, with no .env file, the configuration is DefaultConfig, the pod name trimmed and
  the service name never empty.
\<close>

theorem defaults_agree:
  assumes "parses_defaults ea" and "e = (\<lambda>key. None)"
    and "ea_LoadDotEnv ea ''.env'' e = (Some DotEnvNotExist, e)"
  shows "GetConfigFromEnv ea e =
    (Inr ((DefaultConfig ea)\<lparr>cf_Pod := trim_space (hostname_or_empty ea),
            cf_Service := if host_service ea = [] then ''unknown'' else host_service ea\<rparr>), e)"
proof -
  have "loadDotEnv ea e = (None, e)"
    using assms(2,3) by (simp add: loadDotEnv_def getenv_def defaultDotEnvPath_def)
  moreover have "LoadConfig ea e = ((DefaultConfig ea)\<lparr>cf_Pod := [], cf_Service := [],
      cf_TelConfig := (cf_TelConfig (DefaultConfig ea))\<lparr>tl_Metrics := tl_Metrics (cf_TelConfig zeroConfig),
        tl_Traces := tl_Traces (cf_TelConfig zeroConfig)\<rparr>\<rparr>, None)"
    using assms(1,2)
    by (simp add: LoadConfig_def loadConfig_defs load_text_def load_parsed_def parses_defaults_def
        zeroConfig_def DefaultConfig_def set_tel_def set_monitor_def default_defs)
  ultimately show ?thesis
    using assms(2)
    by (simp add: GetConfigFromEnv_def applyNestedEnv_def nested_raw_def nested_detector_def
        envInt_def envBool_def envString_def envDuration_def getenv_def blank_def resolvePod_def
        set_tel_def DefaultConfig_def zeroConfig_def default_defs hostname_or_empty_def Let_def
        split: parsed.split)
qed

text \<open>Parsers as in the examples below: the spellings of the defaults and a few more.\<close>

definition demo_env_api :: env_api where
  "demo_env_api = \<lparr> ea_IsEmpty = (\<lambda>s. s = []),
     ea_ParseBool = (\<lambda>s. case parse_bool s of None \<Rightarrow> ParseError ''bool'' | Some b \<Rightarrow> Parsed b),
     ea_ParseInt = (\<lambda>s. case atoi s of None \<Rightarrow> ParseError ''int'' | Some n \<Rightarrow> Parsed n),
     ea_LoadDotEnv = (\<lambda>path e. (Some DotEnvNotExist, e)), ea_Hostname = Parsed ''my-host'',
     ea_ParseDuration = (\<lambda>s. None), ea_ulower = id \<rparr>"

lemma demo_parses: "parses_defaults demo_env_api"
proof -
  have "atoi ''15'' = Some 15" "atoi ''0'' = Some 0" by code_simp+
  then show ?thesis by (simp add: parses_defaults_def demo_env_api_def parse_bool_def)
qed

lemma demo_host: "host_service demo_env_api = ''my_host''"
  by code_simp

theorem defaults_agree_witness:
  "\<exists>cfg. GetConfigFromEnv demo_env_api (\<lambda>key. None) = (Inr cfg, \<lambda>key. None) \<and>
     cf_Service cfg = ''my_host'' \<and> cf_LogLevel cfg = ''info''"
  using defaults_agree [OF demo_parses refl] demo_host
  by (simp add: demo_env_api_def DefaultConfig_def default_defs)

section \<open>Errors of the loader\<close>












end
