(* ===== verification/Lifecycle.thy ===== *)
theory Lifecycle
  imports Instruments Tel_Config
begin

text \<open>
  The lifecycle of a Telemetry (tel.go): Start, Shutdown and AllowSubjects, on any number of
  goroutines. Start releases the mutex between its phases, so a call is a sequence of steps and
  the state of a goroutine says what its call has built so far. What the exporters, the listener
  and the shutdown functions answer is an argument of the step, the outcome. Providers, monitors
  and detectors are resources with a number; the process records which are live and the order in
  which they were released. The meter of a provider is the parameter \<open>meterOf\<close>.
\<close>

section \<open>The process\<close>

datatype meterProvider = NoopMeter | SdkMeter nat

datatype tracerProvider = NoopTracer | SdkTracer nat

datatype resource = RMeter nat | RTracer nat | RMonitor nat | RDetector nat

text \<open>A shutdown function: absent (nil), one that does nothing, or one that releases a provider.\<close>

datatype shutdownFn = NoFn | NoopFn | ReleaseFn resource

record ('opt, 'inst, 'set) telemetry =
  t_metricProvider :: meterProvider
  t_traceProvider :: "tracerProvider option"
  t_tracer :: "tracerProvider \<times> string"
  t_registry :: "('opt, 'inst, 'set) registry option"
  t_cardinality :: "nat option"
  t_monitor :: "nat option"
  t_shutdownFn :: shutdownFn
  t_traceShutdown :: shutdownFn
  t_allowedLabels :: "string list"
  t_cfg :: Config
  t_epoch :: u64
  t_started :: bool
  t_traceInstalled :: bool

record startProviders =
  sp_metricProvider :: meterProvider
  sp_traceProvider :: tracerProvider
  sp_shutdownFn :: shutdownFn
  sp_traceShutdown :: shutdownFn
  sp_traceInstalled :: bool

text \<open>
  Where a goroutine is. The detector and the cache it watches have one number, the address of the
  cache.
\<close>

datatype tel_pc =
    TelIdle
  | WantStart
  | Starting
  | HaveProviders startProviders
  | HaveCache startProviders addr "nat option"
  | HaveMonitor startProviders addr "nat option" "nat option"
  | RollingBack startProviders "nat option" "go_error option"
  | Clearing go_error
  | Binding "nat option" "nat option"
  | StartDone "go_error option"
  | WantShutdown
  | Stopping "nat option" shutdownFn shutdownFn "nat option" bool
  | Closing shutdownFn shutdownFn "nat option" bool
  | Restoring bool "go_error list"
  | ShutdownDone "go_error list"
  | WantAllow "string list"
  | Allowing "string list" "addr option"
  | AllowDone

record ('opt, 'inst, 'set) proc =
  p_tel :: "('opt, 'inst, 'set) telemetry"
  p_caches :: "addr \<Rightarrow> 'set attrCache"
  p_next :: nat
  p_live :: "resource set"
  p_released :: "resource list"
  p_bound :: "nat set"
  p_global :: tracerProvider
  p_propagator :: bool
  p_compression :: bool
  p_pcs :: "nat \<Rightarrow> tel_pc"

record outcome =
  o_meter :: "go_error option"
  o_tracer :: "go_error option"
  o_monitor :: "go_error option"
  o_meterShutdown :: "go_error option"
  o_traceShutdown :: "go_error option"
  o_monitorShutdown :: "go_error option"

type_synonym ('opt, 'inst) meters = "meterProvider \<Rightarrow> string \<Rightarrow> ('opt, 'inst) meter"

definition goto_tel :: "nat \<Rightarrow> tel_pc \<Rightarrow> ('opt, 'inst, 'set) proc \<Rightarrow> ('opt, 'inst, 'set) proc" where
  "goto_tel t pc p = p\<lparr>p_pcs := (p_pcs p)(t := pc)\<rparr>"

definition acquire :: "resource \<Rightarrow> ('opt, 'inst, 'set) proc \<Rightarrow> ('opt, 'inst, 'set) proc" where
  "acquire r p = p\<lparr>p_live := insert r (p_live p)\<rparr>"

definition release :: "resource \<Rightarrow> ('opt, 'inst, 'set) proc \<Rightarrow> ('opt, 'inst, 'set) proc" where
  "release r p = p\<lparr>p_live := p_live p - {r}, p_released := p_released p @ [r]\<rparr>"

fun run_fn :: "shutdownFn \<Rightarrow> ('opt, 'inst, 'set) proc \<Rightarrow> ('opt, 'inst, 'set) proc" where
  "run_fn NoFn p = p"
| "run_fn NoopFn p = p"
| "run_fn (ReleaseFn r) p = release r p"

definition release_monitor :: "nat option \<Rightarrow> ('opt, 'inst, 'set) proc \<Rightarrow> ('opt, 'inst, 'set) proc" where
  "release_monitor m p = (case m of None \<Rightarrow> p | Some n \<Rightarrow> release (RMonitor n) p)"

section \<open>Construction\<close>

definition refreshTracerLocked ::
  "tracerProvider \<Rightarrow> ('opt, 'inst, 'set) telemetry \<Rightarrow> ('opt, 'inst, 'set) telemetry" where
  "refreshTracerLocked glob t =
     (case t_traceProvider t of
        None \<Rightarrow> t\<lparr>t_tracer := (glob, cf_Service (t_cfg t))\<rparr>
      | Some tp \<Rightarrow> t\<lparr>t_tracer := (tp, cf_Service (t_cfg t))\<rparr>)"

definition refreshTracer :: "('opt, 'inst, 'set) proc \<Rightarrow> ('opt, 'inst, 'set) proc" where
  "refreshTracer p = p\<lparr>p_tel := refreshTracerLocked (p_global p) (p_tel p)\<rparr>"

text \<open>newTelemetry; its cache is at address 0, and its epoch counter at address 0 of its store.\<close>

definition newTelemetry ::
  "('opt, 'inst) meters \<Rightarrow> Config \<Rightarrow> ('opt, 'inst, 'set) telemetry" where
  "newTelemetry meterOf cfg =
     (let service = (if IsEmpty (cf_Service cfg) then defaultServiceUnknown else cf_Service cfg)
      in refreshTracerLocked NoopTracer
           \<lparr> t_metricProvider = NoopMeter, t_traceProvider = Some NoopTracer,
             t_tracer = (NoopTracer, []),
             t_registry = Some (newRegistryWithCache (meterOf NoopMeter service) 0 (Some 0) 0
               (maxInstrumentsFromCfg cfg)),
             t_cardinality = None, t_monitor = None, t_shutdownFn = NoFn, t_traceShutdown = NoFn,
             t_allowedLabels = [], t_cfg = cfg, t_epoch = 0, t_started = False,
             t_traceInstalled = False \<rparr>)"

definition new_proc ::
  "('opt, 'inst) meters \<Rightarrow> Config \<Rightarrow> ('opt, 'inst, 'set) proc" where
  "new_proc meterOf cfg =
     \<lparr> p_tel = newTelemetry meterOf cfg, p_caches = (\<lambda>a. newAttrCache defaultMaxCardinality),
       p_next = 1, p_live = {}, p_released = [], p_bound = {}, p_global = NoopTracer,
       p_propagator = False, p_compression = False, p_pcs = (\<lambda>t. TelIdle) \<rparr>"

section \<open>Start\<close>

definition configureExportCompression ::
  "bool \<Rightarrow> ('opt, 'inst, 'set) proc \<Rightarrow> ('opt, 'inst, 'set) proc" where
  "configureExportCompression enabled p =
     (if \<not> enabled then p else if p_compression p then p else p\<lparr>p_compression := True\<rparr>)"

definition new_meter_provider ::
  "outcome \<Rightarrow> ('opt, 'inst, 'set) proc
     \<Rightarrow> (go_error + meterProvider \<times> shutdownFn) \<times> ('opt, 'inst, 'set) proc" where
  "new_meter_provider out p =
     (case o_meter out of
        Some err \<Rightarrow> (Inl err, p)
      | None \<Rightarrow> let n = p_next p
                in (Inr (SdkMeter n, ReleaseFn (RMeter n)), acquire (RMeter n) (p\<lparr>p_next := n + 1\<rparr>)))"

definition newTracerProvider ::
  "outcome \<Rightarrow> Config \<Rightarrow> ('opt, 'inst, 'set) proc
     \<Rightarrow> (go_error + tracerProvider \<times> shutdownFn) \<times> ('opt, 'inst, 'set) proc" where
  "newTracerProvider out cfg p =
     (if \<not> tr_Enable (tl_Traces (cf_TelConfig cfg)) then (Inr (NoopTracer, NoopFn), p)
      else (case o_tracer out of
              Some err \<Rightarrow> (Inl err, p)
            | None \<Rightarrow> let n = p_next p
                      in (Inr (SdkTracer n, ReleaseFn (RTracer n)),
                          acquire (RTracer n) (p\<lparr>p_next := n + 1, p_propagator := True\<rparr>))))"

definition initProviders ::
  "outcome \<Rightarrow> ('opt, 'inst, 'set) proc \<Rightarrow> (go_error + startProviders) \<times> ('opt, 'inst, 'set) proc" where
  "initProviders out p =
     (let cfg = t_cfg (p_tel p);
          nothing = \<lparr> sp_metricProvider = NoopMeter, sp_traceProvider = NoopTracer,
                     sp_shutdownFn = NoFn, sp_traceShutdown = NoFn, sp_traceInstalled = False \<rparr>
      in if \<not> tl_Enable (cf_TelConfig cfg) then (Inr nothing, p)
         else (case new_meter_provider out
                      (configureExportCompression (tl_WithCompression (cf_TelConfig cfg)) p) of
                 (Inl err, p1) \<Rightarrow> (Inl err, p1)
               | (Inr (provider, shutdown), p1) \<Rightarrow>
                   (case newTracerProvider out cfg p1 of
                      (Inl err, p2) \<Rightarrow> (Inl err, run_fn shutdown p2)
                    | (Inr (tp, traceShutdown), p2) \<Rightarrow>
                        let sp = \<lparr> sp_metricProvider = provider, sp_traceProvider = tp,
                                   sp_shutdownFn = shutdown, sp_traceShutdown = traceShutdown,
                                   sp_traceInstalled = False \<rparr>
                        in if tr_Enable (tl_Traces (cf_TelConfig cfg))
                           then (Inr (sp\<lparr>sp_traceInstalled := True\<rparr>), p2\<lparr>p_global := tp\<rparr>)
                           else (Inr sp, p2))))"

definition rollbackStart ::
  "nat option \<Rightarrow> startProviders \<Rightarrow> ('opt, 'inst, 'set) proc \<Rightarrow> ('opt, 'inst, 'set) proc" where
  "rollbackStart monitor sp p =
     (let p1 = release_monitor monitor p;
          p2 = run_fn (sp_shutdownFn sp) p1;
          p3 = run_fn (sp_traceShutdown sp) p2
      in if sp_traceInstalled sp then p3\<lparr>p_global := NoopTracer\<rparr> else p3)"

definition detector_cfg :: "('opt, 'inst, 'set) proc \<Rightarrow> CardinalityDetectorConfig" where
  "detector_cfg p = mx_CardinalityDetector (tl_Metrics (cf_TelConfig (t_cfg (p_tel p))))"

text \<open>The cache of a Start: its bound, the deny mode, the labels allowed so far, the detector.\<close>

definition build_cache :: "('opt, 'inst, 'set) proc \<Rightarrow> 'set attrCache" where
  "build_cache p =
     (let cfg = detector_cfg p;
          maxCardinality = (if cs_MaxCardinality cfg \<le> 0 then defaultMaxCardinality
                            else cs_MaxCardinality cfg);
          cache = SetDenyUnknown (Some (newAttrCache maxCardinality)) (cs_DenyUnknown cfg);
          allowed = t_allowedLabels (p_tel p);
          cache1 = (if length allowed > 0 then Allow cache allowed else cache);
          cache2 = (if cs_Enable cfg then SetDetector cache1 (Some (newCardinalityDetector cfg))
                    else cache1)
      in the cache2)"

definition install ::
  "('opt, 'inst) meters \<Rightarrow> startProviders \<Rightarrow> addr \<Rightarrow> nat option \<Rightarrow> nat option
     \<Rightarrow> ('opt, 'inst, 'set) proc \<Rightarrow> ('opt, 'inst, 'set) proc" where
  "install meterOf sp a det monitor p =
     (let t = p_tel p;
          epoch = t_epoch t + 1;
          t1 = t\<lparr>t_epoch := epoch, t_metricProvider := sp_metricProvider sp,
                 t_traceProvider := Some (sp_traceProvider sp), t_shutdownFn := sp_shutdownFn sp,
                 t_traceShutdown := sp_traceShutdown sp, t_traceInstalled := sp_traceInstalled sp\<rparr>;
          t2 = refreshTracerLocked (p_global p) t1;
          t3 = t2\<lparr>t_registry := Some (newRegistryWithCache
                   (meterOf (t_metricProvider t2) (cf_Service (t_cfg t2))) a (Some 0) epoch
                   (maxInstrumentsFromCfg (t_cfg t2))),
                 t_cardinality := det, t_monitor := monitor, t_started := True\<rparr>
      in p\<lparr>p_tel := t3\<rparr>)"

section \<open>Shutdown\<close>

definition uninstall ::
  "('opt, 'inst) meters \<Rightarrow> ('opt, 'inst, 'set) proc \<Rightarrow> ('opt, 'inst, 'set) proc" where
  "uninstall meterOf p =
     (let t = p_tel p; a = p_next p; epoch = t_epoch t + 1;
          t1 = t\<lparr>t_started := False, t_epoch := epoch, t_cardinality := None, t_shutdownFn := NoFn,
                 t_traceShutdown := NoFn, t_monitor := None, t_traceInstalled := False,
                 t_metricProvider := NoopMeter, t_traceProvider := Some NoopTracer\<rparr>;
          t2 = refreshTracerLocked (p_global p) t1;
          t3 = t2\<lparr>t_registry := Some (newRegistryWithCache (meterOf NoopMeter ''noop'') a (Some 0)
                   epoch (maxInstrumentsFromCfg (t_cfg t2)))\<rparr>
      in p\<lparr>p_tel := t3, p_next := a + 1,
           p_caches := (p_caches p)(a := newAttrCache defaultMaxCardinality)\<rparr>)"

definition shutdown_errors :: "outcome \<Rightarrow> shutdownFn \<Rightarrow> shutdownFn \<Rightarrow> nat option \<Rightarrow> go_error list" where
  "shutdown_errors out sfn tfn monitor =
     (case (sfn, o_meterShutdown out) of
        (ReleaseFn r, Some e) \<Rightarrow> [''metric provider shutdown: '' @ e] | _ \<Rightarrow> []) @
     (case (tfn, o_traceShutdown out) of
        (ReleaseFn r, Some e) \<Rightarrow> [''trace provider shutdown: '' @ e] | _ \<Rightarrow> []) @
     (case (monitor, o_monitorShutdown out) of
        (Some n, Some e) \<Rightarrow> [''monitor shutdown: '' @ e] | _ \<Rightarrow> [])"

section \<open>The steps of a goroutine\<close>

text \<open>
  \<^const>\<open>None\<close> where the goroutine has nothing to do or waits: Stop of a detector waits for its
  goroutine, so for the Start that launches it.
\<close>

text \<open>Start, outside startMonitor.\<close>

definition start_step ::
  "('opt, 'inst) meters \<Rightarrow> outcome \<Rightarrow> nat \<Rightarrow> ('opt, 'inst, 'set) proc
     \<Rightarrow> ('opt, 'inst, 'set) proc option" where
  "start_step meterOf out t p =
     (let tel = p_tel p in
      case p_pcs p t of
        WantStart \<Rightarrow>
          if t_started tel then Some (goto_tel t (StartDone None) p) else Some (goto_tel t Starting p)
      | Starting \<Rightarrow>
          (case initProviders out (p\<lparr>p_propagator := True\<rparr>) of
             (Inl err, p1) \<Rightarrow> Some (goto_tel t (StartDone (Some err)) p1)
           | (Inr sp, p1) \<Rightarrow> Some (goto_tel t (HaveProviders sp) p1))
      | HaveProviders sp \<Rightarrow>
          (let a = p_next p;
               det = (if cs_Enable (detector_cfg p) then Some a else None)
           in Some (goto_tel t (HaveCache sp a det)
                (p\<lparr>p_next := a + 1, p_caches := (p_caches p)(a := build_cache p)\<rparr>)))
      | HaveMonitor sp a det monitor \<Rightarrow>
          if t_started tel then Some (goto_tel t (RollingBack sp monitor None) p)
          else Some (goto_tel t (Binding monitor det) (install meterOf sp a det monitor p))
      | RollingBack sp monitor err \<Rightarrow>
          (let p1 = rollbackStart monitor sp p
           in case err of None \<Rightarrow> Some (goto_tel t (StartDone None) p1)
              | Some e \<Rightarrow> Some (goto_tel t (Clearing e) p1))
      | Binding monitor det \<Rightarrow>
          (let p1 = (case monitor of None \<Rightarrow> p | Some n \<Rightarrow> p\<lparr>p_bound := insert n (p_bound p)\<rparr>);
               p2 = (case det of None \<Rightarrow> p1 | Some a \<Rightarrow> acquire (RDetector a) p1)
           in Some (goto_tel t (StartDone None) p2))
      | _ \<Rightarrow> None)"

text \<open>startMonitor: the listener, and what a failure clears after the rollback.\<close>

definition monitor_step ::
  "outcome \<Rightarrow> nat \<Rightarrow> ('opt, 'inst, 'set) proc
     \<Rightarrow> ('opt, 'inst, 'set) proc option" where
  "monitor_step out t p =
     (let tel = p_tel p in
      case p_pcs p t of
        HaveCache sp a det \<Rightarrow>
          if \<not> mc_Enable (cf_MonitorConfig (t_cfg tel))
          then Some (goto_tel t (HaveMonitor sp a det None) p)
          else (case o_monitor out of
                  Some err \<Rightarrow> Some (goto_tel t (RollingBack sp None (Some err)) p)
                | None \<Rightarrow>
                    let n = p_next p
                    in Some (goto_tel t (HaveMonitor sp a det (Some n))
                         (acquire (RMonitor n) (p\<lparr>p_next := n + 1\<rparr>))))
      | Clearing e \<Rightarrow>
          (let p1 = (if t_traceInstalled tel
                     then p\<lparr>p_global := NoopTracer, p_tel := tel\<lparr>t_traceInstalled := False\<rparr>\<rparr>
                     else p)
           in Some (goto_tel t (StartDone (Some e)) p1))
      | _ \<Rightarrow> None)"

text \<open>Shutdown.\<close>

definition shutdown_step ::
  "('opt, 'inst) meters \<Rightarrow> outcome \<Rightarrow> nat \<Rightarrow> ('opt, 'inst, 'set) proc
     \<Rightarrow> ('opt, 'inst, 'set) proc option" where
  "shutdown_step meterOf out t p =
     (let tel = p_tel p in
      case p_pcs p t of
        WantShutdown \<Rightarrow>
          if \<not> t_started tel then Some (goto_tel t (ShutdownDone []) p)
          else Some (goto_tel t (Stopping (t_cardinality tel) (t_shutdownFn tel) (t_traceShutdown tel)
                 (t_monitor tel) (t_traceInstalled tel)) (uninstall meterOf p))
      | Stopping det sfn tfn monitor installed \<Rightarrow>
          (case det of
             None \<Rightarrow> Some (goto_tel t (Closing sfn tfn monitor installed) p)
           | Some a \<Rightarrow>
               if RDetector a \<in> p_live p
               then Some (goto_tel t (Closing sfn tfn monitor installed) (release (RDetector a) p))
               else None)
      | Closing sfn tfn monitor installed \<Rightarrow>
          Some (goto_tel t (Restoring installed (shutdown_errors out sfn tfn monitor))
            (release_monitor monitor (run_fn tfn (run_fn sfn p))))
      | Restoring installed errs \<Rightarrow>
          Some (goto_tel t (ShutdownDone errs) (if installed then p\<lparr>p_global := NoopTracer\<rparr> else p))
      | _ \<Rightarrow> None)"

text \<open>AllowSubjects.\<close>

definition allow_subjects_step ::
  "nat \<Rightarrow> ('opt, 'inst, 'set) proc
     \<Rightarrow> ('opt, 'inst, 'set) proc option" where
  "allow_subjects_step t p =
     (let tel = p_tel p in
      case p_pcs p t of
        WantAllow labels \<Rightarrow>
          if labels = [] then Some (goto_tel t AllowDone p)
          else Some (goto_tel t (Allowing labels (map_option rg_cache (t_registry tel)))
                 (p\<lparr>p_tel := tel\<lparr>t_allowedLabels := t_allowedLabels tel @ labels\<rparr>\<rparr>))
      | Allowing labels cache \<Rightarrow>
          (case cache of
             None \<Rightarrow> Some (goto_tel t AllowDone p)
           | Some a \<Rightarrow> Some (goto_tel t AllowDone
               (p\<lparr>p_caches := (p_caches p)(a := the (Allow (Some (p_caches p a)) labels))\<rparr>)))
      | _ \<Rightarrow> None)"

definition tel_step ::
  "('opt, 'inst) meters \<Rightarrow> outcome \<Rightarrow> nat \<Rightarrow> ('opt, 'inst, 'set) proc
     \<Rightarrow> ('opt, 'inst, 'set) proc option" where
  "tel_step meterOf out t p =
     (case p_pcs p t of
        HaveCache sp a det \<Rightarrow> monitor_step out t p
      | Clearing e \<Rightarrow> monitor_step out t p
      | WantShutdown \<Rightarrow> shutdown_step meterOf out t p
      | Stopping det sfn tfn monitor installed \<Rightarrow> shutdown_step meterOf out t p
      | Closing sfn tfn monitor installed \<Rightarrow> shutdown_step meterOf out t p
      | Restoring installed errs \<Rightarrow> shutdown_step meterOf out t p
      | WantAllow labels \<Rightarrow> allow_subjects_step t p
      | Allowing labels cache \<Rightarrow> allow_subjects_step t p
      | _ \<Rightarrow> start_step meterOf out t p)"

lemmas tel_step_defs = tel_step_def start_step_def monitor_step_def shutdown_step_def
  allow_subjects_step_def

text \<open>A goroutine between calls may begin Start, Shutdown or AllowSubjects.\<close>

fun at_rest :: "tel_pc \<Rightarrow> bool" where
  "at_rest TelIdle = True"
| "at_rest (StartDone e) = True"
| "at_rest (ShutdownDone errs) = True"
| "at_rest AllowDone = True"
| "at_rest pc = False"

fun call_pc :: "tel_pc \<Rightarrow> bool" where
  "call_pc WantStart = True"
| "call_pc WantShutdown = True"
| "call_pc (WantAllow labels) = True"
| "call_pc pc = False"

fun_cases at_restE: "at_rest pc"
fun_cases call_pcE: "call_pc pc"

inductive tel_run :: "('opt, 'inst) meters \<Rightarrow> Config \<Rightarrow> ('opt, 'inst, 'set) proc \<Rightarrow> bool"
  for meterOf cfg where
  init: "tel_run meterOf cfg (new_proc meterOf cfg)"
| call: "tel_run meterOf cfg p \<Longrightarrow> at_rest (p_pcs p t) \<Longrightarrow> call_pc pc \<Longrightarrow>
    tel_run meterOf cfg (goto_tel t pc p)"
| step: "tel_run meterOf cfg p \<Longrightarrow> tel_step meterOf out t p = Some p' \<Longrightarrow> tel_run meterOf cfg p'"

datatype tel_event = Begin nat tel_pc | Go nat outcome

fun tel_exec :: "('opt, 'inst) meters \<Rightarrow> tel_event list \<Rightarrow> ('opt, 'inst, 'set) proc
    \<Rightarrow> ('opt, 'inst, 'set) proc option" where
  "tel_exec meterOf [] p = Some p"
| "tel_exec meterOf (Begin t pc # es) p =
     (if at_rest (p_pcs p t) \<and> call_pc pc then tel_exec meterOf es (goto_tel t pc p) else None)"
| "tel_exec meterOf (Go t out # es) p =
     (case tel_step meterOf out t p of None \<Rightarrow> None | Some p' \<Rightarrow> tel_exec meterOf es p')"

lemma tel_exec_run:
  "tel_run meterOf cfg p \<Longrightarrow> tel_exec meterOf es p = Some p' \<Longrightarrow> tel_run meterOf cfg p'"
proof (induction es arbitrary: p rule: list.induct)
  case (Cons e es)
  then show ?case
    by (cases e) (auto intro: tel_run.intros split: if_splits option.splits)
qed simp

section \<open>Reading the telemetry\<close>

definition tel_Registry ::
  "('opt, 'inst) meters \<Rightarrow> addr \<Rightarrow> ('opt, 'inst, 'set) telemetry \<Rightarrow> ('opt, 'inst, 'set) registry" where
  "tel_Registry meterOf a t =
     (case t_registry t of
        None \<Rightarrow> newRegistryWithCache (meterOf (t_metricProvider t) (cf_Service (t_cfg t))) a (Some 0)
                  (t_epoch t) (maxInstrumentsFromCfg (t_cfg t))
      | Some r \<Rightarrow> r)"

definition tel_Tracer :: "tracerProvider \<Rightarrow> string \<Rightarrow> ('opt, 'inst, 'set) telemetry \<Rightarrow> tracerProvider \<times> string" where
  "tel_Tracer glob name t =
     (case t_traceProvider t of None \<Rightarrow> (glob, name) | Some tp \<Rightarrow> (tp, name))"

end
