(* ===== verification/Lifecycle_Correct.thy ===== *)
theory Lifecycle_Correct
  imports Lifecycle
begin

text \<open>
  The invariants of the lifecycle under any interleaving of Start, Shutdown and AllowSubjects:
  every live provider and monitor has exactly one owner, the telemetry or a goroutine inside a
  call, and nothing is released twice; the installed registry is always of the current epoch.
\<close>

section \<open>Owners\<close>

fun is_det :: "resource \<Rightarrow> bool" where
  "is_det (RDetector n) = True"
| "is_det r = False"

fun res_num :: "resource \<Rightarrow> nat" where
  "res_num (RMeter n) = n"
| "res_num (RTracer n) = n"
| "res_num (RMonitor n) = n"
| "res_num (RDetector n) = n"

fun fn_res :: "shutdownFn \<Rightarrow> resource set" where
  "fn_res (ReleaseFn r) = {r}"
| "fn_res f = {}"

definition mon_res :: "nat option \<Rightarrow> resource set" where
  "mon_res m = RMonitor ` set_option m"

definition sp_res :: "startProviders \<Rightarrow> resource set" where
  "sp_res sp = fn_res (sp_shutdownFn sp) \<union> fn_res (sp_traceShutdown sp)"

fun pc_res :: "tel_pc \<Rightarrow> resource set" where
  "pc_res (HaveProviders sp) = sp_res sp"
| "pc_res (HaveCache sp a det) = sp_res sp"
| "pc_res (HaveMonitor sp a det m) = sp_res sp \<union> mon_res m"
| "pc_res (RollingBack sp m e) = sp_res sp \<union> mon_res m"
| "pc_res (Stopping det sfn tfn m i) = fn_res sfn \<union> fn_res tfn \<union> mon_res m"
| "pc_res (Closing sfn tfn m i) = fn_res sfn \<union> fn_res tfn \<union> mon_res m"
| "pc_res pc = {}"

definition tel_res :: "('opt, 'inst, 'set) telemetry \<Rightarrow> resource set" where
  "tel_res t = fn_res (t_shutdownFn t) \<union> fn_res (t_traceShutdown t) \<union> mon_res (t_monitor t)"

text \<open>An owner is \<^const>\<open>None\<close>, the telemetry, or a goroutine.\<close>

definition held :: "('opt, 'inst, 'set) proc \<Rightarrow> nat option \<Rightarrow> resource set" where
  "held p h = (case h of None \<Rightarrow> tel_res (p_tel p) | Some t \<Rightarrow> pc_res (p_pcs p t))"

definition live_ext :: "('opt, 'inst, 'set) proc \<Rightarrow> resource set" where
  "live_ext p = {r \<in> p_live p. \<not> is_det r}"

definition released_ext :: "('opt, 'inst, 'set) proc \<Rightarrow> resource list" where
  "released_ext p = filter (\<lambda>r. \<not> is_det r) (p_released p)"

text \<open>Shutdown functions of the meter slot release meters, those of the trace slot tracers.\<close>

definition meter_fn :: "shutdownFn \<Rightarrow> bool" where
  "meter_fn f \<longleftrightarrow> (\<forall>r. f = ReleaseFn r \<longrightarrow> (\<exists>n. r = RMeter n))"

definition trace_fn :: "shutdownFn \<Rightarrow> bool" where
  "trace_fn f \<longleftrightarrow> (\<forall>r. f = ReleaseFn r \<longrightarrow> (\<exists>n. r = RTracer n))"

definition sp_typed :: "startProviders \<Rightarrow> bool" where
  "sp_typed sp \<longleftrightarrow> meter_fn (sp_shutdownFn sp) \<and> trace_fn (sp_traceShutdown sp)"

fun pc_typed :: "tel_pc \<Rightarrow> bool" where
  "pc_typed (HaveProviders sp) = sp_typed sp"
| "pc_typed (HaveCache sp a det) = sp_typed sp"
| "pc_typed (HaveMonitor sp a det m) = sp_typed sp"
| "pc_typed (RollingBack sp m e) = sp_typed sp"
| "pc_typed (Stopping det sfn tfn m i) = (meter_fn sfn \<and> trace_fn tfn)"
| "pc_typed (Closing sfn tfn m i) = (meter_fn sfn \<and> trace_fn tfn)"
| "pc_typed pc = True"

definition typed :: "('opt, 'inst, 'set) proc \<Rightarrow> bool" where
  "typed p \<longleftrightarrow> (\<forall>t. pc_typed (p_pcs p t)) \<and> meter_fn (t_shutdownFn (p_tel p)) \<and>
     trace_fn (t_traceShutdown (p_tel p))"

definition owned_ok :: "('opt, 'inst, 'set) proc \<Rightarrow> bool" where
  "owned_ok p \<longleftrightarrow> (\<forall>h h'. h \<noteq> h' \<longrightarrow> held p h \<inter> held p h' = {}) \<and>
     live_ext p = (\<Union>h. held p h) \<and> distinct (released_ext p) \<and>
     set (released_ext p) \<inter> live_ext p = {} \<and>
     (\<forall>r \<in> live_ext p \<union> set (released_ext p). res_num r < p_next p) \<and>
     (\<not> t_started (p_tel p) \<longrightarrow> held p None = {})"

lemma owners_split:
  "(\<Union>h. held q h) = held q None \<union> held q (Some t) \<union> (\<Union>h \<in> - {None, Some t}. held q h)"
  (is "?l = ?r")
proof -
  have "?l = (\<Union>h \<in> {None, Some t} \<union> - {None, Some t}. held q h)"
    by simp
  also have "\<dots> = ?r"
    by (simp only: UN_Un UN_insert UN_empty Un_empty_right Un_assoc)
  finally show ?thesis .
qed

text \<open>
  Every step takes some fresh resources, releases some of the goroutine's, and redistributes the
  rest between the goroutine and the telemetry.
\<close>

lemma owned_move:
  assumes ok: "owned_ok p"
    and other: "\<And>h. h \<noteq> Some t \<Longrightarrow> h \<noteq> None \<Longrightarrow> held p' h = held p h"
    and union: "held p' None \<union> held p' (Some t) = (held p None \<union> held p (Some t) \<union> F) - set ds"
    and disj: "held p' None \<inter> held p' (Some t) = {}"
    and live: "live_ext p' = (live_ext p \<union> F) - set ds"
    and rel: "released_ext p' = released_ext p @ ds" and "distinct ds"
    and mine: "set ds \<subseteq> held p None \<union> held p (Some t) \<union> F"
    and fresh: "\<forall>r \<in> F. p_next p \<le> res_num r \<and> res_num r < p_next p'" and "p_next p \<le> p_next p'"
    and started: "\<not> t_started (p_tel p') \<Longrightarrow> held p' None = {}"
  shows "owned_ok p'"
proof -
  let ?R = "held p None \<union> held p (Some t)"
  have ex: "\<And>h h'. h \<noteq> h' \<Longrightarrow> held p h \<inter> held p h' = {}" and all: "live_ext p = (\<Union>h. held p h)"
    and rest: "distinct (released_ext p)" "set (released_ext p) \<inter> live_ext p = {}"
      "\<forall>r \<in> live_ext p \<union> set (released_ext p). res_num r < p_next p"
    using ok unfolding owned_ok_def by blast+
  have new: "r \<notin> live_ext p \<and> r \<notin> set (released_ext p)" if "r \<in> F" for r
    using bspec [OF fresh that] rest(3) by (meson Un_iff leD)
  have apart: "held p h \<inter> (?R \<union> F) = {}" if "h \<noteq> Some t" "h \<noteq> None" for h
    using ex [of h None] ex [of h "Some t"] that new all by blast
  have excl: "held p' h \<inter> held p' h' = {}" if "h \<noteq> h'" for h h'
  proof (cases "h \<in> {None, Some t}"; cases "h' \<in> {None, Some t}")
    assume "h \<in> {None, Some t}" "h' \<in> {None, Some t}"
    then show ?thesis using disj that by auto
  next
    assume "h \<in> {None, Some t}" "h' \<notin> {None, Some t}"
    then show ?thesis using apart [of h'] other [of h'] union by blast
  next
    assume "h \<notin> {None, Some t}" "h' \<in> {None, Some t}"
    then show ?thesis using apart [of h] other [of h] union by blast
  next
    assume "h \<notin> {None, Some t}" "h' \<notin> {None, Some t}"
    then show ?thesis using other ex [OF that] by auto
  qed
  let ?others = "\<lambda>q. \<Union>h \<in> - {None, Some t}. held q h"
  have same: "?others p' = ?others p"
    using other by (intro SUP_cong) auto
  have keep: "?others p \<inter> set ds = {}"
    using apart mine by blast
  have "live_ext p' = (held p None \<union> held p (Some t) \<union> ?others p \<union> F) - set ds"
    unfolding live all owners_split [of p t] ..
  then have all': "live_ext p' = (\<Union>h. held p' h)"
    unfolding owners_split [of p' t] same using keep union by blast
  have mine_live: "set ds \<subseteq> live_ext p \<union> F"
    using mine unfolding all by blast
  have "set ds \<inter> set (released_ext p) = {}"
    using mine_live new rest(2) by blast
  then have dist: "distinct (released_ext p')"
    unfolding rel using rest(1) assms(7) by (simp add: Int_commute)
  have gone: "set (released_ext p') \<inter> live_ext p' = {}"
    unfolding rel live using rest(2) new by auto
  have "live_ext p' \<union> set (released_ext p') \<subseteq> live_ext p \<union> set (released_ext p) \<union> F"
    unfolding rel live using mine_live by auto
  then have num: "\<forall>r \<in> live_ext p' \<union> set (released_ext p'). res_num r < p_next p'"
    using rest(3) fresh assms(10) by (blast intro: less_le_trans)
  show ?thesis
    unfolding owned_ok_def using excl all' dist gone num started by blast
qed

lemma owned_goto:
  assumes ok: "owned_ok p" and pcs: "p_pcs q = p_pcs p"
    and union: "tel_res (p_tel q) \<union> pc_res pc =
      (tel_res (p_tel p) \<union> pc_res (p_pcs p t) \<union> F) - set ds"
    and disj: "tel_res (p_tel q) \<inter> pc_res pc = {}"
    and live: "live_ext q = (live_ext p \<union> F) - set ds"
    and rel: "released_ext q = released_ext p @ ds" and "distinct ds"
    and mine: "set ds \<subseteq> tel_res (p_tel p) \<union> pc_res (p_pcs p t) \<union> F"
    and fresh: "\<forall>r \<in> F. p_next p \<le> res_num r \<and> res_num r < p_next q" and "p_next p \<le> p_next q"
    and started: "\<not> t_started (p_tel q) \<Longrightarrow> tel_res (p_tel q) = {}"
  shows "owned_ok (goto_tel t pc q)"
proof (rule owned_move [OF ok, where t = t and F = F and ds = ds])
  fix h
  assume "h \<noteq> Some t" "h \<noteq> None"
  then show "held (goto_tel t pc q) h = held p h"
    by (auto simp: held_def goto_tel_def pcs split: option.split)
qed (use assms in \<open>simp_all add: held_def goto_tel_def live_ext_def released_ext_def\<close>)

section \<open>What the operations do to the resources\<close>

fun fn_list :: "shutdownFn \<Rightarrow> resource list" where
  "fn_list (ReleaseFn r) = [r]"
| "fn_list f = []"

definition mon_list :: "nat option \<Rightarrow> resource list" where
  "mon_list m = (case m of None \<Rightarrow> [] | Some n \<Rightarrow> [RMonitor n])"

lemma set_fn_list [simp]: "set (fn_list f) = fn_res f"
  by (cases f) auto

lemma set_mon_list [simp]: "set (mon_list m) = mon_res m"
  by (cases m) (auto simp: mon_list_def mon_res_def)

lemma mon_res_simps [simp]: "mon_res None = {}" "mon_res (Some n) = {RMonitor n}"
  by (auto simp: mon_res_def)

lemma run_fn_frame [simp]:
  "p_tel (run_fn f p) = p_tel p" "p_pcs (run_fn f p) = p_pcs p" "p_next (run_fn f p) = p_next p"
  "p_caches (run_fn f p) = p_caches p" "p_global (run_fn f p) = p_global p"
  by (cases f; simp add: release_def)+

lemma run_fn_live [simp]:
  "live_ext (run_fn f p) = live_ext p - fn_res f"
  by (cases f) (auto simp: live_ext_def release_def)

lemma typed_fn_no_det:
  "meter_fn f \<or> trace_fn f \<Longrightarrow> filter (\<lambda>r. \<not> is_det r) (fn_list f) = fn_list f"
  by (cases f) (auto simp: meter_fn_def trace_fn_def)

lemma run_fn_released:
  "meter_fn f \<or> trace_fn f \<Longrightarrow> released_ext (run_fn f p) = released_ext p @ fn_list f"
  using typed_fn_no_det [of f] by (cases f) (auto simp: released_ext_def release_def)

lemma release_monitor_frame [simp]:
  "p_tel (release_monitor m p) = p_tel p" "p_pcs (release_monitor m p) = p_pcs p"
  "p_next (release_monitor m p) = p_next p" "p_caches (release_monitor m p) = p_caches p"
  "p_global (release_monitor m p) = p_global p"
  "live_ext (release_monitor m p) = live_ext p - mon_res m"
  "released_ext (release_monitor m p) = released_ext p @ mon_list m"
  by (cases m; auto simp: release_monitor_def release_def live_ext_def released_ext_def mon_list_def)+

lemma typed_lists_distinct:
  "meter_fn f \<Longrightarrow> trace_fn g \<Longrightarrow> distinct (fn_list f @ fn_list g @ mon_list m) \<and>
     distinct (mon_list m @ fn_list f @ fn_list g)"
  by (cases f; cases g; cases m) (auto simp: meter_fn_def trace_fn_def mon_list_def)

lemma rollback_effect:
  assumes "sp_typed sp"
  shows "p_tel (rollbackStart m sp p) = p_tel p" "p_pcs (rollbackStart m sp p) = p_pcs p"
    "p_next (rollbackStart m sp p) = p_next p"
    "live_ext (rollbackStart m sp p) = live_ext p - (mon_res m \<union> sp_res sp)"
    "released_ext (rollbackStart m sp p) =
       released_ext p @ (mon_list m @ fn_list (sp_shutdownFn sp) @ fn_list (sp_traceShutdown sp))"
proof -
  have upd: "live_ext (q\<lparr>p_global := g\<rparr>) = live_ext q" "released_ext (q\<lparr>p_global := g\<rparr>) = released_ext q"
    for q :: "('a, 'b, 'c) proc" and g
    by (simp_all add: live_ext_def released_ext_def)
  have fns: "meter_fn (sp_shutdownFn sp)" "trace_fn (sp_traceShutdown sp)"
    using assms by (simp_all add: sp_typed_def)
  show "live_ext (rollbackStart m sp p) = live_ext p - (mon_res m \<union> sp_res sp)"
    by (auto simp: rollbackStart_def Let_def upd sp_res_def)
  show "released_ext (rollbackStart m sp p) =
       released_ext p @ (mon_list m @ fn_list (sp_shutdownFn sp) @ fn_list (sp_traceShutdown sp))"
    using fns by (simp add: rollbackStart_def Let_def upd run_fn_released)
qed (simp_all add: rollbackStart_def Let_def)

lemma new_meter_effect:
  "new_meter_provider out p =
     (case o_meter out of Some err \<Rightarrow> (Inl err, p)
      | None \<Rightarrow> (Inr (SdkMeter (p_next p), ReleaseFn (RMeter (p_next p))),
                 p\<lparr>p_next := p_next p + 1, p_live := insert (RMeter (p_next p)) (p_live p)\<rparr>))"
  by (simp add: new_meter_provider_def acquire_def Let_def split: option.split)

text \<open>What initProviders built; a failure releases what it had acquired.\<close>

definition fresh_res :: "resource set \<Rightarrow> nat \<Rightarrow> nat \<Rightarrow> bool" where
  "fresh_res F n n' \<longleftrightarrow> n \<le> n' \<and> (\<forall>r \<in> F. n \<le> res_num r \<and> res_num r < n')"

lemma initProviders_frame:
  assumes "initProviders out p = (res, p1)"
  shows "p_tel p1 = p_tel p \<and> p_pcs p1 = p_pcs p"
  using assms
  by (auto simp: initProviders_def Let_def new_meter_effect newTracerProvider_def acquire_def
      configureExportCompression_def release_def split: if_splits option.splits)

lemma initProviders_fails:
  assumes "initProviders out p = (Inl err, p1)"
  shows "\<exists>ds. distinct ds \<and> released_ext p1 = released_ext p @ ds \<and>
    live_ext p1 = (live_ext p \<union> set ds) - set ds \<and> fresh_res (set ds) (p_next p) (p_next p1)"
proof (cases "o_meter out")
  case None
  let ?r = "RMeter (p_next p)"
  have "released_ext p1 = released_ext p @ [?r]" "live_ext p1 = live_ext p - {?r}"
    "p_next p1 = p_next p + 1"
    using assms None
    by (auto simp: initProviders_def Let_def new_meter_effect newTracerProvider_def acquire_def
        configureExportCompression_def live_ext_def released_ext_def release_def
        split: if_splits option.splits)
  then show ?thesis
    by (intro exI [where x = "[?r]"]) (auto simp: fresh_res_def)
next
  case (Some e)
  then have "released_ext p1 = released_ext p" "live_ext p1 = live_ext p" "p_next p1 = p_next p"
    using assms
    by (auto simp: initProviders_def Let_def new_meter_effect configureExportCompression_def
        live_ext_def released_ext_def split: if_splits)
  then show ?thesis
    by (intro exI [where x = "[]"]) (auto simp: fresh_res_def)
qed

lemma initProviders_builds:
  assumes "initProviders out p = (Inr sp, p1)"
  shows "sp_typed sp \<and> released_ext p1 = released_ext p \<and> live_ext p1 = live_ext p \<union> sp_res sp \<and>
    fresh_res (sp_res sp) (p_next p) (p_next p1)"
  using assms
  by (auto simp: initProviders_def Let_def new_meter_effect newTracerProvider_def acquire_def
      configureExportCompression_def live_ext_def released_ext_def sp_typed_def sp_res_def
      meter_fn_def trace_fn_def fresh_res_def split: if_splits option.splits)

section \<open>The invariant\<close>

definition registry_current :: "('opt, 'inst, 'set) proc \<Rightarrow> bool" where
  "registry_current p \<longleftrightarrow> (\<exists>r. t_registry (p_tel p) = Some r \<and> rg_epoch r = t_epoch (p_tel p) \<and>
     rg_epochPtr r = Some 0)"

lemma owned_idle_move:
  assumes "owned_ok p" "p_pcs q = p_pcs p" "tel_res (p_tel q) = tel_res (p_tel p)"
    "live_ext q = live_ext p" "released_ext q = released_ext p" "p_next p \<le> p_next q"
    "t_started (p_tel q) = t_started (p_tel p)" "pc_res pc = pc_res (p_pcs p t)"
  shows "owned_ok (goto_tel t pc q)"
proof (rule owned_goto [where p = p and F = "{}" and ds = "[]"])
  have "held p None \<inter> held p (Some t) = {}"
    using assms(1) unfolding owned_ok_def by blast
  then show "tel_res (p_tel q) \<inter> pc_res pc = {}"
    using assms by (simp add: held_def)
  have "\<not> t_started (p_tel p) \<longrightarrow> held p None = {}"
    using assms(1) unfolding owned_ok_def by blast
  then show "tel_res (p_tel q) = {}" if "\<not> t_started (p_tel q)"
    using that assms by (simp add: held_def)
qed (use assms in auto)

lemma typed_goto:
  "typed p \<Longrightarrow> p_pcs q = p_pcs p \<Longrightarrow> pc_typed pc \<Longrightarrow> meter_fn (t_shutdownFn (p_tel q)) \<Longrightarrow>
    trace_fn (t_traceShutdown (p_tel q)) \<Longrightarrow> typed (goto_tel t pc q)"
  by (simp add: typed_def goto_tel_def)

lemma typed_fns:
  "typed p \<Longrightarrow> pc_typed (p_pcs p t)"
  "typed p \<Longrightarrow> meter_fn (t_shutdownFn (p_tel p))"
  "typed p \<Longrightarrow> trace_fn (t_traceShutdown (p_tel p))"
  "meter_fn NoFn" "trace_fn NoFn"
  by (simp_all add: typed_def meter_fn_def trace_fn_def)

lemma refresh_frame [simp]:
  "t_registry (refreshTracerLocked g t) = t_registry t" "t_epoch (refreshTracerLocked g t) = t_epoch t"
  "t_shutdownFn (refreshTracerLocked g t) = t_shutdownFn t"
  "t_traceShutdown (refreshTracerLocked g t) = t_traceShutdown t"
  "t_monitor (refreshTracerLocked g t) = t_monitor t" "t_started (refreshTracerLocked g t) = t_started t"
  "t_cfg (refreshTracerLocked g t) = t_cfg t"
  "t_traceProvider (refreshTracerLocked g t) = t_traceProvider t"
  "t_metricProvider (refreshTracerLocked g t) = t_metricProvider t"
  "t_traceInstalled (refreshTracerLocked g t) = t_traceInstalled t"
  "t_cardinality (refreshTracerLocked g t) = t_cardinality t"
  "t_allowedLabels (refreshTracerLocked g t) = t_allowedLabels t"
  by (simp_all add: refreshTracerLocked_def split: option.split)

definition life_ok :: "('opt, 'inst, 'set) proc \<Rightarrow> bool" where
  "life_ok p \<longleftrightarrow> typed p \<and> owned_ok p \<and> registry_current p"

lemma life_idle_move:
  assumes "life_ok p" "p_pcs q = p_pcs p"
    "t_shutdownFn (p_tel q) = t_shutdownFn (p_tel p)"
    "t_traceShutdown (p_tel q) = t_traceShutdown (p_tel p)" "t_monitor (p_tel q) = t_monitor (p_tel p)"
    "t_registry (p_tel q) = t_registry (p_tel p)" "t_epoch (p_tel q) = t_epoch (p_tel p)"
    "live_ext q = live_ext p" "released_ext q = released_ext p" "p_next p \<le> p_next q"
    "t_started (p_tel q) = t_started (p_tel p)" "pc_res pc = pc_res (p_pcs p t)" "pc_typed pc"
  shows "life_ok (goto_tel t pc q)"
proof -
  have "typed (goto_tel t pc q)"
    by (rule typed_goto [of p]) (use assms in \<open>simp_all add: life_ok_def typed_fns\<close>)
  moreover have "owned_ok (goto_tel t pc q)"
    by (rule owned_idle_move [of p]) (use assms in \<open>simp_all add: life_ok_def tel_res_def\<close>)
  moreover have "registry_current (goto_tel t pc q)"
    using assms by (simp add: life_ok_def registry_current_def goto_tel_def)
  ultimately show ?thesis by (simp add: life_ok_def)
qed

text \<open>A goroutine that leaves the telemetry alone and acquires or releases resources of its own.\<close>

lemma life_own_move:
  assumes ok: "life_ok p" and same: "p_pcs q = p_pcs p" "p_tel q = p_tel p"
    and union: "pc_res pc = (pc_res (p_pcs p t) \<union> F) - set ds"
    and live: "live_ext q = (live_ext p \<union> F) - set ds"
    and rel: "released_ext q = released_ext p @ ds" "distinct ds"
    and mine: "set ds \<subseteq> pc_res (p_pcs p t) \<union> F"
    and fresh: "fresh_res F (p_next p) (p_next q)" and "pc_typed pc"
  shows "life_ok (goto_tel t pc q)"
proof -
  have own: "owned_ok p" using ok by (simp add: life_ok_def)
  have apart: "tel_res (p_tel p) \<inter> pc_res (p_pcs p t) = {}"
    using own unfolding owned_ok_def by (metis held_def option.case option.distinct(1))
  have old: "res_num r < p_next p" if "r \<in> tel_res (p_tel p)" for r
  proof -
    have "r \<in> live_ext p"
      using own that unfolding owned_ok_def by (metis UN_I UNIV_I held_def option.case(1))
    then show ?thesis using own unfolding owned_ok_def by blast
  qed
  then have "tel_res (p_tel p) \<inter> F = {}"
    using fresh unfolding fresh_res_def by fastforce
  then have disj: "tel_res (p_tel p) \<inter> (pc_res (p_pcs p t) \<union> F) = {}"
    using apart by blast
  have "owned_ok (goto_tel t pc q)"
  proof (rule owned_goto [OF own same(1), where F = F and ds = ds])
    show "tel_res (p_tel q) \<union> pc_res pc =
        (tel_res (p_tel p) \<union> pc_res (p_pcs p t) \<union> F) - set ds"
      unfolding same union using disj mine by blast
    show "tel_res (p_tel q) \<inter> pc_res pc = {}"
      unfolding same union using disj by blast
    show "tel_res (p_tel q) = {}" if "\<not> t_started (p_tel q)"
      using own that unfolding owned_ok_def same by (simp add: held_def)
  qed (use live rel mine fresh in \<open>auto simp: fresh_res_def\<close>)
  moreover have "typed (goto_tel t pc q)"
    by (rule typed_goto [of p]) (use assms in \<open>simp_all add: life_ok_def typed_fns\<close>)
  moreover have "registry_current (goto_tel t pc q)"
    using assms by (simp add: life_ok_def registry_current_def goto_tel_def)
  ultimately show ?thesis by (simp add: life_ok_def)
qed

lemma life_install:
  assumes ok: "life_ok p" and "\<not> t_started (p_tel p)"
    and pc: "p_pcs p t = HaveMonitor sp a det m"
  shows "life_ok (goto_tel t (Binding m det) (install meterOf sp a det m p))"
proof -
  have own: "owned_ok p" and ty: "sp_typed sp"
    using ok pc typed_fns(1) [of p t] by (simp_all add: life_ok_def)
  have none: "tel_res (p_tel p) = {}"
    using own assms(2) unfolding owned_ok_def by (simp add: held_def)
  let ?q = "install meterOf sp a det m p"
  have "owned_ok (goto_tel t (Binding m det) ?q)"
    by (rule owned_goto [OF own, where F = "{}" and ds = "[]"])
      (use none in \<open>simp_all add: install_def Let_def pc tel_res_def sp_res_def live_ext_def released_ext_def\<close>)
  moreover have "typed (goto_tel t (Binding m det) ?q)"
    by (rule typed_goto [of p])
      (use ok ty in \<open>simp_all add: life_ok_def install_def Let_def sp_typed_def\<close>)
  moreover have "registry_current (goto_tel t (Binding m det) ?q)"
    by (simp add: registry_current_def goto_tel_def install_def Let_def newRegistryWithCache_def)
  ultimately show ?thesis by (simp add: life_ok_def)
qed

lemma life_uninstall:
  assumes ok: "life_ok p" and pc: "p_pcs p t = WantShutdown"
  shows "life_ok (goto_tel t (Stopping (t_cardinality (p_tel p)) (t_shutdownFn (p_tel p))
    (t_traceShutdown (p_tel p)) (t_monitor (p_tel p)) (t_traceInstalled (p_tel p)))
    (uninstall meterOf p))" (is "life_ok (goto_tel t ?pc ?q)")
proof -
  have own: "owned_ok p" and ty: "meter_fn (t_shutdownFn (p_tel p))" "trace_fn (t_traceShutdown (p_tel p))"
    using ok typed_fns(2,3) by (auto simp: life_ok_def)
  have "owned_ok (goto_tel t ?pc ?q)"
    by (rule owned_goto [OF own, where F = "{}" and ds = "[]"])
      (simp_all add: uninstall_def Let_def pc tel_res_def live_ext_def released_ext_def)
  moreover have "typed (goto_tel t ?pc ?q)"
    by (rule typed_goto [of p])
      (use ok ty in \<open>simp_all add: life_ok_def uninstall_def Let_def typed_fns\<close>)
  moreover have "registry_current (goto_tel t ?pc ?q)"
    by (simp add: registry_current_def goto_tel_def uninstall_def Let_def newRegistryWithCache_def)
  ultimately show ?thesis by (simp add: life_ok_def)
qed

lemma life_starting:
  assumes ok: "life_ok p" and pc: "p_pcs p t = Starting"
    and step: "tel_step meterOf out t p = Some p'"
  shows "life_ok p'"
proof -
  let ?p = "p\<lparr>p_propagator := True\<rparr>"
  have ext: "live_ext ?p = live_ext p" "released_ext ?p = released_ext p"
    by (simp_all add: live_ext_def released_ext_def)
  obtain res p1 where init: "initProviders out ?p = (res, p1)"
    by (cases "initProviders out ?p")
  have frame: "p_tel p1 = p_tel p" "p_pcs p1 = p_pcs p"
    using initProviders_frame [OF init] by simp_all
  show ?thesis
  proof (cases res)
    case (Inl err)
    obtain ds where ds: "distinct ds" "released_ext p1 = released_ext p @ ds"
      "live_ext p1 = (live_ext p \<union> set ds) - set ds" "fresh_res (set ds) (p_next p) (p_next p1)"
      using initProviders_fails [OF init [unfolded Inl]] by (auto simp: ext)
    have "life_ok (goto_tel t (StartDone (Some err)) p1)"
      by (rule life_own_move [OF ok frame(2,1), where F = "set ds" and ds = ds])
        (use ds in \<open>simp_all add: pc\<close>)
    then show ?thesis using step by (simp add: tel_step_defs pc init Inl Let_def)
  next
    case (Inr sp)
    have "life_ok (goto_tel t (HaveProviders sp) p1)"
      by (rule life_own_move [OF ok frame(2,1), where F = "sp_res sp" and ds = "[]"])
        (use initProviders_builds [OF init [unfolded Inr]] in \<open>simp_all add: pc ext\<close>)
    then show ?thesis using step by (simp add: tel_step_defs pc init Inr Let_def)
  qed
qed

lemma life_rollback:
  assumes ok: "life_ok p" and pc: "p_pcs p t = RollingBack sp m e" and "pc_res pc' = {}" "pc_typed pc'"
  shows "life_ok (goto_tel t pc' (rollbackStart m sp p))"
proof -
  have ty: "sp_typed sp"
    using ok pc typed_fns(1) [of p t] by (simp add: life_ok_def)
  note eff = rollback_effect [OF ty]
  let ?ds = "mon_list m @ fn_list (sp_shutdownFn sp) @ fn_list (sp_traceShutdown sp)"
  have ds: "set ?ds = mon_res m \<union> sp_res sp" "distinct ?ds"
    using ty typed_lists_distinct [of "sp_shutdownFn sp" "sp_traceShutdown sp" m]
    by (simp_all add: sp_res_def sp_typed_def)
  show ?thesis
    by (rule life_own_move [OF ok eff(2,1), where F = "{}" and ds = ?ds])
      (use ds assms in \<open>simp_all add: pc eff fresh_res_def Un_commute del: set_append\<close>)
qed

lemma life_closing:
  assumes ok: "life_ok p" and pc: "p_pcs p t = Closing sfn tfn m i"
  shows "life_ok (goto_tel t (Restoring i errs) (release_monitor m (run_fn tfn (run_fn sfn p))))"
proof -
  have ty: "meter_fn sfn" "trace_fn tfn"
    using ok pc typed_fns(1) [of p t] by (simp_all add: life_ok_def)
  let ?ds = "fn_list sfn @ fn_list tfn @ mon_list m"
  have ds: "set ?ds = fn_res sfn \<union> fn_res tfn \<union> mon_res m" "distinct ?ds"
    using typed_lists_distinct [OF ty] by auto
  have rel: "released_ext (release_monitor m (run_fn tfn (run_fn sfn p))) = released_ext p @ ?ds"
    using ty by (simp add: run_fn_released)
  show ?thesis
    by (rule life_own_move [OF ok, where F = "{}" and ds = ?ds])
      (use ds rel in \<open>auto simp: pc fresh_res_def\<close>)
qed

lemma live_ext_upd [simp]:
  "live_ext (p\<lparr>p_tel := x\<rparr>) = live_ext p" "live_ext (p\<lparr>p_caches := c\<rparr>) = live_ext p"
  "live_ext (p\<lparr>p_global := g\<rparr>) = live_ext p" "live_ext (p\<lparr>p_next := n\<rparr>) = live_ext p"
  "live_ext (p\<lparr>p_bound := b\<rparr>) = live_ext p" "live_ext (acquire (RDetector a) p) = live_ext p"
  "live_ext (release (RDetector a) p) = live_ext p"
  by (auto simp: live_ext_def acquire_def release_def)

lemma released_ext_upd [simp]:
  "released_ext (p\<lparr>p_tel := x\<rparr>) = released_ext p" "released_ext (p\<lparr>p_caches := c\<rparr>) = released_ext p"
  "released_ext (p\<lparr>p_global := g\<rparr>) = released_ext p" "released_ext (p\<lparr>p_next := n\<rparr>) = released_ext p"
  "released_ext (p\<lparr>p_bound := b\<rparr>) = released_ext p" "released_ext (acquire r p) = released_ext p"
  "released_ext (release (RDetector a) p) = released_ext p"
  by (auto simp: released_ext_def acquire_def release_def)

lemma life_monitor:
  assumes ok: "life_ok p" and pc: "p_pcs p t = HaveCache sp a det"
  shows "life_ok (goto_tel t (HaveMonitor sp a det (Some (p_next p)))
    (acquire (RMonitor (p_next p)) (p\<lparr>p_next := p_next p + 1\<rparr>)))"
proof -
  have "sp_typed sp" using ok pc typed_fns(1) [of p t] by (simp add: life_ok_def)
  then show ?thesis
    by (intro life_own_move [OF ok, where F = "{RMonitor (p_next p)}" and ds = "[]"])
      (auto simp: pc fresh_res_def acquire_def live_ext_def released_ext_def)
qed

lemma life_step:
  assumes ok: "life_ok p" and step: "tel_step meterOf out t p = Some p'"
  shows "life_ok p'"
proof -
  have ty: "pc_typed (p_pcs p t)" using ok by (simp add: life_ok_def typed_fns)
  note idle = life_idle_move [OF ok]
  show ?thesis
  proof (cases "p_pcs p t")
    case Starting
    then show ?thesis using life_starting ok step by blast
  next
    case WantStart
    then show ?thesis using step idle [of p] by (auto simp: tel_step_defs Let_def split: if_splits)
  next
    case (HaveProviders sp)
    have "life_ok (goto_tel t (HaveCache sp a det)
        (p\<lparr>p_next := a + 1, p_caches := c\<rparr>))" if "p_next p \<le> a" for a det c
      by (rule idle) (use ty that in \<open>simp_all add: HaveProviders\<close>)
    then show ?thesis using step by (auto simp: tel_step_defs Let_def HaveProviders)
  next
    case (HaveCache sp a det)
    have "life_ok (goto_tel t (HaveMonitor sp a det None) p)"
      "life_ok (goto_tel t (RollingBack sp None e) p)" for e
      by (rule idle; use ty in \<open>simp add: HaveCache\<close>)+
    then show ?thesis
      using step life_monitor [OF ok HaveCache]
      by (auto simp: tel_step_defs Let_def HaveCache split: if_splits option.splits)
  next
    case (HaveMonitor sp a det m)
    have "life_ok (goto_tel t (RollingBack sp m None) p)"
      by (rule idle) (use ty in \<open>simp_all add: HaveMonitor\<close>)
    then show ?thesis
      using step life_install [OF ok _ HaveMonitor]
      by (auto simp: tel_step_defs Let_def HaveMonitor split: if_splits)
  next
    case (RollingBack sp m e)
    then show ?thesis
      using step life_rollback [OF ok RollingBack]
      by (auto simp: tel_step_defs Let_def RollingBack split: option.splits)
  next
    case (Clearing e)
    have "life_ok (goto_tel t (StartDone (Some e)) p)"
      "life_ok (goto_tel t (StartDone (Some e))
        (p\<lparr>p_global := g, p_tel := p_tel p\<lparr>t_traceInstalled := b\<rparr>\<rparr>))" for g b
      by (rule idle; simp add: Clearing)+
    then show ?thesis using step by (auto simp: tel_step_defs Let_def Clearing)
  next
    case (Binding m det)
    have "p_tel (acquire r q) = p_tel q \<and> p_pcs (acquire r q) = p_pcs q \<and> p_next (acquire r q) = p_next q"
      for r and q :: "('a, 'b, 'c) proc"
      by (simp add: acquire_def)
    then have "life_ok (goto_tel t (StartDone None) q)"
      if "q = p \<or> q = p\<lparr>p_bound := b\<rparr> \<or> q = acquire (RDetector a) p \<or>
        q = acquire (RDetector a) (p\<lparr>p_bound := b\<rparr>)" for q a b
      using that by (intro idle) (auto simp: Binding)
    then show ?thesis
      using step by (auto simp: tel_step_defs Let_def Binding split: option.splits)
  next
    case WantShutdown
    have "life_ok (goto_tel t (ShutdownDone []) p)"
      by (rule idle) (simp_all add: WantShutdown)
    then show ?thesis
      using step life_uninstall [OF ok WantShutdown]
      by (auto simp: tel_step_defs Let_def WantShutdown split: if_splits)
  next
    case (Stopping det sfn tfn m i)
    have "life_ok (goto_tel t (Closing sfn tfn m i) p)"
      "life_ok (goto_tel t (Closing sfn tfn m i) (release (RDetector a) p))" for a
      by (rule idle; use ty in \<open>simp add: Stopping\<close>; simp add: release_def)+
    then show ?thesis
      using step by (auto simp: tel_step_defs Let_def Stopping split: option.splits if_splits)
  next
    case (Closing sfn tfn m i)
    then show ?thesis
      using step life_closing [OF ok Closing] by (auto simp: tel_step_defs Let_def Closing)
  next
    case (Restoring i errs)
    have "life_ok (goto_tel t (ShutdownDone errs) p)"
      "life_ok (goto_tel t (ShutdownDone errs) (p\<lparr>p_global := g\<rparr>))" for g
      by (rule idle; simp add: Restoring)+
    then show ?thesis using step by (auto simp: tel_step_defs Let_def Restoring)
  next
    case (WantAllow labels)
    have "life_ok (goto_tel t AllowDone p)"
      "life_ok (goto_tel t (Allowing labels c) (p\<lparr>p_tel := p_tel p\<lparr>t_allowedLabels := l\<rparr>\<rparr>))" for c l
      by (rule idle; simp add: WantAllow)+
    then show ?thesis using step by (auto simp: tel_step_defs Let_def WantAllow split: if_splits)
  next
    case (Allowing labels c)
    have "life_ok (goto_tel t AllowDone p)" "life_ok (goto_tel t AllowDone (p\<lparr>p_caches := x\<rparr>))" for x
      by (rule idle; simp add: Allowing)+
    then show ?thesis using step by (auto simp: tel_step_defs Let_def Allowing split: option.splits)
  qed (use step in \<open>simp_all add: tel_step_defs Let_def\<close>)
qed

lemma life_call:
  assumes ok: "life_ok p" and "at_rest (p_pcs p t)" "call_pc pc"
  shows "life_ok (goto_tel t pc p)"
proof -
  have "pc_res (p_pcs p t) = {}" using assms(2) by (elim at_restE) auto
  moreover have "pc_res pc = {} \<and> pc_typed pc" using assms(3) by (elim call_pcE) auto
  ultimately show ?thesis by (intro life_idle_move [OF ok]) auto
qed

lemma life_new:
  "life_ok (new_proc meterOf cfg)"
  by (auto simp: life_ok_def typed_def owned_ok_def registry_current_def new_proc_def
      newTelemetry_def Let_def held_def tel_res_def live_ext_def released_ext_def
      newRegistryWithCache_def typed_fns split: option.split)

lemma life_run:
  "tel_run meterOf cfg p \<Longrightarrow> life_ok p"
  by (induction rule: tel_run.induct) (auto intro: life_new life_call life_step)

end
