(* ===== verification/Lifecycle_Detector.thy ===== *)
theory Lifecycle_Detector
  imports Lifecycle_Correct
begin

text \<open>
  The detector of a Start: it is handed from the goroutine that builds it to the telemetry and to
  the goroutine that shuts down, and its Stop waits for its Start. No wait is for ever.
\<close>

section \<open>Who holds a detector\<close>

fun builder_det :: "tel_pc \<Rightarrow> nat option" where
  "builder_det (HaveCache sp a det) = det"
| "builder_det (HaveMonitor sp a det m) = det"
| "builder_det pc = None"

fun binder_det :: "tel_pc \<Rightarrow> nat option" where
  "binder_det (Binding m det) = det"
| "binder_det pc = None"

fun stopper_det :: "tel_pc \<Rightarrow> nat option" where
  "stopper_det (Stopping det sfn tfn m i) = det"
| "stopper_det pc = None"

definition owner_det :: "('opt, 'inst, 'set) proc \<Rightarrow> nat option \<Rightarrow> nat option" where
  "owner_det p h = (case h of None \<Rightarrow> t_cardinality (p_tel p) | Some t \<Rightarrow> stopper_det (p_pcs p t))"

definition live_det :: "('opt, 'inst, 'set) proc \<Rightarrow> nat set" where
  "live_det p = {a. RDetector a \<in> p_live p}"

definition building_ok :: "('opt, 'inst, 'set) proc \<Rightarrow> bool" where
  "building_ok p \<longleftrightarrow> (\<forall>t a. builder_det (p_pcs p t) = Some a \<longrightarrow> a < p_next p \<and> a \<notin> live_det p \<and>
     (\<forall>t'. builder_det (p_pcs p t') = Some a \<longrightarrow> t' = t) \<and>
     (\<forall>t'. binder_det (p_pcs p t') \<noteq> Some a) \<and> (\<forall>h. owner_det p h \<noteq> Some a))"

definition binding_ok :: "('opt, 'inst, 'set) proc \<Rightarrow> bool" where
  "binding_ok p \<longleftrightarrow> (\<forall>t a. binder_det (p_pcs p t) = Some a \<longrightarrow> a < p_next p \<and> a \<notin> live_det p \<and>
     (\<forall>t'. binder_det (p_pcs p t') = Some a \<longrightarrow> t' = t) \<and> (\<exists>h. owner_det p h = Some a))"

definition owning_ok :: "('opt, 'inst, 'set) proc \<Rightarrow> bool" where
  "owning_ok p \<longleftrightarrow> (\<forall>h a. owner_det p h = Some a \<longrightarrow> a < p_next p \<and>
     (\<forall>h'. owner_det p h' = Some a \<longrightarrow> h' = h) \<and>
     (a \<in> live_det p \<or> (\<exists>t. binder_det (p_pcs p t) = Some a))) \<and>
   (\<forall>a \<in> live_det p. \<exists>h. owner_det p h = Some a) \<and>
   (\<not> t_started (p_tel p) \<longrightarrow> t_cardinality (p_tel p) = None)"

lemma owning_okI:
  assumes "\<And>h a. owner_det p h = Some a \<Longrightarrow> a < p_next p"
    and "\<And>h h' a. owner_det p h = Some a \<Longrightarrow> owner_det p h' = Some a \<Longrightarrow> h' = h"
    and "\<And>h a. owner_det p h = Some a \<Longrightarrow> a \<notin> live_det p \<Longrightarrow> \<exists>t. binder_det (p_pcs p t) = Some a"
    and "\<And>a. a \<in> live_det p \<Longrightarrow> \<exists>h. owner_det p h = Some a"
    and "\<not> t_started (p_tel p) \<Longrightarrow> t_cardinality (p_tel p) = None"
  shows "owning_ok p"
  using assms unfolding owning_ok_def by blast

lemma owning_okD:
  assumes "owning_ok p"
  shows "owner_det p h = Some a \<Longrightarrow> a < p_next p"
    "owner_det p h = Some a \<Longrightarrow> owner_det p h' = Some a \<Longrightarrow> h' = h"
    "owner_det p h = Some a \<Longrightarrow> a \<notin> live_det p \<Longrightarrow> \<exists>t. binder_det (p_pcs p t) = Some a"
    "a \<in> live_det p \<Longrightarrow> \<exists>h. owner_det p h = Some a"
    "\<not> t_started (p_tel p) \<Longrightarrow> t_cardinality (p_tel p) = None"
  using assms unfolding owning_ok_def by blast+

definition det_ok :: "('opt, 'inst, 'set) proc \<Rightarrow> bool" where
  "det_ok p \<longleftrightarrow> building_ok p \<and> binding_ok p \<and> owning_ok p"

text \<open>A step that hands over no detector.\<close>

definition same_dets :: "nat \<Rightarrow> ('opt, 'inst, 'set) proc \<Rightarrow> ('opt, 'inst, 'set) proc \<Rightarrow> bool" where
  "same_dets t p q \<longleftrightarrow> (\<forall>t'. t' \<noteq> t \<longrightarrow> p_pcs q t' = p_pcs p t') \<and>
     t_cardinality (p_tel q) = t_cardinality (p_tel p) \<and>
     t_started (p_tel q) = t_started (p_tel p) \<and> live_det q = live_det p \<and> p_next p \<le> p_next q"

lemma same_dets_keeps:
  assumes ok: "det_ok p" and same: "same_dets t p q"
    and "binder_det (p_pcs q t) = binder_det (p_pcs p t)"
    and "stopper_det (p_pcs q t) = stopper_det (p_pcs p t)"
    and "builder_det (p_pcs q t) = builder_det (p_pcs p t) \<or> builder_det (p_pcs q t) = None"
  shows "det_ok q"
proof -
  have bind: "binder_det (p_pcs q t') = binder_det (p_pcs p t')" for t'
    using same assms(3) unfolding same_dets_def by metis
  have own: "owner_det q h = owner_det p h" for h
    using same assms(4) unfolding same_dets_def owner_det_def by (metis (no_types) option.case option.exhaust)
  have build: "builder_det (p_pcs q t') = Some a \<Longrightarrow> builder_det (p_pcs p t') = Some a" for t' a
    using same assms(5) unfolding same_dets_def by (metis option.distinct(1))
  have eqs: "live_det q = live_det p" "p_next p \<le> p_next q" "t_started (p_tel q) = t_started (p_tel p)"
    "t_cardinality (p_tel q) = t_cardinality (p_tel p)"
    using same by (simp_all add: same_dets_def)
  have "building_ok q"
    using ok build eqs(2) unfolding det_ok_def building_ok_def eqs(1) bind own
    by (meson less_le_trans)
  moreover have "binding_ok q"
    using ok eqs(2) unfolding det_ok_def binding_ok_def eqs(1) bind own
    by (meson less_le_trans)
  moreover have "owning_ok q"
    using ok eqs(2) unfolding det_ok_def owning_ok_def eqs(1,3,4) bind own
    by (meson less_le_trans)
  ultimately show ?thesis by (simp add: det_ok_def)
qed

section \<open>The steps that hand it over\<close>

lemma det_below:
  assumes "det_ok p"
  shows "builder_det (p_pcs p t) = Some a \<Longrightarrow> a < p_next p" "binder_det (p_pcs p t) = Some a \<Longrightarrow> a < p_next p"
    "owner_det p h = Some a \<Longrightarrow> a < p_next p" "a \<in> live_det p \<Longrightarrow> a < p_next p"
  using assms unfolding det_ok_def building_ok_def binding_ok_def owning_ok_def by blast+

lemma det_build:
  assumes ok: "det_ok p" and "p_pcs p t = HaveProviders sp"
    and q: "q = goto_tel t (HaveCache sp (p_next p) det) (p\<lparr>p_next := p_next p + 1, p_caches := c\<rparr>)"
    and "det = None \<or> det = Some (p_next p)"
  shows "det_ok q"
proof -
  have bind: "binder_det (p_pcs q t') = binder_det (p_pcs p t')" for t'
    by (simp add: q goto_tel_def assms(2))
  have own: "owner_det q h = owner_det p h" for h
    by (simp add: q goto_tel_def owner_det_def assms(2) split: option.split)
  have eqs: "live_det q = live_det p" "p_next q = p_next p + 1" "t_started (p_tel q) = t_started (p_tel p)"
    "t_cardinality (p_tel q) = t_cardinality (p_tel p)"
    by (simp_all add: q goto_tel_def live_det_def)
  have build: "builder_det (p_pcs q t') = (if t' = t then det else builder_det (p_pcs p t'))" for t'
    by (simp add: q goto_tel_def)
  have "building_ok q"
    unfolding building_ok_def eqs bind own build
    using ok det_below [OF ok] assms(4) unfolding det_ok_def building_ok_def
    by (auto split: if_splits simp: less_Suc_eq) (use less_irrefl in blast)+
  moreover have "binding_ok q"
    using ok unfolding det_ok_def binding_ok_def eqs bind own
    by (meson less_Suc_eq Suc_eq_plus1 trans_less_add1)
  moreover have "owning_ok q"
    using ok unfolding det_ok_def owning_ok_def eqs bind own
    by (meson less_Suc_eq Suc_eq_plus1 trans_less_add1)
  ultimately show ?thesis by (simp add: det_ok_def)
qed

lemma det_install:
  assumes ok: "det_ok p" and pc: "p_pcs p t = HaveMonitor sp a det m" and off: "\<not> t_started (p_tel p)"
    and q: "q = goto_tel t (Binding m det) (install meterOf sp a det m p)"
  shows "det_ok q"
proof -
  have none: "owner_det p None = None"
    using ok off unfolding det_ok_def owning_ok_def by (simp add: owner_det_def)
  have bind: "binder_det (p_pcs q t') = (if t' = t then det else binder_det (p_pcs p t'))" for t'
    by (simp add: q goto_tel_def install_def Let_def)
  have own: "owner_det q h = (case h of None \<Rightarrow> det | Some t' \<Rightarrow> owner_det p h)" for h
    by (simp add: q goto_tel_def install_def Let_def owner_det_def pc split: option.split)
  have own': "owner_det q h = (if h = None then det else owner_det p h)" for h
    by (cases h) (simp_all add: own)
  have build: "builder_det (p_pcs q t') = (if t' = t then None else builder_det (p_pcs p t'))" for t'
    by (simp add: q goto_tel_def install_def Let_def)
  have eqs: "live_det q = live_det p" "p_next q = p_next p" "t_started (p_tel q)"
    by (simp_all add: q goto_tel_def live_det_def install_def Let_def)
  have mine: "builder_det (p_pcs p t) = det" and unbound: "binder_det (p_pcs p t) = None"
    by (simp_all add: pc)
  have fresh: "b < p_next p \<and> b \<notin> live_det p \<and> (\<forall>t'. builder_det (p_pcs p t') = Some b \<longrightarrow> t' = t) \<and>
      (\<forall>t'. binder_det (p_pcs p t') \<noteq> Some b) \<and> (\<forall>h. owner_det p h \<noteq> Some b)" if "det = Some b" for b
    using ok mine that unfolding det_ok_def building_ok_def by blast
  have old: "building_ok p" "binding_ok p" "owning_ok p" using ok by (simp_all add: det_ok_def)
  have "building_ok q"
    unfolding building_ok_def eqs bind own' build
    using old(1) fresh mine unfolding building_ok_def
    by (smt (verit) option.distinct(1))
  moreover have "binding_ok q"
    unfolding binding_ok_def eqs bind own'
    using old(2) fresh none unfolding binding_ok_def
    by (smt (verit) option.distinct(1))
  moreover have "owning_ok q"
    unfolding owning_ok_def eqs bind own'
    using old(3) fresh none unbound unfolding owning_ok_def
    by (smt (verit) option.distinct(1) eqs(3))
  ultimately show ?thesis by (simp add: det_ok_def)
qed

lemma det_bind:
  assumes ok: "det_ok p" and pc: "p_pcs p t = Binding m det" and pcq: "p_pcs q = (p_pcs p)(t := StartDone None)"
    and same: "p_tel q = p_tel p" "p_next q = p_next p" "live_det q = live_det p \<union> set_option det"
  shows "det_ok q"
proof -
  have old: "building_ok p" "binding_ok p" "owning_ok p" using ok by (simp_all add: det_ok_def)
  have bind: "binder_det (p_pcs q t') = (if t' = t then None else binder_det (p_pcs p t'))" for t'
    by (simp add: pcq)
  have build: "builder_det (p_pcs q t') = builder_det (p_pcs p t')" for t'
    by (simp add: pcq pc)
  have own: "owner_det q h = owner_det p h" for h
    by (simp add: owner_det_def pcq pc same split: option.split)
  have mine: "binder_det (p_pcs p t) = det" by (simp add: pc)
  have owned: "\<exists>h. owner_det p h = Some b" "\<forall>t'. binder_det (p_pcs p t') = Some b \<longrightarrow> t' = t"
    if "det = Some b" for b
    using old(2) mine that unfolding binding_ok_def by blast+
  have "building_ok q"
    using old(1) mine unfolding building_ok_def same bind own build by auto
  moreover have "binding_ok q"
    using old(2) mine unfolding binding_ok_def same bind own by (auto split: if_splits)
  moreover have "owning_ok q"
  proof (rule owning_okI, unfold own same)
    show "\<exists>t'. binder_det (p_pcs q t') = Some a"
      if "owner_det p h = Some a" "a \<notin> live_det p \<union> set_option det" for h a
      using owning_okD(3) [OF old(3) that(1)] that(2) mine by (auto simp: bind)
    show "\<exists>h. owner_det p h = Some a" if "a \<in> live_det p \<union> set_option det" for a
      using that owned owning_okD(4) [OF old(3)] by auto
  qed (use owning_okD(1,2,5) [OF old(3)] in blast)+
  ultimately show ?thesis by (simp add: det_ok_def)
qed

lemma det_uninstall:
  assumes ok: "det_ok p" and pc: "p_pcs p t = WantShutdown"
    and q: "q = goto_tel t (Stopping (t_cardinality (p_tel p)) sfn tfn m i) (uninstall meterOf p)"
  shows "det_ok q"
proof -
  have old: "building_ok p" "binding_ok p" "owning_ok p" using ok by (simp_all add: det_ok_def)
  have bind: "binder_det (p_pcs q t') = binder_det (p_pcs p t')" for t'
    by (simp add: q goto_tel_def uninstall_def Let_def pc)
  have build: "builder_det (p_pcs q t') = builder_det (p_pcs p t')" for t'
    by (simp add: q goto_tel_def uninstall_def Let_def pc)
  have own: "owner_det q h = (if h = None then None else if h = Some t then owner_det p None else owner_det p h)" for h
    by (cases h) (simp_all add: owner_det_def q goto_tel_def uninstall_def Let_def pc)
  have mine: "owner_det p (Some t) = None" by (simp add: owner_det_def pc)
  have eqs: "live_det q = live_det p" "p_next q = p_next p + 1" "\<not> t_started (p_tel q)"
    "t_cardinality (p_tel q) = None"
    by (simp_all add: q goto_tel_def live_det_def uninstall_def Let_def)
  have shift: "(\<exists>h. owner_det q h = Some a) \<longleftrightarrow> (\<exists>h. owner_det p h = Some a)" for a
    unfolding own using mine by (metis option.distinct(1))
  have all: "(\<forall>h. owner_det q h \<noteq> Some a) \<longleftrightarrow> (\<forall>h. owner_det p h \<noteq> Some a)" for a
    using shift [of a] by blast
  have uniq: "owner_det p h = Some a \<Longrightarrow> owner_det p h' = Some a \<Longrightarrow> h' = h" for h h' a
    using old(3) unfolding owning_ok_def by blast
  have one: "owner_det q h = Some a \<Longrightarrow> owner_det q h' = Some a \<Longrightarrow> h' = h" for h h' a
    using uniq [of h a h'] uniq [of None a h] uniq [of None a h'] unfolding own
    by (auto split: if_splits)
  have "building_ok q"
    using old(1) unfolding building_ok_def eqs bind all build by fastforce
  moreover have "binding_ok q"
    using old(2) unfolding binding_ok_def eqs bind shift by fastforce
  moreover have "owning_ok q"
  proof (rule owning_okI)
    fix h a
    assume a: "owner_det q h = Some a"
    obtain h' where h': "owner_det p h' = Some a" using a shift by blast
    show "a < p_next q" using owning_okD(1) [OF old(3) h'] by (simp add: eqs)
    show "\<exists>t. binder_det (p_pcs q t) = Some a" if "a \<notin> live_det q"
      using owning_okD(3) [OF old(3) h'] that by (simp add: eqs bind)
    show "h'' = h" if "owner_det q h'' = Some a" for h'' using one [OF a that] .
  qed (use owning_okD(4) [OF old(3)] in \<open>auto simp: shift eqs\<close>)
  ultimately show ?thesis by (simp add: det_ok_def)
qed

lemma det_stop:
  assumes ok: "det_ok p" and pc: "p_pcs p t = Stopping det sfn tfn m i"
    and q: "q = goto_tel t (Closing sfn tfn m i) p'" and same: "p_tel p' = p_tel p" "p_pcs p' = p_pcs p"
      "p_next p' = p_next p" "live_det p' = live_det p - set_option det"
    and ready: "\<And>a. det = Some a \<Longrightarrow> a \<in> live_det p"
  shows "det_ok q"
proof -
  have old: "building_ok p" "binding_ok p" "owning_ok p" using ok by (simp_all add: det_ok_def)
  have bind: "binder_det (p_pcs q t') = binder_det (p_pcs p t')" for t'
    by (simp add: q goto_tel_def same pc)
  have build: "builder_det (p_pcs q t') = builder_det (p_pcs p t')" for t'
    by (simp add: q goto_tel_def same pc)
  have own: "owner_det q h = (if h = Some t then None else owner_det p h)" for h
    by (cases h) (simp_all add: owner_det_def q goto_tel_def same)
  have mine: "owner_det p (Some t) = det" by (simp add: owner_det_def pc)
  have eqs: "live_det q = live_det p - set_option det" "p_next q = p_next p"
    "t_started (p_tel q) = t_started (p_tel p)" "t_cardinality (p_tel q) = t_cardinality (p_tel p)"
    using same(4) by (simp_all add: q goto_tel_def same live_det_def)
  have unbound: "binder_det (p_pcs p t') \<noteq> Some a" if "det = Some a" for a t'
    using old(2) ready [OF that] unfolding binding_ok_def by blast
  have one: "h = Some t" if "owner_det p h = Some a" "det = Some a" for a h
    using old(3) mine that unfolding owning_ok_def by metis
  have "building_ok q"
    using old(1) unfolding building_ok_def eqs bind own build by auto
  moreover have "binding_ok q"
    using old(2) unbound mine unfolding binding_ok_def eqs bind own by (metis DiffD1)
  moreover have "owning_ok q"
  proof (rule owning_okI, unfold own eqs bind)
    show "\<exists>h. (if h = Some t then None else owner_det p h) = Some a" if live: "a \<in> live_det p - set_option det" for a
    proof -
      obtain h where h: "owner_det p h = Some a" using live owning_okD(4) [OF old(3), of a] by blast
      then have "h \<noteq> Some t" using live mine by auto
      then show ?thesis using h by (intro exI [where x = h]) simp
    qed
    show "\<exists>t'. binder_det (p_pcs p t') = Some a"
      if h: "(if h = Some t then None else owner_det p h) = Some a" and gone: "a \<notin> live_det p - set_option det"
      for h a
    proof -
      have own_h: "owner_det p h = Some a" "h \<noteq> Some t" using h by (auto split: if_splits)
      then have "det \<noteq> Some a" using one by blast
      then show ?thesis using gone owning_okD(3) [OF old(3) own_h(1)] by auto
    qed
  qed (use owning_okD(1,2,5) [OF old(3)] in \<open>auto split: if_splits\<close>)
  ultimately show ?thesis by (simp add: det_ok_def)
qed

section \<open>Every step\<close>

lemma det_frame:
  fixes p q :: "('opt, 'inst, 'set) proc"
  assumes "det_ok p" "p_pcs q = p_pcs p" "t_cardinality (p_tel q) = t_cardinality (p_tel p)"
    "t_started (p_tel q) = t_started (p_tel p)" "live_det q = live_det p" "p_next p \<le> p_next q"
    "binder_det pc = binder_det (p_pcs p t)" "stopper_det pc = stopper_det (p_pcs p t)"
    "builder_det pc = builder_det (p_pcs p t) \<or> builder_det pc = None"
  shows "det_ok (goto_tel t pc q)"
  by (rule same_dets_keeps [OF assms(1), where t = t])
    (use assms in \<open>simp_all add: same_dets_def goto_tel_def live_det_def\<close>)

lemma live_det_ops [simp]:
  "live_det (release_monitor m p) = live_det p" "live_det (p\<lparr>p_tel := x\<rparr>) = live_det p"
  "live_det (p\<lparr>p_caches := c\<rparr>) = live_det p" "live_det (p\<lparr>p_global := g\<rparr>) = live_det p"
  "live_det (p\<lparr>p_next := n\<rparr>) = live_det p" "live_det (p\<lparr>p_bound := b\<rparr>) = live_det p"
  "live_det (acquire (RMonitor n) p) = live_det p"
  by (auto simp: live_det_def release_monitor_def release_def acquire_def split: option.split)

lemma live_det_run_fn:
  "meter_fn f \<or> trace_fn f \<Longrightarrow> live_det (run_fn f p) = live_det p"
  by (cases f) (auto simp: live_det_def release_def meter_fn_def trace_fn_def)

lemma live_det_rollback:
  "sp_typed sp \<Longrightarrow> live_det (rollbackStart m sp p) = live_det p"
  by (simp add: rollbackStart_def Let_def sp_typed_def live_det_run_fn)

lemma live_det_init:
  assumes "initProviders out p = (res, p1)"
  shows "live_det p1 = live_det p" "p_next p \<le> p_next p1"
  using assms
  by (auto simp: initProviders_def Let_def new_meter_effect newTracerProvider_def acquire_def
      configureExportCompression_def release_def live_det_def split: if_splits option.splits)

lemma acquire_frame [simp]:
  "p_tel (acquire r p) = p_tel p" "p_pcs (acquire r p) = p_pcs p" "p_next (acquire r p) = p_next p"
  "p_tel (release r p) = p_tel p" "p_pcs (release r p) = p_pcs p" "p_next (release r p) = p_next p"
  by (simp_all add: acquire_def release_def)

lemma det_step:
  assumes ok: "det_ok p" and life: "life_ok p" and step: "tel_step meterOf out t p = Some p'"
  shows "det_ok p'"
proof -
  have ty: "pc_typed (p_pcs p t)" using life by (simp add: life_ok_def typed_fns)
  note frame = det_frame [OF ok]
  show ?thesis
  proof (cases "p_pcs p t")
    case WantStart
    then show ?thesis using step frame [of p] by (auto simp: tel_step_defs Let_def split: if_splits)
  next
    case Starting
    obtain res p1 where init: "initProviders out (p\<lparr>p_propagator := True\<rparr>) = (res, p1)"
      by (cases "initProviders out (p\<lparr>p_propagator := True\<rparr>)")
    have "live_det p1 = live_det p"
      using live_det_init(1) [OF init] by (simp add: live_det_def)
    then have "det_ok (goto_tel t pc p1)" if "pc = StartDone e \<or> pc = HaveProviders sp" for pc e sp
      using that initProviders_frame [OF init] live_det_init(2) [OF init]
      by (intro frame) (auto simp: Starting)
    then show ?thesis
      using step by (auto simp: tel_step_defs Let_def Starting init split: sum.splits)
  next
    case (HaveProviders sp)
    then show ?thesis
      using step det_build [OF ok HaveProviders] by (auto simp: tel_step_defs Let_def)
  next
    case (HaveCache sp a det)
    have "det_ok (goto_tel t (HaveMonitor sp a det None) p)"
      "det_ok (goto_tel t (RollingBack sp None e) p)"
      "det_ok (goto_tel t (HaveMonitor sp a det (Some n))
        (acquire (RMonitor n) (p\<lparr>p_next := p_next p + 1\<rparr>)))" for e n
      by (rule frame; simp add: HaveCache)+
    then show ?thesis
      using step by (auto simp: tel_step_defs Let_def HaveCache split: if_splits option.splits)
  next
    case (HaveMonitor sp a det m)
    have "det_ok (goto_tel t (RollingBack sp m None) p)"
      by (rule frame) (simp_all add: HaveMonitor)
    then show ?thesis
      using step det_install [OF ok HaveMonitor] by (auto simp: tel_step_defs Let_def HaveMonitor split: if_splits)
  next
    case (RollingBack sp m e)
    have sp: "sp_typed sp" using ty RollingBack by simp
    have "det_ok (goto_tel t pc (rollbackStart m sp p))" if "pc = StartDone x \<or> pc = Clearing y" for pc x y
      using that by (intro frame) (auto simp: RollingBack rollback_effect [OF sp] live_det_rollback [OF sp])
    then show ?thesis
      using step by (auto simp: tel_step_defs Let_def RollingBack split: option.splits)
  next
    case (Clearing e)
    have "det_ok (goto_tel t (StartDone (Some e)) p)"
      "det_ok (goto_tel t (StartDone (Some e))
        (p\<lparr>p_global := g, p_tel := p_tel p\<lparr>t_traceInstalled := b\<rparr>\<rparr>))" for g b
      by (rule frame; simp add: Clearing)+
    then show ?thesis using step by (auto simp: tel_step_defs Let_def Clearing)
  next
    case (Binding m det)
    show ?thesis
      by (rule det_bind [OF ok Binding])
        (use step in \<open>auto simp: tel_step_defs Let_def Binding goto_tel_def acquire_def live_det_def
          split: option.splits\<close>)
  next
    case WantShutdown
    have "det_ok (goto_tel t (ShutdownDone []) p)"
      by (rule frame) (simp_all add: WantShutdown)
    then show ?thesis
      using step det_uninstall [OF ok WantShutdown]
      by (auto simp: tel_step_defs Let_def WantShutdown split: if_splits)
  next
    case (Stopping det sfn tfn m i)
    note stop = det_stop [OF ok Stopping]
    show ?thesis
    proof (cases det)
      case None
      then show ?thesis using step stop [of p' p] by (auto simp: tel_step_defs Let_def Stopping)
    next
      case (Some a)
      then have "RDetector a \<in> p_live p"
        "p' = goto_tel t (Closing sfn tfn m i) (release (RDetector a) p)"
        using step by (auto simp: tel_step_defs Let_def Stopping split: if_splits)
      then show ?thesis
        using stop [of p' "release (RDetector a) p"] Some by (auto simp: live_det_def release_def)
    qed
  next
    case (Closing sfn tfn m i)
    have "live_det (release_monitor m (run_fn tfn (run_fn sfn p))) = live_det p"
      using ty by (simp add: Closing live_det_run_fn)
    then have "det_ok (goto_tel t (Restoring i errs) (release_monitor m (run_fn tfn (run_fn sfn p))))" for errs
      by (intro frame) (simp_all add: Closing)
    then show ?thesis using step by (auto simp: tel_step_defs Let_def Closing)
  next
    case (Restoring i errs)
    have "det_ok (goto_tel t (ShutdownDone errs) p)"
      "det_ok (goto_tel t (ShutdownDone errs) (p\<lparr>p_global := g\<rparr>))" for g
      by (rule frame; simp add: Restoring)+
    then show ?thesis using step by (auto simp: tel_step_defs Let_def Restoring)
  next
    case (WantAllow labels)
    have "det_ok (goto_tel t AllowDone p)"
      "det_ok (goto_tel t (Allowing labels c) (p\<lparr>p_tel := p_tel p\<lparr>t_allowedLabels := l\<rparr>\<rparr>))" for c l
      by (rule frame; simp add: WantAllow)+
    then show ?thesis using step by (auto simp: tel_step_defs Let_def WantAllow split: if_splits)
  next
    case (Allowing labels c)
    have "det_ok (goto_tel t AllowDone p)" "det_ok (goto_tel t AllowDone (p\<lparr>p_caches := x\<rparr>))" for x
      by (rule frame; simp add: Allowing)+
    then show ?thesis using step by (auto simp: tel_step_defs Let_def Allowing split: option.splits)
  qed (use step in \<open>simp_all add: tel_step_defs Let_def\<close>)
qed

lemma det_call:
  assumes ok: "det_ok p" and "at_rest (p_pcs p t)" "call_pc pc"
  shows "det_ok (goto_tel t pc p)"
  by (rule det_frame [OF ok]) (use assms(2,3) in \<open>cases "p_pcs p t"; cases pc; simp\<close>)+

lemma det_new:
  "det_ok (new_proc meterOf cfg)"
  by (auto simp: det_ok_def building_ok_def binding_ok_def owning_ok_def new_proc_def owner_det_def
      newTelemetry_def Let_def live_det_def refreshTracerLocked_def split: option.split)

lemma det_run:
  "tel_run meterOf cfg p \<Longrightarrow> det_ok p"
  by (induction rule: tel_run.induct) (auto intro: det_new det_call det_step life_run)

end
