(* ===== verification/Interleaving.thy ===== *)
theory Interleaving
  imports Tel_Prelude
begin

text \<open>
  The interface of a system of goroutines whose calls end: each goroutine has a number of steps left,
  a step of one brings it down and leaves the others alone, and while some goroutine is busy some
  goroutine can step. Then every schedule ends, and it ends only when all are at rest. The lifecycle,
  the registry and the logger's globals are instances.
\<close>

text \<open>A schedule is a list of steps; the goroutines that are busy; the steps they have left together.\<close>

fun sched :: "(nat \<Rightarrow> 'e \<Rightarrow> 's \<Rightarrow> 's option) \<Rightarrow> (nat \<times> 'e) list \<Rightarrow> 's \<Rightarrow> 's option" where
  "sched step [] s = Some s"
| "sched step ((t, e) # ts) s = (case step t e s of None \<Rightarrow> None | Some s1 \<Rightarrow> sched step ts s1)"

definition at_work :: "(nat \<Rightarrow> nat) \<Rightarrow> nat set" where
  "at_work left = {t. 0 < left t}"

definition steps_total :: "(nat \<Rightarrow> nat) \<Rightarrow> nat" where
  "steps_total left = (\<Sum>t\<in>at_work left. left t)"

lemma total_le: "finite A \<Longrightarrow> at_work left \<subseteq> A \<Longrightarrow> steps_total left = (\<Sum>t\<in>A. left t)"
  unfolding steps_total_def by (rule sum.mono_neutral_left) (auto simp: at_work_def)

lemma total_bound: "finite (at_work left) \<Longrightarrow> (\<And>t. left t \<le> n) \<Longrightarrow> steps_total left \<le> n * card (at_work left)"
  unfolding steps_total_def using sum_mono [of "at_work left" left "\<lambda>t. n"] by (simp add: mult.commute)

locale interleaving =
  fixes step :: "nat \<Rightarrow> 'e \<Rightarrow> 's \<Rightarrow> 's option" and left :: "'s \<Rightarrow> nat \<Rightarrow> nat" and inv :: "'s \<Rightarrow> bool"
  assumes inv_step: "inv s \<Longrightarrow> step t e s = Some s' \<Longrightarrow> inv s'"
    and step_left: "inv s \<Longrightarrow> step t e s = Some s' \<Longrightarrow> left s' t < left s t \<and> (\<forall>u. u \<noteq> t \<longrightarrow> left s' u = left s u)"
    and progress: "inv s \<Longrightarrow> 0 < left s t \<Longrightarrow> \<exists>u s'. step u e s = Some s'"
begin

lemma step_busy:
  assumes "inv s" "step t e s = Some s'"
  shows "t \<in> at_work (left s) \<and> at_work (left s') \<subseteq> at_work (left s)"
proof -
  note l = step_left [OF assms]
  have "u \<in> at_work (left s)" if "u \<in> at_work (left s')" for u using that l by (cases "u = t") (auto simp: at_work_def)
  then show ?thesis using l by (auto simp: at_work_def)
qed

lemma step_total:
  assumes "inv s" "finite (at_work (left s))" "step t e s = Some s'"
  shows "finite (at_work (left s')) \<and> steps_total (left s') < steps_total (left s)"
proof -
  note b = step_busy [OF assms(1,3)] and l = step_left [OF assms(1,3)]
  have "left s' u \<le> left s u" for u using l by (cases "u = t") auto
  then have "(\<Sum>u\<in>at_work (left s). left s' u) < (\<Sum>u\<in>at_work (left s). left s u)"
    using b l by (intro sum_strict_mono_ex1 [OF assms(2)]) blast+
  moreover have "steps_total (left s') = (\<Sum>u\<in>at_work (left s). left s' u)" using b by (intro total_le [OF assms(2)]) simp
  ultimately show ?thesis using b assms(2) finite_subset by (auto simp: steps_total_def)
qed

text \<open>Every schedule is bounded, and one that cannot go on has finished every call.\<close>

lemma run_bounded:
  "inv s \<Longrightarrow> finite (at_work (left s)) \<Longrightarrow> sched step ts s = Some s' \<Longrightarrow>
    inv s' \<and> finite (at_work (left s')) \<and> length ts + steps_total (left s') \<le> steps_total (left s)"
proof (induction ts arbitrary: s)
  case (Cons te ts)
  obtain t e s1 where s1: "te = (t, e)" "step t e s = Some s1" "sched step ts s1 = Some s'"
    using Cons.prems(3) by (cases te) (auto split: option.splits)
  show ?case
    using Cons.IH [OF inv_step [OF Cons.prems(1) s1(2)] _ s1(3)] step_total [OF Cons.prems(1,2) s1(2)]
    by (auto simp: s1(1))
qed simp

lemma stuck_rest: "inv s \<Longrightarrow> (\<And>u. step u e s = None) \<Longrightarrow> left s t = 0"
  using progress [of s t e] by (cases "left s t") auto

lemma drains:
  "inv s \<Longrightarrow> finite (at_work (left s)) \<Longrightarrow>
    \<exists>ts s'. sched step (map (\<lambda>t. (t, e)) ts) s = Some s' \<and> (\<forall>t. left s' t = 0) \<and>
      length ts \<le> steps_total (left s)"
proof (induction "steps_total (left s)" arbitrary: s rule: less_induct)
  case less
  show ?case
  proof (cases "\<forall>t. left s t = 0")
    case True
    then show ?thesis by (intro exI [where x = "[]"]) simp
  next
    case False
    then obtain u s1 where step: "step u e s = Some s1" using progress less.prems(1) by blast
    note b = step_total [OF less.prems step]
    obtain ts s' where "sched step (map (\<lambda>t. (t, e)) ts) s1 = Some s'" "\<forall>t. left s' t = 0"
      "length ts \<le> steps_total (left s1)"
      using less.hyps [OF _ inv_step [OF less.prems(1) step]] b by blast
    then show ?thesis using step b by (intro exI [where x = "u # ts"]) simp
  qed
qed

lemma schedules_end:
  assumes "inv s" "finite (at_work (left s))" "\<And>t. left s t \<le> n" "sched step ts s = Some s'"
  shows "length ts \<le> n * card (at_work (left s)) \<and> ((\<forall>u. step u e s' = None) \<longrightarrow> (\<forall>t. left s' t = 0))"
proof -
  note b = run_bounded [OF assms(1,2,4)]
  then have "length ts \<le> n * card (at_work (left s))" using total_bound [OF assms(2,3)] by linarith
  then show ?thesis using b stuck_rest [of s' e] by blast
qed

end

end
