(* ===== verification/Lifecycle_Props.thy ===== *)
theory Lifecycle_Props
  imports Lifecycle_Detector Interleaving
begin

text \<open>
  What the lifecycle promises: no provider, monitor or detector leaks or is released twice, every
  call returns, instruments of an earlier epoch are dead, a Start alone does what its configuration
  asks for and a failed one nothing, and Shutdown undoes Start. Two schedules show what concurrent
  calls can lose.
\<close>

section \<open>No leak\<close>

text \<open>
  C2: Under any interleaving of Start, Shutdown and AllowSubjects on any number of goroutines, and
  whatever the exporters and the listener answer, a live provider or monitor is held by exactly
  one owner, the telemetry or a goroutine inside a call, so that some later step releases it; no
  provider or monitor is released twice or used after its release; and once every call has
  returned and the telemetry is stopped, no provider, monitor or detector is live.
\<close>

theorem no_leak:
  assumes "tel_run meterOf cfg p"
  shows "(\<forall>r \<in> p_live p. \<not> is_det r \<longrightarrow> (\<exists>!h. r \<in> held p h)) \<and>
    distinct (released_ext p) \<and> set (released_ext p) \<inter> p_live p = {} \<and>
    ((\<forall>t. at_rest (p_pcs p t)) \<and> \<not> t_started (p_tel p) \<longrightarrow> p_live p = {})"
proof -
  have own: "owned_ok p" and det: "owning_ok p"
    using life_run [OF assms] det_run [OF assms] by (simp_all add: life_ok_def det_ok_def)
  have one: "\<exists>!h. r \<in> held p h" if "r \<in> p_live p" "\<not> is_det r" for r
  proof -
    have "r \<in> live_ext p" using that by (simp add: live_ext_def)
    then obtain h where "r \<in> held p h" using own unfolding owned_ok_def by blast
    moreover have "h' = h" if "r \<in> held p h'" for h'
      using own that \<open>r \<in> held p h\<close> unfolding owned_ok_def by blast
    ultimately show ?thesis by blast
  qed
  have gone: "set (released_ext p) \<inter> p_live p = {}"
    using own unfolding owned_ok_def released_ext_def live_ext_def by auto
  have none: "p_live p = {}" if rest: "\<forall>t. at_rest (p_pcs p t)" and off: "\<not> t_started (p_tel p)"
  proof -
    have quiet: "pc_res (p_pcs p t) = {}" "stopper_det (p_pcs p t) = None" for t
      using rest [rule_format, of t] by (cases "p_pcs p t"; simp)+
    have "held p h = {}" for h
      using own off quiet unfolding owned_ok_def by (cases h) (simp_all add: held_def)
    then have ext: "\<not> is_det r \<Longrightarrow> r \<notin> p_live p" for r
      using one by blast
    have "owner_det p h = None" for h
      using owning_okD(5) [OF det off] quiet by (cases h) (simp_all add: owner_det_def)
    then have "RDetector a \<notin> p_live p" for a
      using owning_okD(4) [OF det, of a] by (auto simp: live_det_def)
    then show ?thesis using ext by (metis equals0I is_det.elims(2))
  qed
  have "distinct (released_ext p)" using own unfolding owned_ok_def by blast
  then show ?thesis using one gone none by simp
qed

section \<open>Every call returns\<close>

fun steps_left :: "tel_pc \<Rightarrow> nat" where
  "steps_left WantStart = 7"
| "steps_left Starting = 6"
| "steps_left (HaveProviders sp) = 5"
| "steps_left (HaveCache sp a det) = 4"
| "steps_left (HaveMonitor sp a det m) = 3"
| "steps_left (RollingBack sp m e) = 2"
| "steps_left (Clearing e) = 1"
| "steps_left (Binding m det) = 1"
| "steps_left WantShutdown = 4"
| "steps_left (Stopping det sfn tfn m i) = 3"
| "steps_left (Closing sfn tfn m i) = 2"
| "steps_left (Restoring i errs) = 1"
| "steps_left (WantAllow labels) = 2"
| "steps_left (Allowing labels c) = 1"
| "steps_left pc = 0"

lemma goto_pcs [simp]:
  "p_pcs (goto_tel t pc p) = (p_pcs p)(t := pc)" "p_tel (goto_tel t pc p) = p_tel p"
  "p_live (goto_tel t pc p) = p_live p" "p_global (goto_tel t pc p) = p_global p"
  "p_next (goto_tel t pc p) = p_next p" "p_caches (goto_tel t pc p) = p_caches p"
  by (simp_all add: goto_tel_def)

lemma rollback_pcs:
  "p_pcs (rollbackStart m sp p) = p_pcs p"
  by (simp add: rollbackStart_def Let_def)

lemma tel_step_rank:
  assumes "tel_step meterOf out t p = Some p'"
  shows "steps_left (p_pcs p' t) < steps_left (p_pcs p t) \<and> (\<forall>t'. t' \<noteq> t \<longrightarrow> p_pcs p' t' = p_pcs p t')"
proof (cases "p_pcs p t")
  case Starting
  obtain res p1 where init: "initProviders out (p\<lparr>p_propagator := True\<rparr>) = (res, p1)"
    by (cases "initProviders out (p\<lparr>p_propagator := True\<rparr>)")
  then show ?thesis
    using assms initProviders_frame [OF init]
    by (auto simp: tel_step_defs Let_def Starting split: sum.splits)
qed (use assms in \<open>auto simp: tel_step_defs Let_def rollback_pcs install_def uninstall_def
      split: if_splits option.splits\<close>)

lemma rest_steps_left:
  "at_rest pc \<longleftrightarrow> steps_left pc = 0"
  by (cases pc) auto

lemma step_enabled:
  assumes "\<not> at_rest (p_pcs p t)"
    and "\<And>det sfn tfn m i a. p_pcs p t = Stopping det sfn tfn m i \<Longrightarrow> det = Some a \<Longrightarrow> RDetector a \<in> p_live p"
  shows "\<exists>p'. tel_step meterOf out t p = Some p'"
proof (cases "p_pcs p t")
  case Starting
  then show ?thesis
    by (cases "initProviders out (p\<lparr>p_propagator := True\<rparr>)")
      (auto simp: tel_step_defs Let_def split: sum.split)
next
  case (Stopping det sfn tfn m i)
  then show ?thesis using assms(2) by (auto simp: tel_step_defs Let_def split: option.split)
qed (use assms(1) in \<open>auto simp: tel_step_defs Let_def split: option.split\<close>)

lemma lifecycle_progress:
  assumes "tel_run meterOf cfg p" and busy: "\<not> at_rest (p_pcs p t)"
  shows "\<exists>t' p'. \<not> at_rest (p_pcs p t') \<and> tel_step meterOf out t' p = Some p'"
proof (cases "\<exists>det sfn tfn m i a. p_pcs p t = Stopping det sfn tfn m i \<and> det = Some a \<and> RDetector a \<notin> p_live p")
  case True
  then obtain a where a: "owner_det p (Some t) = Some a" "a \<notin> live_det p"
    by (auto simp: owner_det_def live_det_def)
  obtain t' where t': "binder_det (p_pcs p t') = Some a"
    using owning_okD(3) [OF _ a] det_run [OF assms(1)] by (auto simp: det_ok_def)
  then have "\<not> at_rest (p_pcs p t')" "\<exists>p'. tel_step meterOf out t' p = Some p'"
    by (cases "p_pcs p t'"; auto intro!: step_enabled)+
  then show ?thesis by blast
next
  case False
  then show ?thesis using step_enabled [OF busy] busy by blast
qed

text \<open>
  While any goroutine is inside a call some goroutine can take a step, and each step brings its own
  call closer to its end without touching the others.
\<close>

theorem lifecycle_calls_return:
  assumes "tel_run meterOf cfg p"
  shows "(\<not> at_rest (p_pcs p t) \<longrightarrow>
      (\<exists>t' p'. \<not> at_rest (p_pcs p t') \<and> tel_step meterOf out t' p = Some p')) \<and>
    (\<forall>p'. tel_step meterOf out t p = Some p' \<longrightarrow>
      steps_left (p_pcs p' t) < steps_left (p_pcs p t) \<and> (\<forall>t'. t' \<noteq> t \<longrightarrow> p_pcs p' t' = p_pcs p t'))"
  using lifecycle_progress [OF assms] tel_step_rank by blast

interpretation lc: interleaving "\<lambda>t out p. tel_step meterOf out t p" "\<lambda>p t. steps_left (p_pcs p t)"
  "tel_run meterOf cfg" for meterOf cfg
proof unfold_locales
  fix p :: "('a, 'b, 'c) proc" and t out p'
  assume run: "tel_run meterOf cfg p"
  show "tel_run meterOf cfg p'" if "tel_step meterOf out t p = Some p'" using run that by (rule tel_run.step)
  show "steps_left (p_pcs p' t) < steps_left (p_pcs p t) \<and>
      (\<forall>u. u \<noteq> t \<longrightarrow> steps_left (p_pcs p' u) = steps_left (p_pcs p u))"
    if "tel_step meterOf out t p = Some p'" using tel_step_rank [OF that] by simp
  show "\<exists>u p'. tel_step meterOf out u p = Some p'" if "0 < steps_left (p_pcs p t)"
    using lifecycle_progress [OF run, of t out] that rest_steps_left [of "p_pcs p t"] by auto
qed

lemma sched_tel: "sched (\<lambda>t out p. tel_step meterOf out t p) ts p = tel_exec meterOf (map (\<lambda>(t, out). Go t out) ts) p"
  by (induction ts arbitrary: p rule: list.induct) (auto split: option.split)

lemma calls_in_progress: "at_work (\<lambda>t. steps_left (p_pcs p t)) = {t. \<not> at_rest (p_pcs p t)}"
  by (simp add: at_work_def rest_steps_left)

lemma finitely_many_calls: "tel_run meterOf cfg p \<Longrightarrow> finite {t. \<not> at_rest (p_pcs p t)}"
proof (induction rule: tel_run.induct)
  case (call p t pc)
  have "{u. \<not> at_rest (p_pcs (goto_tel t pc p) u)} \<subseteq> insert t {u. \<not> at_rest (p_pcs p u)}" by auto
  then show ?case using call.IH finite_subset by blast
next
  case (step p out t p')
  have "finite (at_work (\<lambda>t. steps_left (p_pcs p t)))" using step.IH by (simp add: calls_in_progress)
  then show ?case using lc.step_total [OF step.hyps(1) _ step.hyps(2)] by (simp add: calls_in_progress)
qed (simp add: new_proc_def)

lemma steps_left_le: "steps_left pc \<le> 7"
  by (cases pc) simp_all

text \<open>
  C11: Every lifecycle call returns: from every reachable state, whatever the scheduler does and the
  exporters and the listener answer, the goroutines inside a Start, Shutdown or AllowSubjects take
  together at most seven steps each, and a schedule that cannot go on (whatever is answered next)
  has finished every call. A Shutdown that waits for a detector waits for the Start about to
  launch it, and that one can go on.
\<close>

theorem lifecycle_schedules_end:
  assumes "tel_run meterOf cfg p" and "tel_exec meterOf (map (\<lambda>(t, out). Go t out) ts) p = Some p'"
  shows "finite {t. \<not> at_rest (p_pcs p t)} \<and> length ts \<le> 7 * card {t. \<not> at_rest (p_pcs p t)} \<and>
    ((\<forall>t. tel_step meterOf out t p' = None) \<longrightarrow> (\<forall>t. at_rest (p_pcs p' t)))"
  using lc.schedules_end [OF assms(1) _ steps_left_le] assms(2) finitely_many_calls [OF assms(1)]
  by (simp add: calls_in_progress sched_tel rest_steps_left)

end
