(* ===== verification/Lifecycle_Runs.thy ===== *)
theory Lifecycle_Runs
  imports Lifecycle_Props
begin

text \<open>
  Whole calls on one goroutine: what a Start that succeeds leaves behind, what one that fails
  does, and what Shutdown takes back.
\<close>

section \<open>A call alone\<close>

definition start_events :: "nat \<Rightarrow> outcome \<Rightarrow> tel_event list" where
  "start_events t out = Begin t WantStart # map (Go t) [out, out, out, out, out, out]"

definition shutdown_events :: "nat \<Rightarrow> outcome \<Rightarrow> tel_event list" where
  "shutdown_events t out = Begin t WantShutdown # map (Go t) [out, out, out, out]"

definition traces_on :: "Config \<Rightarrow> bool" where
  "traces_on cfg \<longleftrightarrow> tl_Enable (cf_TelConfig cfg) \<and> tr_Enable (tl_Traces (cf_TelConfig cfg))"

text \<open>The first error of what the configuration asks a Start for.\<close>

definition start_error :: "Config \<Rightarrow> outcome \<Rightarrow> go_error option" where
  "start_error cfg out =
     (if tl_Enable (cf_TelConfig cfg) \<and> o_meter out \<noteq> None then o_meter out
      else if traces_on cfg \<and> o_tracer out \<noteq> None then o_tracer out
      else if mc_Enable (cf_MonitorConfig cfg) then o_monitor out else None)"

text \<open>The resources a Start of this configuration takes, numbered from n.\<close>

definition start_res :: "Config \<Rightarrow> nat \<Rightarrow> resource set" where
  "start_res cfg n =
     (let tel = cf_TelConfig cfg;
          m = (if tl_Enable tel then 1 else 0);
          k = n + m + (if traces_on cfg then 1 else 0)
      in (if tl_Enable tel then {RMeter n} else {}) \<union>
         (if traces_on cfg then {RTracer (n + 1)} else {}) \<union>
         (if cs_Enable (mx_CardinalityDetector (tl_Metrics tel)) then {RDetector k} else {}) \<union>
         (if mc_Enable (cf_MonitorConfig cfg) then {RMonitor (k + 1)} else {}))"

text \<open>All that a Shutdown has to release.\<close>

definition tel_all_res :: "('opt, 'inst, 'set) telemetry \<Rightarrow> resource set" where
  "tel_all_res t = tel_res t \<union> RDetector ` set_option (t_cardinality t)"

lemma start_succeeds:
  assumes "at_rest (p_pcs p t)" "\<not> t_started (p_tel p)" and ok: "start_error (t_cfg (p_tel p)) out = None"
  shows "\<exists>p'. tel_exec meterOf (start_events t out) p = Some p' \<and> p_pcs p' = (p_pcs p)(t := StartDone None) \<and>
    t_started (p_tel p') \<and> t_cfg (p_tel p') = t_cfg (p_tel p) \<and> t_epoch (p_tel p') = t_epoch (p_tel p) + 1 \<and>
    t_traceInstalled (p_tel p') = traces_on (t_cfg (p_tel p)) \<and>
    p_global p' = (if traces_on (t_cfg (p_tel p)) then SdkTracer (p_next p + 1) else p_global p) \<and>
    p_live p' = p_live p \<union> start_res (t_cfg (p_tel p)) (p_next p) \<and>
    tel_all_res (p_tel p') = start_res (t_cfg (p_tel p)) (p_next p)"
proof -
  let ?tel = "cf_TelConfig (t_cfg (p_tel p))"
  note defs = start_events_def goto_tel_def tel_step_defs Let_def assms(1,2) initProviders_def
    new_meter_effect newTracerProvider_def acquire_def configureExportCompression_def detector_cfg_def
    install_def traces_on_def start_res_def
  show ?thesis
    by (cases "tl_Enable ?tel"; cases "tr_Enable (tl_Traces ?tel)"; cases "tl_WithCompression ?tel";
        cases "cs_Enable (mx_CardinalityDetector (tl_Metrics ?tel))"; cases "mc_Enable (cf_MonitorConfig (t_cfg (p_tel p)))")
      (use ok in \<open>simp_all add: defs start_error_def insert_commute tel_all_res_def tel_res_def split: if_splits\<close>)
qed

lemma start_alone:
  assumes "at_rest (p_pcs p t)" "\<not> t_started (p_tel p)" "o_meter out = None" "o_tracer out = None"
    "o_monitor out = None"
  shows "\<exists>p'. tel_exec meterOf (start_events t out) p = Some p' \<and> p_pcs p' = (p_pcs p)(t := StartDone None) \<and>
    t_started (p_tel p') \<and> t_cfg (p_tel p') = t_cfg (p_tel p) \<and> t_epoch (p_tel p') = t_epoch (p_tel p) + 1 \<and>
    t_traceInstalled (p_tel p') = traces_on (t_cfg (p_tel p)) \<and>
    p_global p' = (if traces_on (t_cfg (p_tel p)) then SdkTracer (p_next p + 1) else p_global p) \<and>
    p_live p' = p_live p \<union> start_res (t_cfg (p_tel p)) (p_next p) \<and>
    tel_all_res (p_tel p') = start_res (t_cfg (p_tel p)) (p_next p)"
  by (rule start_succeeds [OF assms(1,2)]) (simp add: start_error_def assms(3-5))

lemma run_fn_p_live [simp]:
  "p_live (run_fn f p) = p_live p - fn_res f"
  by (cases f) (auto simp: release_def)

lemma release_monitor_p_live [simp]:
  "p_live (release_monitor m p) = p_live p - mon_res m"
  by (cases m) (auto simp: release_monitor_def release_def)

definition meter_of_registry :: "('opt, 'inst, 'set) telemetry \<Rightarrow> ('opt, 'inst) meter option" where
  "meter_of_registry t = map_option rg_meter (t_registry t)"

lemma shutdown_alone:
  assumes "at_rest (p_pcs p t)" "t_started (p_tel p)"
    and "\<And>a. t_cardinality (p_tel p) = Some a \<Longrightarrow> RDetector a \<in> p_live p"
  shows "\<exists>p'. tel_exec meterOf (shutdown_events t out) p = Some p' \<and>
    p_pcs p' = (p_pcs p)(t := ShutdownDone (shutdown_errors out (t_shutdownFn (p_tel p))
      (t_traceShutdown (p_tel p)) (t_monitor (p_tel p)))) \<and>
    \<not> t_started (p_tel p') \<and> t_cfg (p_tel p') = t_cfg (p_tel p) \<and> t_epoch (p_tel p') = t_epoch (p_tel p) + 1 \<and>
    t_metricProvider (p_tel p') = NoopMeter \<and> t_traceProvider (p_tel p') = Some NoopTracer \<and>
    t_tracer (p_tel p') = (NoopTracer, cf_Service (t_cfg (p_tel p))) \<and>
    meter_of_registry (p_tel p') = Some (meterOf NoopMeter ''noop'') \<and>
    p_global p' = (if t_traceInstalled (p_tel p) then NoopTracer else p_global p) \<and>
    p_live p' = p_live p - tel_all_res (p_tel p)"
proof -
  note defs = shutdown_events_def goto_tel_def tel_step_defs Let_def assms(1,2) uninstall_def
    refreshTracerLocked_def tel_all_res_def tel_res_def meter_of_registry_def newRegistryWithCache_def
  have frame: "p_global (release_monitor m q) = p_global q" for m and q :: "('a, 'b, 'c) proc"
    by simp
  show ?thesis
  proof (cases "t_cardinality (p_tel p)")
    case None
    then show ?thesis by (auto simp: defs)
  next
    case (Some a)
    note live = assms(3) [OF Some]
    show ?thesis by (simp add: defs Some live) (auto simp: release_def)
  qed
qed

lemma live_below:
  assumes run: "tel_run meterOf cfg p" and mem: "r \<in> p_live p"
  shows "res_num r < p_next p"
proof (cases "is_det r")
  case True
  then obtain a where a: "r = RDetector a" by (cases r) auto
  then obtain h where "owner_det p h = Some a"
    using mem owning_okD(4) [of p a] det_run [OF run] by (auto simp: det_ok_def live_det_def)
  then show ?thesis using a det_below(3) [OF det_run [OF run]] by simp
next
  case False
  have "\<forall>r \<in> live_ext p. res_num r < p_next p"
    using life_run [OF run] unfolding life_ok_def owned_ok_def by blast
  then show ?thesis using mem False by (simp add: live_ext_def)
qed

text \<open>
  C3: A Shutdown takes back what the Start before it acquired: a goroutine that calls Start on a
  stopped telemetry, with nothing failing, ends with the telemetry started and the providers, the
  monitor and the detector its configuration enables live, and a Shutdown after it, whatever the
  exporters answer while closing, ends with exactly the resources that were live before, the
  telemetry stopped with noop providers, and an epoch two further. The process-wide tracer provider
  is not put back to what it was: with traces on it ends as noop, whatever another Start in progress
  had set, and with traces off it is untouched.
\<close>

theorem start_shutdown_roundtrip:
  assumes run: "tel_run meterOf cfg p" and rest: "at_rest (p_pcs p t)" and off: "\<not> t_started (p_tel p)"
    and ok: "o_meter out = None" "o_tracer out = None" "o_monitor out = None"
  shows "\<exists>p1 p2. tel_exec meterOf (start_events t out) p = Some p1 \<and>
    tel_exec meterOf (shutdown_events t out') p1 = Some p2 \<and>
    t_started (p_tel p1) \<and> p_live p1 = p_live p \<union> start_res (t_cfg (p_tel p)) (p_next p) \<and>
    (traces_on (t_cfg (p_tel p)) \<longrightarrow> p_global p1 = SdkTracer (p_next p + 1)) \<and>
    \<not> t_started (p_tel p2) \<and> p_live p2 = p_live p \<and> t_epoch (p_tel p2) = t_epoch (p_tel p) + 2 \<and>
    t_metricProvider (p_tel p2) = NoopMeter \<and> t_traceProvider (p_tel p2) = Some NoopTracer \<and>
    p_global p2 = (if traces_on (t_cfg (p_tel p)) then NoopTracer else p_global p)"
proof -
  obtain p1 where p1: "tel_exec meterOf (start_events t out) p = Some p1"
    "p_pcs p1 = (p_pcs p)(t := StartDone None)" "t_started (p_tel p1)"
    "t_cfg (p_tel p1) = t_cfg (p_tel p)" "t_epoch (p_tel p1) = t_epoch (p_tel p) + 1"
    "t_traceInstalled (p_tel p1) = traces_on (t_cfg (p_tel p))"
    "p_global p1 = (if traces_on (t_cfg (p_tel p)) then SdkTracer (p_next p + 1) else p_global p)"
    "p_live p1 = p_live p \<union> start_res (t_cfg (p_tel p)) (p_next p)"
    "tel_all_res (p_tel p1) = start_res (t_cfg (p_tel p)) (p_next p)"
    using start_alone [where meterOf = meterOf, OF rest off ok] by blast
  have "at_rest (p_pcs p1 t)" by (simp add: p1(2))
  moreover have "RDetector a \<in> p_live p1" if "t_cardinality (p_tel p1) = Some a" for a
    using p1(8,9) that by (auto simp: tel_all_res_def)
  ultimately obtain p2 where p2: "tel_exec meterOf (shutdown_events t out') p1 = Some p2"
    "\<not> t_started (p_tel p2)" "t_epoch (p_tel p2) = t_epoch (p_tel p1) + 1"
    "t_metricProvider (p_tel p2) = NoopMeter" "t_traceProvider (p_tel p2) = Some NoopTracer"
    "p_global p2 = (if t_traceInstalled (p_tel p1) then NoopTracer else p_global p1)"
    "p_live p2 = p_live p1 - tel_all_res (p_tel p1)"
    using shutdown_alone [where meterOf = meterOf and out = out', OF _ p1(3)] by blast
  note below = live_below [OF run]
  have "p_next p \<le> res_num r" if "r \<in> start_res (t_cfg (p_tel p)) (p_next p)" for r
    using that by (auto simp: start_res_def Let_def split: if_splits)
  then have "p_live p \<inter> start_res (t_cfg (p_tel p)) (p_next p) = {}"
    using below by fastforce
  then have "p_live p2 = p_live p" using p1(8,9) p2(7) by blast
  then show ?thesis using p1 p2 by auto
qed

section \<open>A Start that fails\<close>

lemma step_installed:
  assumes "tel_step meterOf out t p = Some p'"
  shows "t_started (p_tel p') \<or> \<not> t_traceInstalled (p_tel p') \<or>
    \<not> t_started (p_tel p) \<and> t_traceInstalled (p_tel p)"
proof (cases "p_pcs p t")
  case Starting
  obtain res p1 where init: "initProviders out (p\<lparr>p_propagator := True\<rparr>) = (res, p1)"
    by (cases "initProviders out (p\<lparr>p_propagator := True\<rparr>)")
  then show ?thesis
    using assms initProviders_frame [OF init]
    by (auto simp: tel_step_defs Let_def Starting split: sum.splits)
next
  case (RollingBack sp m e)
  have "p_tel (rollbackStart m sp p) = p_tel p" by (simp add: rollbackStart_def Let_def)
  then show ?thesis using assms by (auto simp: tel_step_defs Let_def RollingBack split: option.splits)
qed (use assms in \<open>auto simp: tel_step_defs Let_def install_def uninstall_def
      split: if_splits option.splits\<close>)

lemma off_not_installed:
  "tel_run meterOf cfg p \<Longrightarrow> \<not> t_started (p_tel p) \<longrightarrow> \<not> t_traceInstalled (p_tel p)"
proof (induction rule: tel_run.induct)
  case init
  show ?case by (simp add: new_proc_def newTelemetry_def Let_def refreshTracerLocked_def)
next
  case (step p out t p')
  then show ?case using step_installed by blast
qed simp

lemma failing_start:
  assumes run: "tel_run meterOf cfg p" and rest: "at_rest (p_pcs p t)" and off: "\<not> t_started (p_tel p)"
    and err: "start_error (t_cfg (p_tel p)) out = Some e"
  shows "\<exists>k \<le> 6. \<exists>p'. tel_exec meterOf (Begin t WantStart # replicate k (Go t out)) p = Some p' \<and>
    p_pcs p' t = StartDone (Some e) \<and> p_live p' = p_live p \<and> p_tel p' = p_tel p"
proof -
  let ?cfg = "t_cfg (p_tel p)"
  have new: "RMeter n \<notin> p_live p" "RTracer n \<notin> p_live p" if "p_next p \<le> n" for n
    using live_below [OF run, of "RMeter n"] live_below [OF run, of "RTracer n"] that by auto
  have inst: "\<not> t_traceInstalled (p_tel p)" using off_not_installed [OF run] off by blast
  note defs = goto_tel_def tel_step_defs Let_def rest off inst initProviders_def new new_meter_effect
    newTracerProvider_def acquire_def configureExportCompression_def release_def insert_Diff_if
    rollbackStart_def release_monitor_def
  show ?thesis
  proof (cases "tl_Enable (cf_TelConfig ?cfg) \<and> (o_meter out \<noteq> None \<or> tr_Enable (tl_Traces (cf_TelConfig ?cfg)) \<and> o_tracer out \<noteq> None)")
    case True
    then have "\<exists>p'. tel_exec meterOf [Begin t WantStart, Go t out, Go t out] p = Some p' \<and>
        p_pcs p' t = StartDone (Some e) \<and> p_live p' = p_live p \<and> p_tel p' = p_tel p"
      using err
      by (cases "o_meter out"; cases "tl_WithCompression (cf_TelConfig ?cfg)")
        (auto simp: start_error_def traces_on_def defs split: if_splits)
    then show ?thesis by (intro exI [where x = 2]) (simp add: numeral_2_eq_2)
  next
    case False
    have six: "replicate 6 x = [x, x, x, x, x, x]" for x :: tel_event
      by (simp add: eval_nat_numeral)
    have on: "mc_Enable (cf_MonitorConfig ?cfg)" "o_monitor out = Some e"
      using False err by (auto simp: start_error_def traces_on_def split: if_splits)
    have "\<exists>p'. tel_exec meterOf (Begin t WantStart # replicate 6 (Go t out)) p = Some p' \<and>
        p_pcs p' t = StartDone (Some e) \<and> p_live p' = p_live p \<and> p_tel p' = p_tel p"
      using False on unfolding six
      by (cases "tl_Enable (cf_TelConfig ?cfg)"; cases "tr_Enable (tl_Traces (cf_TelConfig ?cfg))";
          cases "tl_WithCompression (cf_TelConfig ?cfg)")
        (auto simp: defs)
    then show ?thesis by (intro exI [where x = 6]) simp
  qed
qed

text \<open>
  C13: A Start that fails leaves nothing behind: when the metric exporter, the trace exporter or the
  monitor's listener reports an error, the call returns the first of these errors in that order,
  the telemetry is still stopped with its registry, providers and epoch as they were, every
  resource the call had acquired is released, and a later Start finds nothing in its way.
\<close>

theorem failed_start_leaves_nothing:
  assumes run: "tel_run meterOf cfg p" and rest: "at_rest (p_pcs p t)" and off: "\<not> t_started (p_tel p)"
    and err: "start_error (t_cfg (p_tel p)) out = Some e"
  shows "\<exists>k \<le> 6. \<exists>p'. tel_exec meterOf (Begin t WantStart # replicate k (Go t out)) p = Some p' \<and>
    p_pcs p' t = StartDone (Some e) \<and> p_live p' = p_live p \<and> p_tel p' = p_tel p"
  using failing_start [OF assms] .

section \<open>Epochs\<close>

lemma step_epoch:
  assumes "tel_step meterOf out t p = Some p'"
  shows "t_epoch (p_tel p') = t_epoch (p_tel p) \<and> t_registry (p_tel p') = t_registry (p_tel p) \<or>
    t_epoch (p_tel p') = t_epoch (p_tel p) + 1"
proof (cases "p_pcs p t")
  case Starting
  obtain res p1 where init: "initProviders out (p\<lparr>p_propagator := True\<rparr>) = (res, p1)"
    by (cases "initProviders out (p\<lparr>p_propagator := True\<rparr>)")
  then show ?thesis
    using assms initProviders_frame [OF init]
    by (auto simp: tel_step_defs Let_def Starting split: sum.splits)
next
  case (RollingBack sp m e)
  have "p_tel (rollbackStart m sp p) = p_tel p" by (simp add: rollbackStart_def Let_def)
  then show ?thesis using assms by (auto simp: tel_step_defs Let_def RollingBack split: option.splits)
qed (use assms in \<open>auto simp: tel_step_defs Let_def install_def uninstall_def
      split: if_splits option.splits\<close>)

lemma exec_epoch:
  assumes "tel_exec meterOf es p = Some p'"
  shows "\<exists>k \<le> length es. t_epoch (p_tel p') = t_epoch (p_tel p) + of_nat k \<and>
    (k = 0 \<longrightarrow> t_registry (p_tel p') = t_registry (p_tel p))"
  using assms
proof (induction es arbitrary: p)
  case (Cons ev es)
  obtain q where q: "tel_exec meterOf es q = Some p'" and
    hop: "t_epoch (p_tel q) = t_epoch (p_tel p) \<and> t_registry (p_tel q) = t_registry (p_tel p) \<or>
      t_epoch (p_tel q) = t_epoch (p_tel p) + 1"
    using Cons.prems step_epoch by (cases ev) (fastforce split: if_splits option.splits)+
  obtain k where k: "k \<le> length es" "t_epoch (p_tel p') = t_epoch (p_tel q) + of_nat k"
    "k = 0 \<longrightarrow> t_registry (p_tel p') = t_registry (p_tel q)"
    using Cons.IH [OF q] by blast
  from hop show ?case
  proof
    assume "t_epoch (p_tel q) = t_epoch (p_tel p) \<and> t_registry (p_tel q) = t_registry (p_tel p)"
    then show ?thesis using k by (intro exI [where x = k]) simp
  next
    assume "t_epoch (p_tel q) = t_epoch (p_tel p) + 1"
    then show ?thesis using k by (intro exI [where x = "k + 1"]) simp
  qed
qed simp

lemma created_epoch:
  assumes "Counter r name opts w = (Inr c, r', w')" "map_of (rg_counters r) name = None"
  shows "fc_epoch c = rg_epoch r" "fc_epochPtr c = rg_epochPtr r"
  using assms
  by (auto simp: Counter_def getOrCreate_def getOrCreate_locked_def createCounter_def
      split: if_splits sum.splits prod.splits)

text \<open>
  C12: An instrument lives exactly as long as the registry it came from is installed: a counter
  newly created from the telemetry's registry is live after any run of up to \<open>2 ^ 64 - 1\<close> lifecycle
  events precisely when none of them replaced the registry, so a Start or a Shutdown on any
  goroutine makes every older counter inert.
\<close>

theorem instruments_follow_registry:
  assumes run: "tel_run meterOf cfg p" and reg: "t_registry (p_tel p) = Some r"
    and new: "map_of (rg_counters r) name = None" "Counter r name opts w = (Inr c, r', w')"
    and es: "tel_exec meterOf es p = Some p'" "length es < 2 ^ 64"
    and now: "w_epochs w'' 0 = t_epoch (p_tel p')"
  shows "Counter_live w'' c \<longleftrightarrow> t_registry (p_tel p') = t_registry (p_tel p)"
proof -
  have r: "rg_epoch r = t_epoch (p_tel p)" "rg_epochPtr r = Some 0"
    using life_run [OF run] reg by (auto simp: life_ok_def registry_current_def)
  obtain r2 where r2: "t_registry (p_tel p') = Some r2" "rg_epoch r2 = t_epoch (p_tel p')"
    using life_run [OF tel_exec_run [OF run es(1)]] by (auto simp: life_ok_def registry_current_def)
  obtain k where k: "k \<le> length es" "t_epoch (p_tel p') = t_epoch (p_tel p) + of_nat k"
    "k = 0 \<longrightarrow> t_registry (p_tel p') = t_registry (p_tel p)"
    using exec_epoch [OF es(1)] by blast
  have live: "Counter_live w'' c \<longleftrightarrow> t_epoch (p_tel p') = t_epoch (p_tel p)"
    using created_epoch [OF new(2,1)] r now by (simp add: Counter_live_def instrumentLive_def)
  have "k < 2 ^ 64" using k(1) es(2) by simp
  then have "t_epoch (p_tel p') = t_epoch (p_tel p) \<longleftrightarrow> k = 0"
    using k(2) dvd_imp_le [of "2 ^ 64" k] by (auto simp: word_of_nat_eq_0_iff)
  then show ?thesis using live k(3) r r2 reg by auto
qed

end
