(* ===== verification/Lifecycle_Races.thy ===== *)
theory Lifecycle_Races
  imports Lifecycle_Runs Instruments_Correct
begin

text \<open>
  Concrete runs of the lifecycle: instances of its properties, and three schedules of concurrent
  calls that end in a state no sequential use reaches.
\<close>

section \<open>A configuration and its meters\<close>

definition demo_meters :: "(string, instKind \<times> string) meters" where
  "demo_meters mp service = echo_meter"

definition demo_config :: Config where
  "demo_config = zeroConfig\<lparr>cf_Service := ''svc'',
     cf_MonitorConfig := \<lparr> mc_MonitorAddr = ''0.0.0.0:8011'', mc_Enable = True \<rparr>,
     cf_TelConfig := (cf_TelConfig zeroConfig)\<lparr>tl_Enable := True,
       tl_Traces := (tl_Traces (cf_TelConfig zeroConfig))\<lparr>tr_Enable := True\<rparr>,
       tl_Metrics := (tl_Metrics (cf_TelConfig zeroConfig))\<lparr>mx_CardinalityDetector :=
         (mx_CardinalityDetector (tl_Metrics (cf_TelConfig zeroConfig)))
           \<lparr>cs_Enable := True, cs_DenyUnknown := True\<rparr>\<rparr>\<rparr>\<rparr>"

definition fine :: outcome where
  "fine = \<lparr> o_meter = None, o_tracer = None, o_monitor = None, o_meterShutdown = None,
     o_traceShutdown = None, o_monitorShutdown = None \<rparr>"

definition port_taken :: outcome where
  "port_taken = fine\<lparr>o_monitor := Some ''address already in use''\<rparr>"

definition demo_start :: "(string, instKind \<times> string, keyValue list) proc" where
  "demo_start = new_proc demo_meters demo_config"

lemma demo_run: "tel_run demo_meters demo_config demo_start"
  unfolding demo_start_def by (rule tel_run.init)

lemmas demo_defs = demo_start_def demo_config_def new_proc_def newTelemetry_def zeroConfig_def fine_def
  port_taken_def Let_def refreshTracerLocked_def goto_tel_def

lemmas start_defs = tel_step_defs initProviders_def new_meter_provider_def newTracerProvider_def
  acquire_def configureExportCompression_def detector_cfg_def install_def rollbackStart_def
  release_monitor_def release_def

text \<open>Two Starts interleaved up to the race for the mutex; goroutine 0 wins it.\<close>

definition race :: "outcome \<Rightarrow> tel_event list" where
  "race loser = [Begin 0 WantStart, Begin 1 WantStart, Go 0 fine, Go 1 fine, Go 0 fine, Go 1 fine,
     Go 0 fine, Go 0 fine, Go 0 fine, Go 0 fine, Go 1 fine, Go 1 loser, Go 1 fine, Go 1 fine]"

text \<open>
  Two Starts that race lose the process-wide tracer: the goroutine that comes second rolls its
  own providers back and with them sets the global tracer provider to noop, though the winner's
  provider is installed, marked as installed and in use by the telemetry; with both calls returned
  without an error, \<open>otel.Tracer\<close> records nothing while the telemetry's own tracer does.
\<close>

theorem concurrent_starts_lose_tracer:
  "\<exists>p :: (string, instKind \<times> string, keyValue list) proc.
     tel_run demo_meters demo_config p \<and> p_pcs p 0 = StartDone None \<and> p_pcs p 1 = StartDone None \<and>
     t_started (p_tel p) \<and> t_traceInstalled (p_tel p) \<and>
     t_traceProvider (p_tel p) = Some (SdkTracer 2) \<and> p_global p = NoopTracer"
proof -
  have "\<exists>p. tel_exec demo_meters (race fine) demo_start = Some p \<and>
      p_pcs p 0 = StartDone None \<and> p_pcs p 1 = StartDone None \<and>
      t_started (p_tel p) \<and> t_traceInstalled (p_tel p) \<and>
      t_traceProvider (p_tel p) = Some (SdkTracer 2) \<and> p_global p = NoopTracer"
    by (simp add: race_def demo_defs start_defs)
  then show ?thesis using tel_exec_run [OF demo_run] by blast
qed

text \<open>
  The same when the loser fails on the listener, which the winner's monitor may well hold: it also
  takes the winner's mark, so that the winner's Shutdown will not see that traces were installed.
\<close>

lemma failed_start_clears_winner:
  "\<exists>p :: (string, instKind \<times> string, keyValue list) proc.
     tel_run demo_meters demo_config p \<and> p_pcs p 0 = StartDone None \<and>
     p_pcs p 1 = StartDone (Some ''address already in use'') \<and> t_started (p_tel p) \<and>
     \<not> t_traceInstalled (p_tel p) \<and> p_global p = NoopTracer"
proof -
  have "\<exists>p. tel_exec demo_meters (race port_taken) demo_start = Some p \<and>
      p_pcs p 0 = StartDone None \<and> p_pcs p 1 = StartDone (Some ''address already in use'') \<and>
      t_started (p_tel p) \<and> \<not> t_traceInstalled (p_tel p) \<and> p_global p = NoopTracer"
    by (simp add: race_def demo_defs start_defs)
  then show ?thesis using tel_exec_run [OF demo_run] by blast
qed

text \<open>
  Shutdown sets the global tracer provider to noop after it has left the mutex: a Start that runs
  between the two is left with its own provider installed and marked, and the global one gone.
\<close>

definition restart_during_shutdown :: "tel_event list" where
  "restart_during_shutdown = start_events 0 fine @ [Begin 1 WantShutdown, Go 1 fine, Go 1 fine, Go 1 fine] @
     start_events 0 fine @ [Go 1 fine]"

lemma shutdown_clears_next_start:
  "\<exists>p :: (string, instKind \<times> string, keyValue list) proc.
     tel_run demo_meters demo_config p \<and> p_pcs p 0 = StartDone None \<and> p_pcs p 1 = ShutdownDone [] \<and>
     t_started (p_tel p) \<and> t_traceInstalled (p_tel p) \<and>
     (\<exists>n. t_traceProvider (p_tel p) = Some (SdkTracer n)) \<and> p_global p = NoopTracer"
proof -
  have "case tel_exec demo_meters restart_during_shutdown (demo_start ::
        (string, instKind \<times> string, keyValue list) proc) of None \<Rightarrow> False
      | Some p \<Rightarrow> p_pcs p 0 = StartDone None \<and> p_pcs p 1 = ShutdownDone [] \<and> t_started (p_tel p) \<and>
          t_traceInstalled (p_tel p) \<and> t_traceProvider (p_tel p) = Some (SdkTracer 7) \<and> p_global p = NoopTracer"
    by code_simp
  then show ?thesis using tel_exec_run [OF demo_run] by (auto split: option.splits)
qed

text \<open>A label allowed after Start has built its cache and before it has installed it.\<close>

definition allow_during_start :: "tel_event list" where
  "allow_during_start = [Begin 0 WantStart, Go 0 fine, Go 0 fine, Go 0 fine,
     Begin 1 (WantAllow [''x'']), Go 1 fine, Go 1 fine, Go 0 fine, Go 0 fine, Go 0 fine]"

definition installed_cache :: "('opt, 'inst, 'set) proc \<Rightarrow> 'set attrCache" where
  "installed_cache p = p_caches p (rg_cache (the (t_registry (p_tel p))))"

lemma allow_during_start_lost:
  "\<exists>p :: (string, instKind \<times> string, keyValue list) proc.
     tel_run demo_meters demo_config p \<and> p_pcs p 0 = StartDone None \<and> p_pcs p 1 = AllowDone \<and>
     t_started (p_tel p) \<and> ''x'' \<in> set (t_allowedLabels (p_tel p)) \<and>
     ac_denyUnknown (installed_cache p) \<and> \<not> isAllowed (installed_cache p) [''x'']"
proof -
  have "\<exists>p. tel_exec demo_meters allow_during_start demo_start = Some p \<and>
      p_pcs p 0 = StartDone None \<and> p_pcs p 1 = AllowDone \<and> t_started (p_tel p) \<and>
      ''x'' \<in> set (t_allowedLabels (p_tel p)) \<and>
      ac_denyUnknown (installed_cache p) \<and> \<not> isAllowed (installed_cache p) [''x'']"
    by (simp add: allow_during_start_def demo_defs start_defs installed_cache_def build_cache_def
        newRegistryWithCache_def SetDenyUnknown_def SetDetector_def isAllowed_def newAttrCache_def)
  then show ?thesis using tel_exec_run [OF demo_run] by blast
qed

section \<open>Instances of the properties\<close>

theorem no_leak_witness:
  "p_live demo_start = {}"
  using no_leak [OF demo_run] by (simp add: demo_start_def new_proc_def newTelemetry_def Let_def
      refreshTracerLocked_def)

theorem lifecycle_calls_return_witness:
  "\<exists>t' p'. \<not> at_rest (p_pcs (goto_tel 0 WantShutdown demo_start) t') \<and>
     tel_step demo_meters fine t' (goto_tel 0 WantShutdown demo_start) = Some p'"
proof -
  have "tel_run demo_meters demo_config (goto_tel 0 WantShutdown demo_start)"
    by (rule tel_run.call [OF demo_run]) (simp_all add: demo_start_def new_proc_def)
  from lifecycle_calls_return [OF this, of 0 fine] show ?thesis by simp
qed

text \<open>A Start and, at the same time, a Shutdown that finds the telemetry stopped.\<close>

theorem lifecycle_schedules_end_witness:
  "\<exists>p'. tel_exec demo_meters (map (\<lambda>(t, out). Go t out) (map (\<lambda>t. (t, fine)) [0, 1, 0, 0, 0, 0, 0]))
       (goto_tel 1 WantShutdown (goto_tel 0 WantStart demo_start)) = Some p' \<and>
     p_pcs p' 0 = StartDone None \<and> p_pcs p' 1 = ShutdownDone [] \<and>
     7 \<le> 7 * card {t. \<not> at_rest (p_pcs (goto_tel 1 WantShutdown (goto_tel 0 WantStart demo_start)) t)}"
    (is "\<exists>p'. tel_exec _ (map _ ?ts) ?p = _ \<and> _")
proof -
  have run: "tel_run demo_meters demo_config ?p"
    by (intro tel_run.call demo_run) (simp_all add: demo_start_def new_proc_def)
  have "\<exists>p'. tel_exec demo_meters (map (\<lambda>(t, out). Go t out) ?ts) ?p = Some p' \<and>
      p_pcs p' 0 = StartDone None \<and> p_pcs p' 1 = ShutdownDone []"
    by (simp add: demo_defs start_defs)
  then obtain p' where p': "tel_exec demo_meters (map (\<lambda>(t, out). Go t out) ?ts) ?p = Some p'"
    "p_pcs p' 0 = StartDone None" "p_pcs p' 1 = ShutdownDone []" by blast
  define n where "n = card {t. \<not> at_rest (p_pcs ?p t)}"
  have "length ?ts \<le> 7 * n" using lifecycle_schedules_end [OF run p'(1)] unfolding n_def by blast
  then have "7 \<le> 7 * n" by simp
  then show ?thesis using p' unfolding n_def by blast
qed

theorem start_shutdown_roundtrip_witness:
  "\<exists>p1 p2. tel_exec demo_meters (start_events 0 fine) demo_start = Some p1 \<and>
     tel_exec demo_meters (shutdown_events 0 fine) p1 = Some p2 \<and>
     p_global p1 = SdkTracer 2 \<and> p_live p2 = {} \<and> p_global p2 = NoopTracer"
proof -
  have "at_rest (p_pcs demo_start 0)" "\<not> t_started (p_tel demo_start)" "p_live demo_start = {}"
    "traces_on (t_cfg (p_tel demo_start))" "p_next demo_start = 1"
    by (simp_all add: demo_defs traces_on_def)
  then show ?thesis
    using start_shutdown_roundtrip [OF demo_run, of 0 fine fine] by (auto simp: fine_def)
qed

theorem failed_start_leaves_nothing_witness:
  "\<exists>k \<le> 6. \<exists>p'. tel_exec demo_meters (Begin 0 WantStart # replicate k (Go 0 port_taken)) demo_start = Some p' \<and>
     p_pcs p' 0 = StartDone (Some ''address already in use'') \<and> p_live p' = {}"
proof -
  have "at_rest (p_pcs demo_start 0)" "\<not> t_started (p_tel demo_start)" "p_live demo_start = {}"
    "start_error (t_cfg (p_tel demo_start)) port_taken = Some ''address already in use''"
    by (simp_all add: demo_defs start_error_def)
  then show ?thesis
    using failed_start_leaves_nothing [OF demo_run, of 0 port_taken "''address already in use''"] by auto
qed

definition demo_registry :: "(string, instKind \<times> string, keyValue list) registry" where
  "demo_registry = the (t_registry (p_tel demo_start))"

definition demo_counter :: "(instKind \<times> string, keyValue list) fastCounter" where
  "demo_counter = \<lparr> fc_counter = (CounterKind, ''a''), fc_cache = 0, fc_epochPtr = Some 0,
     fc_opts = [], fc_epoch = 0 \<rparr>"

theorem instruments_follow_registry_witness:
  "\<exists>p'. tel_exec demo_meters (start_events 0 fine) demo_start = Some p' \<and>
     \<not> Counter_live ((empty_world 2)\<lparr>w_epochs := (\<lambda>a. t_epoch (p_tel p'))\<rparr>) demo_counter"
proof -
  have reg: "t_registry (p_tel demo_start) = Some demo_registry"
    and new: "map_of (rg_counters demo_registry) ''a'' = None"
    by (simp_all add: demo_registry_def demo_defs newRegistryWithCache_def)
  have "\<exists>r' w'. Counter demo_registry ''a'' [] (empty_world 2) = (Inr demo_counter, r', w')"
    by (simp add: demo_registry_def demo_defs newRegistryWithCache_def Counter_def getOrCreate_def
        getOrCreate_locked_def createCounter_def demo_meters_def echo_meter_def instrumentCount_def
        maxInstrumentsFromCfg_def default_defs demo_counter_def)
  then obtain r' w' where made: "Counter demo_registry ''a'' [] (empty_world 2) = (Inr demo_counter, r', w')"
    by blast
  have idle: "at_rest (p_pcs demo_start 0)" "\<not> t_started (p_tel demo_start)" "t_epoch (p_tel demo_start) = 0"
    "o_meter fine = None" "o_tracer fine = None" "o_monitor fine = None"
    by (simp_all add: demo_defs)
  obtain p' where p': "tel_exec demo_meters (start_events 0 fine) demo_start = Some p'"
    "t_epoch (p_tel p') = t_epoch (p_tel demo_start) + 1"
    using start_alone [where meterOf = demo_meters, OF idle(1,2,4-6)] by blast
  have "registry_current demo_start" "registry_current p'"
    using life_run [OF demo_run] life_run [OF tel_exec_run [OF demo_run p'(1)]] by (simp_all add: life_ok_def)
  then have "t_registry (p_tel p') \<noteq> t_registry (p_tel demo_start)"
    using p'(2) idle(3) by (auto simp: registry_current_def)
  then have "\<not> Counter_live ((empty_world 2)\<lparr>w_epochs := (\<lambda>a. t_epoch (p_tel p'))\<rparr>) demo_counter"
    using instruments_follow_registry [OF demo_run reg new made p'(1)] by (simp add: start_events_def)
  then show ?thesis using p'(1) by blast
qed

end
