(* ===== verification/Detector_Life.thy ===== *)
theory Detector_Life
  imports Lifecycle_Races Cardinality_Report
begin

text \<open>
  The detector's goroutine in the process: Start and Stop of a detector (cardinality.go) are not
  guarded against a second call, so that there is one loop, and no channel closed twice, rests on
  how Telemetry.Start and Shutdown (tel.go) call them. Here the calls of any run of the lifecycle
  are counted, and what the theory Cardinality\_Report shows for one Start and one Stop is carried over.
\<close>

section \<open>The calls a run makes\<close>

text \<open>A step in which a Start launches the detector at address a.\<close>

definition starts_det :: "nat \<Rightarrow> ('opt, 'inst, 'set) proc \<Rightarrow> nat \<Rightarrow> bool" where
  "starts_det a p t \<longleftrightarrow> binder_det (p_pcs p t) = Some a"

text \<open>A step in which a Shutdown takes it over, and which is followed by its Stop.\<close>

definition stops_det :: "nat \<Rightarrow> ('opt, 'inst, 'set) proc \<Rightarrow> nat \<Rightarrow> bool" where
  "stops_det a p t \<longleftrightarrow> p_pcs p t = WantShutdown \<and> t_started (p_tel p) \<and> t_cardinality (p_tel p) = Some a"

fun made ::
  "(('opt, 'inst, 'set) proc \<Rightarrow> nat \<Rightarrow> bool) \<Rightarrow> ('opt, 'inst) meters \<Rightarrow> tel_event list
     \<Rightarrow> ('opt, 'inst, 'set) proc \<Rightarrow> nat" where
  "made P meterOf [] p = 0"
| "made P meterOf (Begin t pc # es) p = made P meterOf es (goto_tel t pc p)"
| "made P meterOf (Go t out # es) p = of_bool (P p t) +
     (case tel_step meterOf out t p of None \<Rightarrow> 0 | Some p' \<Rightarrow> made P meterOf es p')"

text \<open>Whether the run may still start, or stop, the detector at a.\<close>

definition may_start :: "nat \<Rightarrow> ('opt, 'inst, 'set) proc \<Rightarrow> bool" where
  "may_start a p \<longleftrightarrow> p_next p \<le> a \<or>
     (\<exists>t. builder_det (p_pcs p t) = Some a \<or> binder_det (p_pcs p t) = Some a)"

definition may_stop :: "nat \<Rightarrow> ('opt, 'inst, 'set) proc \<Rightarrow> bool" where
  "may_stop a p \<longleftrightarrow> p_next p \<le> a \<or> t_cardinality (p_tel p) = Some a \<or>
     (\<exists>t. builder_det (p_pcs p t) = Some a)"

text \<open>Where a detector's address comes from in a step.\<close>

lemma step_dets:
  assumes "tel_step meterOf out t p = Some p'"
  shows "p_next p \<le> p_next p' \<and>
    (\<forall>a. builder_det (p_pcs p' t) = Some a \<longrightarrow> a = p_next p \<or> builder_det (p_pcs p t) = Some a) \<and>
    (\<forall>a. binder_det (p_pcs p' t) = Some a \<longrightarrow> builder_det (p_pcs p t) = Some a) \<and>
    (\<forall>a. t_cardinality (p_tel p') = Some a \<longrightarrow> \<not> stops_det a p t \<and>
      (t_cardinality (p_tel p) = Some a \<or> builder_det (p_pcs p t) = Some a))"
proof (cases "p_pcs p t")
  case Starting
  obtain res p1 where init: "initProviders out (p\<lparr>p_propagator := True\<rparr>) = (res, p1)"
    by (cases "initProviders out (p\<lparr>p_propagator := True\<rparr>)")
  then show ?thesis
    using assms initProviders_frame [OF init] live_det_init(2) [OF init]
    by (auto simp: tel_step_defs Let_def Starting stops_det_def split: sum.splits)
qed (use assms in \<open>auto simp: tel_step_defs Let_def rollbackStart_def install_def uninstall_def stops_det_def
      split: if_splits option.splits\<close>)

text \<open>One call of each kind uses the right to it up.\<close>

lemma step_others: "tel_step meterOf out t p = Some p' \<Longrightarrow> u \<noteq> t \<Longrightarrow> p_pcs p' u = p_pcs p u"
  using tel_step_rank by blast

lemma one_start:
  assumes ok: "det_ok p" and step: "tel_step meterOf out t p = Some p'"
  shows "of_bool (starts_det a p t) + of_bool (may_start a p') \<le> (of_bool (may_start a p) :: nat)"
proof -
  note d = step_dets [OF step]
  have "may_start a p" if new: "may_start a p'"
  proof -
    have "p_next p \<le> a \<or> builder_det (p_pcs p u) = Some a \<or> binder_det (p_pcs p u) = Some a"
      if "builder_det (p_pcs p' u) = Some a \<or> binder_det (p_pcs p' u) = Some a" for u
      using that d step_others [OF step, of u] by (cases "u = t") auto
    then show ?thesis using new d unfolding may_start_def by (meson order_trans)
  qed
  moreover have "may_start a p \<and> \<not> may_start a p'" if "starts_det a p t"
  proof -
    have b: "binder_det (p_pcs p t) = Some a" using that by (simp add: starts_det_def)
    then have here: "builder_det (p_pcs p t) = None" by (cases "p_pcs p t") simp_all
    have below: "a < p_next p" using det_below(2) [OF ok b] .
    have "builder_det (p_pcs p u) \<noteq> Some a" for u
      using ok b unfolding det_ok_def building_ok_def by blast
    moreover have "binder_det (p_pcs p u) = Some a \<Longrightarrow> u = t" for u
      using ok b unfolding det_ok_def binding_ok_def by blast
    ultimately have "builder_det (p_pcs p' u) \<noteq> Some a \<and> binder_det (p_pcs p' u) \<noteq> Some a" for u
      using d here below step_others [OF step, of u] by (cases "u = t") auto
    then show ?thesis using b below d by (auto simp: may_start_def)
  qed
  ultimately show ?thesis by auto
qed

lemma one_stop:
  assumes ok: "det_ok p" and step: "tel_step meterOf out t p = Some p'"
  shows "of_bool (stops_det a p t) + of_bool (may_stop a p') \<le> (of_bool (may_stop a p) :: nat)"
proof -
  note d = step_dets [OF step]
  have built: "p_next p \<le> a \<or> builder_det (p_pcs p u) = Some a" if "builder_det (p_pcs p' u) = Some a" for u
    using that d step_others [OF step, of u] by (cases "u = t") auto
  have "may_stop a p" if "may_stop a p'"
    using that built d unfolding may_stop_def by (meson order_trans)
  moreover have "may_stop a p \<and> \<not> may_stop a p'" if stop: "stops_det a p t"
  proof -
    have c: "owner_det p None = Some a" using stop by (simp add: stops_det_def owner_det_def)
    have below: "a < p_next p" using det_below(3) [OF ok c] .
    have "builder_det (p_pcs p u) \<noteq> Some a" for u
      using ok c unfolding det_ok_def building_ok_def by blast
    then show ?thesis using stop built below d by (auto simp: may_stop_def stops_det_def)
  qed
  ultimately show ?thesis by auto
qed

lemma call_may:
  assumes "at_rest (p_pcs p t)" "call_pc pc"
  shows "may_start a (goto_tel t pc p) = may_start a p" "may_stop a (goto_tel t pc p) = may_stop a p"
proof -
  have "builder_det (p_pcs (goto_tel t pc p) u) = builder_det (p_pcs p u) \<and>
      binder_det (p_pcs (goto_tel t pc p) u) = binder_det (p_pcs p u)" for u
    using assms by (cases "p_pcs p t"; cases pc) auto
  then show "may_start a (goto_tel t pc p) = may_start a p" "may_stop a (goto_tel t pc p) = may_stop a p"
    by (simp_all add: may_start_def may_stop_def)
qed

lemma made_bounded:
  assumes step: "\<And>t out p p'. det_ok p \<Longrightarrow> tel_step meterOf out t p = Some p' \<Longrightarrow>
      of_bool (P p t) + of_bool (M p') \<le> (of_bool (M p) :: nat)"
    and call: "\<And>p t pc. at_rest (p_pcs p t) \<Longrightarrow> call_pc pc \<Longrightarrow> M (goto_tel t pc p) = M p"
  shows "tel_run meterOf cfg p \<Longrightarrow> tel_exec meterOf es p = Some p' \<Longrightarrow> made P meterOf es p \<le> of_bool (M p)"
proof (induction es arbitrary: p rule: list.induct)
  case (Cons e es)
  show ?case
  proof (cases e)
    case (Begin t pc)
    then have "at_rest (p_pcs p t)" "call_pc pc" "tel_exec meterOf es (goto_tel t pc p) = Some p'"
      using Cons.prems(2) by (auto split: if_splits)
    then show ?thesis
      using Cons.IH [OF tel_run.call [OF Cons.prems(1)]] call by (simp add: Begin)
  next
    case (Go t out)
    then obtain p1 where p1: "tel_step meterOf out t p = Some p1" "tel_exec meterOf es p1 = Some p'"
      using Cons.prems(2) by (auto split: option.splits)
    have "made P meterOf es p1 \<le> of_bool (M p1)"
      by (rule Cons.IH [OF tel_run.step [OF Cons.prems(1) p1(1)] p1(2)])
    then show ?thesis using step [OF det_run [OF Cons.prems(1)] p1(1)] by (simp add: Go p1(1))
  qed
qed simp

text \<open>The calls of Start and of Stop for the detector at a in a run of a new process.\<close>

definition starts_made :: "('opt, 'inst) meters \<Rightarrow> tel_event list \<Rightarrow> ('opt, 'inst, 'set) proc \<Rightarrow> nat \<Rightarrow> nat" where
  "starts_made meterOf evs p a = made (starts_det a) meterOf evs p"

definition stops_made :: "('opt, 'inst) meters \<Rightarrow> tel_event list \<Rightarrow> ('opt, 'inst, 'set) proc \<Rightarrow> nat \<Rightarrow> nat" where
  "stops_made meterOf evs p a = made (stops_det a) meterOf evs p"

lemma calls_made_once:
  assumes "tel_run meterOf cfg p" "tel_exec meterOf evs p = Some p'"
  shows "starts_made meterOf evs p a \<le> 1" "stops_made meterOf evs p a \<le> 1"
proof -
  have "starts_made meterOf evs p a \<le> of_bool (may_start a p)"
    unfolding starts_made_def by (rule made_bounded [OF one_start call_may(1) assms])
  then show "starts_made meterOf evs p a \<le> 1" by (cases "may_start a p") auto
  have "stops_made meterOf evs p a \<le> of_bool (may_stop a p)"
    unfolding stops_made_def by (rule made_bounded [OF one_stop call_may(2) assms])
  then show "stops_made meterOf evs p a \<le> 1" by (cases "may_stop a p") auto
qed

section \<open>At most one loop\<close>

text \<open>
  C29: Whatever goroutines call Start and Shutdown, in any interleaving, a run of the process calls
  Start of any one detector at most once and Stop at most once; so, in every interleaving of these
  calls with the ticker and the detector's goroutine, there is at any moment at most one loop of that
  detector and no channel is closed twice, and when its Stop has returned the loop has ended and no
  report is written afterwards.
\<close>

theorem detectors_run_once:
  fixes p0 p :: "('opt, 'inst, 'set) proc"
  assumes "p0 = new_proc meterOf cfg" and "tel_exec meterOf evs p0 = Some p"
    and "cs_Enable (mx_CardinalityDetector (tl_Metrics (cf_TelConfig cfg)))"
    and "det_run c es (fresh_run (mx_CardinalityDetector (tl_Metrics (cf_TelConfig cfg)))) = Some (r, ls)"
    and "count_list es CallStart \<le> starts_made meterOf evs p0 a"
    and "count_list es CallStop \<le> stops_made meterOf evs p0 a"
  shows "starts_made meterOf evs p0 a \<le> 1 \<and>
    stops_made meterOf evs p0 a \<le> 1 \<and> dr_live r \<le> 1 \<and> \<not> dr_panic r \<and>
    (\<forall>xs ys. es = xs @ StopReturns # ys \<longrightarrow> dr_live r = 0 \<and>
      (\<exists>r0. det_run c (xs @ [StopReturns])
         (fresh_run (mx_CardinalityDetector (tl_Metrics (cf_TelConfig cfg)))) = Some (r0, ls)))"
proof -
  have "tel_run meterOf cfg p0" unfolding assms(1) by (rule tel_run.init)
  note once = calls_made_once [OF this assms(2), of a]
  then have counts: "count_list es CallStart \<le> 1" "count_list es CallStop \<le> 1"
    using assms(5,6) by simp_all
  have "life_inv (count_list es CallStart) (count_list es CallStop) r"
    using life_inv_run [OF life_inv_fresh [OF assms(3)] assms(4)] counts by simp
  then have "dr_live r \<le> 1" "\<not> dr_panic r" using counts(1) by (simp_all add: life_inv_def)
  moreover have "dr_live r = 0 \<and> (\<exists>r0. det_run c (xs @ [StopReturns])
      (fresh_run (mx_CardinalityDetector (tl_Metrics (cf_TelConfig cfg)))) = Some (r0, ls))"
    if "es = xs @ StopReturns # ys" for xs ys
    using detector_lifecycle [OF assms(3) assms(4) [unfolded that]] counts that by simp
  ultimately show ?thesis using once by blast
qed

text \<open>A Start and a Shutdown, and the detector they start and stop: its address is 3.\<close>

theorem detectors_run_once_witness:
  "starts_made demo_meters (start_events 0 fine @ shutdown_events 0 fine) demo_start 3 = 1 \<and>
   stops_made demo_meters (start_events 0 fine @ shutdown_events 0 fine) demo_start 3 = 1 \<and>
   (case det_run (newAttrCache 1 :: keyValue list attrCache) [CallStart, Tick, CallStop, Tick, Leave, StopReturns]
      (fresh_run (mx_CardinalityDetector (tl_Metrics (cf_TelConfig demo_config)))) of
     None \<Rightarrow> False | Some (r, ls) \<Rightarrow> \<not> dr_panic r \<and> dr_live r = 0)"
proof -
  let ?evs = "start_events 0 fine @ shutdown_events 0 fine"
  let ?es = "[CallStart, Tick, CallStop, Tick, Leave, StopReturns]"
  let ?d = "mx_CardinalityDetector (tl_Metrics (cf_TelConfig demo_config))"
  let ?c = "newAttrCache 1 :: keyValue list attrCache"
  have run: "\<exists>p. tel_exec demo_meters ?evs demo_start = Some p \<and> starts_made demo_meters ?evs demo_start 3 = 1 \<and>
      stops_made demo_meters ?evs demo_start 3 = 1"
    by (simp add: start_events_def shutdown_events_def starts_made_def stops_made_def starts_det_def stops_det_def
        demo_defs start_defs uninstall_def)
  then obtain p where p: "tel_exec demo_meters ?evs demo_start = Some p" by blast
  have on: "cs_Enable ?d" by (simp add: demo_config_def)
  have "det_run ?c ?es (fresh_run ?d) \<noteq> None"
    by (simp add: fresh_run_def on newCardinalityDetector_def report_def Let_def split: prod.split)
  then obtain r ls where d: "det_run ?c ?es (fresh_run ?d) = Some (r, ls)" by auto
  have "count_list ?es CallStart \<le> starts_made demo_meters ?evs demo_start 3"
    "count_list ?es CallStop \<le> stops_made demo_meters ?evs demo_start 3"
    using run by simp_all
  note once = detectors_run_once [OF demo_start_def p on d this]
  have "?es = [CallStart, Tick, CallStop, Tick, Leave] @ StopReturns # []" by simp
  then have "dr_live r = 0" "\<not> dr_panic r" using once by blast+
  then show ?thesis using run by (simp add: d del: det_run.simps)
qed

end
