(* ===== verification/Trace_Sampler.thy ===== *)
theory Trace_Sampler
  imports Go_Strings Defaults
begin

text \<open>
  The trace samplers of sampler.go. The SDK's samplers are the constructors of \<open>traceSampler\<close> that
  sampler.go calls; how they decide is the parameter of ShouldSample. strconv.ParseFloat, the
  %g verb, the case mapping of non-ASCII text and the rounding of the literal 0.1 are parameters
  too.
\<close>

datatype samplingDecision = Drop | RecordOnly | RecordAndSample

text \<open>Decisions are ordered by how much of a span they keep.\<close>

fun decision_rank :: "samplingDecision \<Rightarrow> nat" where
  "decision_rank Drop = 0"
| "decision_rank RecordOnly = 1"
| "decision_rank RecordAndSample = 2"

lemma decision_rank_inj: "decision_rank x = decision_rank y \<Longrightarrow> x = y"
  by (cases x; cases y) simp_all

instantiation samplingDecision :: linorder
begin

definition less_eq_samplingDecision :: "samplingDecision \<Rightarrow> samplingDecision \<Rightarrow> bool" where
  "less_eq_samplingDecision x y \<longleftrightarrow> decision_rank x \<le> decision_rank y"

definition less_samplingDecision :: "samplingDecision \<Rightarrow> samplingDecision \<Rightarrow> bool" where
  "less_samplingDecision x y \<longleftrightarrow> decision_rank x < decision_rank y"

instance
  by standard (auto simp: less_eq_samplingDecision_def less_samplingDecision_def dest: decision_rank_inj)

end

lemma RecordAndSample_top [simp]: "d \<le> RecordAndSample"
  by (cases d) (simp_all add: less_eq_samplingDecision_def)

record samplingResult =
  res_Decision :: samplingDecision
  res_Attributes :: "keyValue list"
  res_Tracestate :: string

record samplingParameters =
  sp_TraceID :: string
  sp_Name :: string
  sp_Attributes :: "keyValue list"
  sp_Links :: "keyValue list list"

datatype traceSampler =
    NeverSample
  | AlwaysSample
  | TraceIDRatioBased float64
  | StatusTraceIDRatio float64 string
  | ParentBased traceSampler

definition errorAttributeKey :: string where
  "errorAttributeKey = ''error''"

text \<open>The status sampler is its inner ratio sampler and its description.\<close>

definition StatusTraceIDRatioBased :: "(float64 \<Rightarrow> string) \<Rightarrow> float64 \<Rightarrow> traceSampler" where
  "StatusTraceIDRatioBased fmt_g fraction =
     StatusTraceIDRatio fraction (''StatusTraceIDRatioBased{'' @ fmt_g fraction @ ''}'')"

fun Description :: "traceSampler \<Rightarrow> string option" where
  "Description (StatusTraceIDRatio f d) = Some d"
| "Description s = None"

fun hasErrorAttr :: "keyValue list \<Rightarrow> bool" where
  "hasErrorAttr [] = False"
| "hasErrorAttr (a # attrs) = (if fst a = errorAttributeKey then True else hasErrorAttr attrs)"

text \<open>The loop over the links, with the result so far.\<close>

fun sample_links :: "keyValue list list \<Rightarrow> samplingResult \<Rightarrow> samplingResult" where
  "sample_links [] res = res"
| "sample_links (l # links) res =
     (if hasErrorAttr l then res\<lparr>res_Decision := RecordAndSample\<rparr> else sample_links links res)"

definition statusShouldSample ::
  "(samplingParameters \<Rightarrow> samplingResult) \<Rightarrow> samplingParameters \<Rightarrow> samplingResult" where
  "statusShouldSample inner params =
     (let res = inner params
      in if res_Decision res = RecordAndSample then res
         else if hasErrorAttr (sp_Attributes params) then res\<lparr>res_Decision := RecordAndSample\<rparr>
         else sample_links (sp_Links params) res)"

fun ShouldSample :: "(traceSampler \<Rightarrow> samplingParameters \<Rightarrow> samplingResult)
    \<Rightarrow> traceSampler \<Rightarrow> samplingParameters \<Rightarrow> samplingResult" where
  "ShouldSample sdk (StatusTraceIDRatio f d) params = statusShouldSample (sdk (TraceIDRatioBased f)) params"
| "ShouldSample sdk s params = sdk s params"

section \<open>The configuration string\<close>

definition samplerNever :: string where "samplerNever = ''never''"
definition samplerAlways :: string where "samplerAlways = ''always''"
definition samplerTraceIDRatio :: string where "samplerTraceIDRatio = ''traceidratio''"
definition samplerStatusTraceIDRatio :: string where
  "samplerStatusTraceIDRatio = ''statustraceidratio''"
definition samplerParentBasedPrefix :: string where "samplerParentBasedPrefix = ''parentbased_''"

lemmas sampler_names = samplerNever_def samplerAlways_def samplerTraceIDRatio_def
  samplerStatusTraceIDRatio_def samplerParentBasedPrefix_def

text \<open>The parameters of the parser; \<open>pa_float\<close> is \<^const>\<open>None\<close> where ParseFloat gives an error.\<close>

record parser_api =
  pa_float :: "string \<Rightarrow> float64 option"
  pa_fmt_g :: "float64 \<Rightarrow> string"
  pa_lower :: "string \<Rightarrow> string"
  pa_tenth :: float64

definition parseSamplerFraction :: "parser_api \<Rightarrow> string \<Rightarrow> float64" where
  "parseSamplerFraction pa s =
     (case cut_at CHR '':'' s of
        None \<Rightarrow> Fin 0
      | Some (before, rest) \<Rightarrow>
          (case pa_float pa (trim_space rest) of
             None \<Rightarrow> Fin 0
           | Some fraction \<Rightarrow>
               if f_less fraction (Fin 0) then Fin 0
               else if f_less (Fin 1) fraction then Fin 1
               else fraction))"

definition parseTraceSamplerInner :: "parser_api \<Rightarrow> string \<Rightarrow> traceSampler" where
  "parseTraceSamplerInner pa spec =
     (if spec = samplerNever then NeverSample
      else if spec = samplerAlways then AlwaysSample
      else if prefix samplerStatusTraceIDRatio spec
      then StatusTraceIDRatioBased (pa_fmt_g pa) (parseSamplerFraction pa spec)
      else if prefix samplerTraceIDRatio spec then TraceIDRatioBased (parseSamplerFraction pa spec)
      else StatusTraceIDRatioBased (pa_fmt_g pa) (pa_tenth pa))"

definition parseTraceSampler :: "parser_api \<Rightarrow> string \<Rightarrow> traceSampler" where
  "parseTraceSampler pa s =
     (let spec = to_lower (pa_lower pa) (trim_space s);
          spec1 = (if spec = [] then defaultTracesSampler else spec);
          parentBased = prefix samplerParentBasedPrefix spec1;
          spec2 = (if parentBased then trim_prefix samplerParentBasedPrefix spec1 else spec1);
          inner = parseTraceSamplerInner pa spec2
      in if parentBased then ParentBased inner else inner)"

section \<open>Properties\<close>

lemma hasErrorAttr_iff: "hasErrorAttr attrs \<longleftrightarrow> errorAttributeKey \<in> fst ` set attrs"
  by (induction attrs) auto

lemma sample_links_eq:
  "sample_links links res =
    (if \<exists>l \<in> set links. hasErrorAttr l then res\<lparr>res_Decision := RecordAndSample\<rparr> else res)"
  by (induction links) auto

text \<open>
  C21: The status sampler records and samples every span that starts with an error attribute on
  itself or on one of its links, decides like its inner sampler on every other span, and keeps
  the inner sampler's attributes and trace state in every case.
\<close>

theorem status_sampler_keeps_errors:
  "ShouldSample sdk (StatusTraceIDRatio f d) params =
    (sdk (TraceIDRatioBased f) params)\<lparr>res_Decision :=
       if ''error'' \<in> fst ` set (sp_Attributes params) \<or>
          (\<exists>l \<in> set (sp_Links params). ''error'' \<in> fst ` set l)
       then RecordAndSample else res_Decision (sdk (TraceIDRatioBased f) params)\<rparr>"
  by (auto simp: statusShouldSample_def Let_def sample_links_eq hasErrorAttr_iff errorAttributeKey_def)

text \<open>The status sampler never keeps less of a span than its inner sampler would.\<close>

lemma status_never_lowers:
  "res_Decision (inner params) \<le> res_Decision (statusShouldSample inner params)"
  by (simp add: statusShouldSample_def Let_def sample_links_eq)

text \<open>
  A parsed fraction lies between 0 and 1, unless ParseFloat gave NaN, which it does for the
  text nan: neither comparison holds of NaN, so it is not clamped and becomes the fraction.
\<close>

theorem fraction_clamped_or_nan:
  "((\<exists>q. parseSamplerFraction pa s = Fin q \<and> 0 \<le> q \<and> q \<le> 1) \<or> parseSamplerFraction pa s = NaN) \<and>
   (parseSamplerFraction pa s = NaN \<longleftrightarrow>
     (\<exists>a b. s = a @ CHR '':'' # b \<and> CHR '':'' \<notin> set a \<and> pa_float pa (trim_space b) = Some NaN))"
proof -
  have clamp: "(if f_less x (Fin 0) then Fin 0 else if f_less (Fin 1) x then Fin 1 else x) = y \<Longrightarrow>
      ((\<exists>q. y = Fin q \<and> 0 \<le> q \<and> q \<le> 1) \<or> y = NaN) \<and> (y = NaN \<longleftrightarrow> x = NaN)" for x y
    by (cases x) (auto split: if_splits)
  show ?thesis
  proof (cases "cut_at CHR '':'' s")
    case None
    then have "parseSamplerFraction pa s = Fin 0" unfolding parseSamplerFraction_def by (simp only: option.case)
    moreover have "CHR '':'' \<notin> set s" using None by simp
    ultimately show ?thesis by auto
  next
    case (Some p)
    then obtain a b where ab: "cut_at CHR '':'' s = Some (a, b)" by (cases p) auto
    then have uniq: "s = a' @ CHR '':'' # b' \<and> CHR '':'' \<notin> set a' \<longleftrightarrow> a' = a \<and> b' = b" for a' b'
      using cut_at_Some [of "CHR '':''" s a' b'] by auto
    show ?thesis
    proof (cases "pa_float pa (trim_space b)")
      case None
      then have "parseSamplerFraction pa s = Fin 0" using ab by (simp add: parseSamplerFraction_def)
      moreover have "\<not> (\<exists>a' b'. s = a' @ CHR '':'' # b' \<and> CHR '':'' \<notin> set a' \<and>
          pa_float pa (trim_space b') = Some NaN)"
        using uniq None by (metis option.distinct(1))
      ultimately show ?thesis by auto
    next
      case (Some x)
      then have "parseSamplerFraction pa s =
          (if f_less x (Fin 0) then Fin 0 else if f_less (Fin 1) x then Fin 1 else x)"
        using ab by (simp add: parseSamplerFraction_def)
      note range = clamp [OF this [symmetric]]
      have "(\<exists>a' b'. s = a' @ CHR '':'' # b' \<and> CHR '':'' \<notin> set a' \<and>
          pa_float pa (trim_space b') = Some NaN) \<longleftrightarrow> x = NaN"
        using uniq Some by (metis option.inject)
      then show ?thesis using range by argo
    qed
  qed
qed

text \<open>
  The documented spelling of a sampler, and the samplers that have one: at most one ParentBased
  around a sampler whose fraction ParseFloat reads back and that lies between 0 and 1.
\<close>

fun sampler_text :: "(float64 \<Rightarrow> string) \<Rightarrow> traceSampler \<Rightarrow> string" where
  "sampler_text sh NeverSample = samplerNever"
| "sampler_text sh AlwaysSample = samplerAlways"
| "sampler_text sh (TraceIDRatioBased f) = samplerTraceIDRatio @ CHR '':'' # sh f"
| "sampler_text sh (StatusTraceIDRatio f d) = samplerStatusTraceIDRatio @ CHR '':'' # sh f"
| "sampler_text sh (ParentBased s) = samplerParentBasedPrefix @ sampler_text sh s"

fun in_unit :: "float64 \<Rightarrow> bool" where
  "in_unit (Fin q) = (0 \<le> q \<and> q \<le> 1)"
| "in_unit f = False"

definition fraction_ok :: "parser_api \<Rightarrow> (float64 \<Rightarrow> string) \<Rightarrow> float64 \<Rightarrow> bool" where
  "fraction_ok pa sh f \<longleftrightarrow> trim_space (sh f) = sh f \<and> pa_float pa (sh f) = Some f \<and> in_unit f"

fun inner_ok :: "parser_api \<Rightarrow> (float64 \<Rightarrow> string) \<Rightarrow> traceSampler \<Rightarrow> bool" where
  "inner_ok pa sh (TraceIDRatioBased f) = fraction_ok pa sh f"
| "inner_ok pa sh (StatusTraceIDRatio f d) =
     (fraction_ok pa sh f \<and> d = ''StatusTraceIDRatioBased{'' @ pa_fmt_g pa f @ ''}'')"
| "inner_ok pa sh (ParentBased s) = False"
| "inner_ok pa sh s = True"

fun spelled :: "parser_api \<Rightarrow> (float64 \<Rightarrow> string) \<Rightarrow> traceSampler \<Rightarrow> bool" where
  "spelled pa sh (ParentBased s) = inner_ok pa sh s"
| "spelled pa sh s = inner_ok pa sh s"

lemma cut_at_append: "c \<notin> set a \<Longrightarrow> cut_at c (a @ c # b) = Some (a, b)"
  by (simp add: cut_at_Some)

lemma fraction_read:
  assumes "fraction_ok pa sh f" and "CHR '':'' \<notin> set name"
  shows "parseSamplerFraction pa (name @ CHR '':'' # sh f) = f"
  using assms by (cases f) (auto simp: parseSamplerFraction_def cut_at_append fraction_ok_def)

lemma inner_read: "inner_ok pa sh s \<Longrightarrow> parseTraceSamplerInner pa (sampler_text sh s) = s"
proof (cases s)
  case (TraceIDRatioBased f)
  moreover assume "inner_ok pa sh s"
  ultimately show ?thesis
    using fraction_read [of pa sh f samplerTraceIDRatio]
    by (simp add: parseTraceSamplerInner_def sampler_names)
next
  case (StatusTraceIDRatio f d)
  moreover assume "inner_ok pa sh s"
  ultimately show ?thesis
    using fraction_read [of pa sh f samplerStatusTraceIDRatio]
    by (simp add: parseTraceSamplerInner_def sampler_names StatusTraceIDRatioBased_def)
qed (simp_all add: parseTraceSamplerInner_def sampler_names)

lemma inner_text_plain:
  "inner_ok pa sh s \<Longrightarrow> \<not> prefix samplerParentBasedPrefix (sampler_text sh s) \<and> sampler_text sh s \<noteq> []"
  by (cases s) (simp_all add: sampler_names)

text \<open>
  C22: A sampler written in the documented spelling is read back, whatever the case of its letters
  and the white space around it: a status ratio is told from a plain ratio although one name
  ends in the other, and parentbased_ wraps what follows it.
\<close>

theorem sampler_roundtrip:
  assumes "spelled pa sh s" and "to_lower (pa_lower pa) (trim_space t) = sampler_text sh s"
  shows "parseTraceSampler pa t = s"
proof (cases s)
  case (ParentBased i)
  then have "inner_ok pa sh i" using assms(1) by simp
  then show ?thesis
    using assms(2) ParentBased inner_read [of pa sh i]
    by (simp add: parseTraceSampler_def Let_def trim_prefix_def samplerParentBasedPrefix_def)
qed (use assms inner_read [of pa sh s] inner_text_plain [of pa sh s]
  in \<open>auto simp: parseTraceSampler_def Let_def simp del: sampler_text.simps\<close>)

definition demo_api :: parser_api where
  "demo_api = \<lparr> pa_float = (\<lambda>s. if s = ''0.5'' then Some (Fin (1 / 2)) else if s = ''nan'' then Some NaN
       else if s = ''0.1'' then Some (Fin (1 / 10)) else None),
     pa_fmt_g = (\<lambda>f. ''x''), pa_lower = id, pa_tenth = Fin (1 / 10) \<rparr>"

lemma demo_input:
  "to_lower id (trim_space '' ParentBased_TraceIDRatio:0.5 '') = ''parentbased_traceidratio:0.5''"
  by code_simp

theorem sampler_roundtrip_witness:
  "parseTraceSampler demo_api '' ParentBased_TraceIDRatio:0.5 '' =
     ParentBased (TraceIDRatioBased (Fin (1 / 2)))"
proof (rule sampler_roundtrip [of demo_api "\<lambda>f. ''0.5''"])
  show "spelled demo_api (\<lambda>f. ''0.5'') (ParentBased (TraceIDRatioBased (Fin (1 / 2))))"
    using trim_space_visible [of "''0.5''"]
    by (simp add: fraction_ok_def demo_api_def visible_def byte_def)
  show "to_lower (pa_lower demo_api) (trim_space '' ParentBased_TraceIDRatio:0.5 '') =
      sampler_text (\<lambda>f. ''0.5'') (ParentBased (TraceIDRatioBased (Fin (1 / 2))))"
    using demo_input by (simp add: demo_api_def sampler_names)
qed

text \<open>
  The empty configuration is the default spelling, parentbased_statustraceidratio:0.1, and a
  name no case of the parser knows falls back to the status sampler at one in ten.
\<close>

theorem sampler_defaults:
  assumes "fraction_ok pa sh f" and "sh f = ''0.1''"
  shows "parseTraceSampler pa [] = ParentBased (StatusTraceIDRatioBased (pa_fmt_g pa) f) \<and>
    (spec \<noteq> samplerNever \<and> spec \<noteq> samplerAlways \<and> \<not> prefix samplerStatusTraceIDRatio spec \<and>
       \<not> prefix samplerTraceIDRatio spec \<longrightarrow>
     parseTraceSamplerInner pa spec = StatusTraceIDRatioBased (pa_fmt_g pa) (pa_tenth pa))"
proof -
  have "parseTraceSamplerInner pa (sampler_text sh (StatusTraceIDRatioBased (pa_fmt_g pa) f)) =
      StatusTraceIDRatioBased (pa_fmt_g pa) f"
    using assms(1) by (intro inner_read) (simp add: StatusTraceIDRatioBased_def)
  then have "parseTraceSamplerInner pa ''statustraceidratio:0.1'' = StatusTraceIDRatioBased (pa_fmt_g pa) f"
    using assms(2) by (simp add: StatusTraceIDRatioBased_def samplerStatusTraceIDRatio_def)
  then show ?thesis
    by (simp add: parseTraceSampler_def parseTraceSamplerInner_def [of pa spec] Let_def trim_prefix_def
        defaultTracesSampler_def samplerParentBasedPrefix_def to_lower_def is_ascii_def)
qed

theorem sampler_defaults_witness:
  "parseTraceSampler demo_api [] = ParentBased (StatusTraceIDRatio (Fin (1 / 10)) ''StatusTraceIDRatioBased{x}'')"
proof -
  have "fraction_ok demo_api (\<lambda>f. ''0.1'') (Fin (1 / 10))"
    using trim_space_visible [of "''0.1''"]
    by (simp add: fraction_ok_def demo_api_def visible_def byte_def)
  from sampler_defaults [OF this] show ?thesis
    by (simp add: StatusTraceIDRatioBased_def demo_api_def)
qed

end
