(* ===== verification/Log_Context.thy ===== *)
theory Log_Context
  imports Log_Sampler Tel_Config
begin

text \<open>
  Loggers, contexts and events (ctx_fields.go, zlog.go, zlog_fields.go). A zerolog logger is what the
  code built it from: its writer and the calls made on it, in order; what zerolog prints for them
  is not modelled. A context is the values the library puts under its keys: the telemetry, the
  fields, and the span and logger that the SDK and zerolog store.
\<close>

section \<open>Fields\<close>

datatype fieldKind = FieldNone | FieldKindStr | FieldKindInt | FieldKindBool

record Field =
  fd_Key :: string
  fd_Str :: string
  fd_Int :: int
  fd_Kind :: fieldKind
  fd_Bool :: bool

definition StrField :: "string \<Rightarrow> string \<Rightarrow> Field" where
  "StrField key val = \<lparr> fd_Key = key, fd_Str = val, fd_Int = 0, fd_Kind = FieldKindStr, fd_Bool = False \<rparr>"

definition IntField :: "string \<Rightarrow> int \<Rightarrow> Field" where
  "IntField key val = \<lparr> fd_Key = key, fd_Str = [], fd_Int = val, fd_Kind = FieldKindInt, fd_Bool = False \<rparr>"

definition BoolField :: "string \<Rightarrow> bool \<Rightarrow> Field" where
  "BoolField key val = \<lparr> fd_Key = key, fd_Str = [], fd_Int = 0, fd_Kind = FieldKindBool, fd_Bool = val \<rparr>"

section \<open>Loggers\<close>

datatype logWriter = JsonOut | ConsoleOut | PrettyOut

datatype logValue = LStr string | LInt int | LBool bool | LFloat float64 | LErr go_error

datatype loggerOp =
  OpTimestamp | OpCaller | OpStack | OpField string logValue | OpSample rateSampler

record logger =
  lg_writer :: logWriter
  lg_ops :: "loggerOp list"

definition log_add :: "loggerOp \<Rightarrow> logger \<Rightarrow> logger" where
  "log_add op l = l\<lparr>lg_ops := lg_ops l @ [op]\<rparr>"

definition newLogger :: "logWriter \<Rightarrow> logger" where
  "newLogger out = \<lparr> lg_writer = out, lg_ops = [OpTimestamp, OpCaller, OpStack] \<rparr>"

text \<open>A field of no known kind adds nothing.\<close>

fun apply_field :: "Field \<Rightarrow> logger \<Rightarrow> logger" where
  "apply_field fd c =
     (case fd_Kind fd of
        FieldKindStr \<Rightarrow> log_add (OpField (fd_Key fd) (LStr (fd_Str fd))) c
      | FieldKindInt \<Rightarrow> log_add (OpField (fd_Key fd) (LInt (fd_Int fd))) c
      | FieldKindBool \<Rightarrow> log_add (OpField (fd_Key fd) (LBool (fd_Bool fd))) c
      | FieldNone \<Rightarrow> c)"

definition applyFields :: "logger \<Rightarrow> Field list \<Rightarrow> logger" where
  "applyFields c flds = fold apply_field flds c"

section \<open>Contexts\<close>

record spanContext =
  sc_TraceID :: string
  sc_SpanID :: string
  sc_valid :: bool

record 'tel goContext =
  cx_tel :: "'tel option"
  cx_fields :: "Field list option"
  cx_span :: spanContext
  cx_logger :: "logger option"

definition noSpan :: spanContext where
  "noSpan = \<lparr> sc_TraceID = replicate 32 CHR ''0'', sc_SpanID = replicate 16 CHR ''0'', sc_valid = False \<rparr>"

definition Background :: "'tel goContext" where
  "Background = \<lparr> cx_tel = None, cx_fields = None, cx_span = noSpan, cx_logger = None \<rparr>"

definition fieldsFromCtx :: "'tel goContext \<Rightarrow> Field list" where
  "fieldsFromCtx ctx = (case cx_fields ctx of None \<Rightarrow> [] | Some flds \<Rightarrow> flds)"

definition WithFields :: "'tel goContext \<Rightarrow> Field list \<Rightarrow> 'tel goContext" where
  "WithFields ctx flds =
     (if length flds = 0 then ctx
      else let parent = fieldsFromCtx ctx in ctx\<lparr>cx_fields := Some (parent @ flds)\<rparr>)"

definition WrapContext :: "'tel goContext \<Rightarrow> 'tel \<Rightarrow> 'tel goContext" where
  "WrapContext ctx t = ctx\<lparr>cx_tel := Some t\<rparr>"

text \<open>FromCtx falls back on the process-wide telemetry.\<close>

definition FromCtx :: "'tel \<Rightarrow> 'tel goContext \<Rightarrow> 'tel" where
  "FromCtx global ctx = (case cx_tel ctx of Some t \<Rightarrow> t | None \<Rightarrow> global)"

section \<open>Loggers of a context\<close>

definition FieldTraceID :: string where "FieldTraceID = ''trace_id''"
definition FieldSpanID :: string where "FieldSpanID = ''span_id''"
definition FieldService :: string where "FieldService = ''service''"
definition FieldPod :: string where "FieldPod = ''pod''"
definition FieldNamespace :: string where "FieldNamespace = ''namespace''"
definition FieldEnvironment :: string where "FieldEnvironment = ''environment''"
definition FieldVersion :: string where "FieldVersion = ''version''"
definition FieldFunction :: string where "FieldFunction = ''function''"
definition FieldDurationMs :: string where "FieldDurationMs = ''duration_ms''"
definition FieldDurationS :: string where "FieldDurationS = ''duration_s''"

definition add_str :: "string \<Rightarrow> string \<Rightarrow> logger \<Rightarrow> logger" where
  "add_str key val = log_add (OpField key (LStr val))"

text \<open>zerolog.Ctx: the logger stored on the context, else the default context logger.\<close>

definition zerolog_Ctx :: "logger \<Rightarrow> 'tel goContext \<Rightarrow> logger" where
  "zerolog_Ctx deflt ctx = (case cx_logger ctx of Some l \<Rightarrow> l | None \<Rightarrow> deflt)"

text \<open>The process logger is also zerolog's default context logger: SetLogger stores it in both.\<close>

definition Ctx :: "logger \<Rightarrow> 'tel goContext \<Rightarrow> logger" where
  "Ctx process ctx =
     (let sc = cx_span ctx; flds = fieldsFromCtx ctx
      in if \<not> sc_valid sc \<and> length flds = 0 then zerolog_Ctx process ctx
         else let c = process;
                  c1 = (if sc_valid sc
                        then add_str FieldSpanID (sc_SpanID sc) (add_str FieldTraceID (sc_TraceID sc) c)
                        else c)
              in if length flds > 0 then applyFields c1 flds else c1)"

definition contextWithTraceLogger :: "logger \<Rightarrow> 'tel goContext \<Rightarrow> 'tel goContext" where
  "contextWithTraceLogger process ctx =
     (let sc = cx_span ctx; flds = fieldsFromCtx ctx
      in if \<not> sc_valid sc \<and> length flds = 0 then ctx
         else let c = process;
                  c1 = (if sc_valid sc
                        then add_str FieldSpanID (sc_SpanID sc) (add_str FieldTraceID (sc_TraceID sc) c)
                        else c);
                  c2 = (if length flds > 0 then applyFields c1 flds else c1)
              in ctx\<lparr>cx_logger := Some c2\<rparr>)"

end
