(* ===== verification/Logging.thy ===== *)
theory Logging
  imports Log_Context
begin

text \<open>
  The process logger and its events (zlog.go, zlog_fields.go): its configuration, the events the
  package functions open and close, FatalEvent and the adaptive duration. The observable state is
  the process logger, zerolog's global level, and the trace of what the library has called, which
  spans and events share.
\<close>

section \<open>The observable state\<close>

datatype logLevel = LvDebug | LvInfo | LvWarn | LvError | LvFatal

text \<open>Levels are ordered by severity.\<close>

fun severity :: "logLevel \<Rightarrow> nat" where
  "severity LvDebug = 0"
| "severity LvInfo = 1"
| "severity LvWarn = 2"
| "severity LvError = 3"
| "severity LvFatal = 4"

lemma severity_inj: "severity x = severity y \<Longrightarrow> x = y"
  by (cases x; cases y) simp_all

instantiation logLevel :: linorder
begin

definition less_eq_logLevel :: "logLevel \<Rightarrow> logLevel \<Rightarrow> bool" where
  "less_eq_logLevel x y \<longleftrightarrow> severity x \<le> severity y"

definition less_logLevel :: "logLevel \<Rightarrow> logLevel \<Rightarrow> bool" where
  "less_logLevel x y \<longleftrightarrow> severity x < severity y"

instance
  by standard (auto simp: less_eq_logLevel_def less_logLevel_def dest: severity_inj)

end

text \<open>An event remembers its logger, and the frames its caller is looked up above it.\<close>

record event =
  ev_level :: logLevel
  ev_logger :: logger
  ev_skip :: nat
  ev_fields :: "(string \<times> logValue) list"

text \<open>The options of a span start that the library passes to the SDK.\<close>

datatype spanOption = SpanKindServer | SpanAttribute string string

datatype act =
    SpanStart nat string "spanOption list"
  | SpanRecordError nat go_error
  | SpanSetError nat string
  | SpanEnd nat
  | LogMsg event string
  | ExitCalled int

record obs =
  ob_process :: logger
  ob_level :: int
  ob_colors :: bool
  ob_trace :: "act list"
  ob_next :: nat

definition emit :: "act \<Rightarrow> obs \<Rightarrow> obs" where
  "emit a w = w\<lparr>ob_trace := ob_trace w @ [a]\<rparr>"

definition SetLogger :: "logger \<Rightarrow> obs \<Rightarrow> obs" where
  "SetLogger l w = w\<lparr>ob_process := l\<rparr>"

section \<open>Events\<close>

definition new_event :: "logLevel \<Rightarrow> logger \<Rightarrow> event" where
  "new_event lvl l = \<lparr> ev_level = lvl, ev_logger = l, ev_skip = 0, ev_fields = [] \<rparr>"

definition ev_add :: "string \<Rightarrow> logValue \<Rightarrow> event \<Rightarrow> event" where
  "ev_add key v e = e\<lparr>ev_fields := ev_fields e @ [(key, v)]\<rparr>"

definition ev_Msg :: "event \<Rightarrow> string \<Rightarrow> obs \<Rightarrow> obs" where
  "ev_Msg e msg w = emit (LogMsg e msg) w"

definition log_Debug :: "obs \<Rightarrow> event" where "log_Debug w = new_event LvDebug (ob_process w)"
definition log_Info :: "obs \<Rightarrow> event" where "log_Info w = new_event LvInfo (ob_process w)"
definition log_Warn :: "obs \<Rightarrow> event" where "log_Warn w = new_event LvWarn (ob_process w)"
definition log_Error :: "obs \<Rightarrow> event" where "log_Error w = new_event LvError (ob_process w)"

definition DebugCtx :: "obs \<Rightarrow> 'tel goContext \<Rightarrow> event" where
  "DebugCtx w ctx = new_event LvDebug (Ctx (ob_process w) ctx)"

definition InfoCtx :: "obs \<Rightarrow> 'tel goContext \<Rightarrow> event" where
  "InfoCtx w ctx = new_event LvInfo (Ctx (ob_process w) ctx)"

definition WarnCtx :: "obs \<Rightarrow> 'tel goContext \<Rightarrow> event" where
  "WarnCtx w ctx = new_event LvWarn (Ctx (ob_process w) ctx)"

definition ErrorCtx :: "obs \<Rightarrow> 'tel goContext \<Rightarrow> event" where
  "ErrorCtx w ctx = new_event LvError (Ctx (ob_process w) ctx)"

definition Fatal :: "obs \<Rightarrow> event" where
  "Fatal w = (new_event LvFatal (ob_process w))\<lparr>ev_skip := 1\<rparr>"

text \<open>zerolog's key for the error.\<close>

definition ev_Err :: "event \<Rightarrow> go_error option \<Rightarrow> event" where
  "ev_Err e err = (case err of None \<Rightarrow> e | Some x \<Rightarrow> ev_add ''error'' (LErr x) e)"

definition Fatal_Err :: "event \<Rightarrow> go_error option \<Rightarrow> event" where
  "Fatal_Err f err = ev_Err f err"

definition Fatal_Str :: "event \<Rightarrow> string \<Rightarrow> string \<Rightarrow> event" where
  "Fatal_Str f key val = ev_add key (LStr val) f"

text \<open>The exit function is called with 1; what it does, if it returns, is its own.\<close>

definition Fatal_Msg :: "(int \<Rightarrow> obs \<Rightarrow> obs) \<Rightarrow> event \<Rightarrow> string \<Rightarrow> obs \<Rightarrow> obs" where
  "Fatal_Msg exitFn f msg w = exitFn 1 (ev_Msg f msg w)"

text \<open>zerolog formats the message with fmt.Sprintf, the parameter \<open>sprintf\<close>.\<close>

definition Fatal_Msgf ::
  "(string \<Rightarrow> 'v list \<Rightarrow> string) \<Rightarrow> (int \<Rightarrow> obs \<Rightarrow> obs) \<Rightarrow> event \<Rightarrow> string \<Rightarrow> 'v list \<Rightarrow> obs \<Rightarrow> obs" where
  "Fatal_Msgf sprintf exitFn f fmt v w = exitFn 1 (ev_Msg f (sprintf fmt v) w)"

definition Func :: "event \<Rightarrow> string \<Rightarrow> event" where
  "Func e name = ev_add FieldFunction (LStr name) e"

fun f_add :: "(rat \<Rightarrow> float64) \<Rightarrow> float64 \<Rightarrow> float64 \<Rightarrow> float64" where
  "f_add rnd (Fin a) (Fin b) = rnd (a + b)"
| "f_add rnd NaN y = NaN"
| "f_add rnd x NaN = NaN"
| "f_add rnd PosInf NegInf = NaN"
| "f_add rnd NegInf PosInf = NaN"
| "f_add rnd PosInf y = PosInf"
| "f_add rnd NegInf y = NegInf"
| "f_add rnd (Fin a) PosInf = PosInf"
| "f_add rnd (Fin a) NegInf = NegInf"

text \<open>Go's Duration.Seconds and Duration.Milliseconds.\<close>

definition duration_seconds :: "(rat \<Rightarrow> float64) \<Rightarrow> int \<Rightarrow> float64" where
  "duration_seconds rnd d =
     f_add rnd (rnd (of_int (go_quot d second)))
       (f_div rnd (rnd (of_int (d - go_quot d second * second))) (of_int second))"

definition duration_milliseconds :: "int \<Rightarrow> int" where
  "duration_milliseconds d = go_quot d millisecond"

definition Duration :: "(rat \<Rightarrow> float64) \<Rightarrow> event \<Rightarrow> int \<Rightarrow> event" where
  "Duration rnd e d =
     (if d < second then ev_add FieldDurationMs (LInt (duration_milliseconds d)) e
      else ev_add FieldDurationS (LFloat (duration_seconds rnd d)) e)"

section \<open>Configuration of the process logger\<close>

record loggerOptions =
  lo_Level :: string
  lo_JSON :: bool
  lo_Pretty :: bool

text \<open>
  zerolog's ParseLevel is the parameter \<open>level_api\<close>, its InfoLevel the parameter \<open>info\<close>;
  applyConsoleLevelColors changes zerolog's colours once.
\<close>

definition InitLogger :: "level_api \<Rightarrow> int \<Rightarrow> loggerOptions \<Rightarrow> obs \<Rightarrow> obs" where
  "InitLogger la info opts w =
     (let lvl = (case ParseLevel la (trim_space (lo_Level opts)) of None \<Rightarrow> info | Some l \<Rightarrow> l);
          w1 = w\<lparr>ob_level := lvl\<rparr>
      in if \<not> lo_JSON opts then SetLogger (newLogger ConsoleOut) (w1\<lparr>ob_colors := True\<rparr>)
         else if lo_Pretty opts then SetLogger (newLogger PrettyOut) w1
         else SetLogger (newLogger JsonOut) w1)"

definition add_trimmed :: "string \<Rightarrow> string \<Rightarrow> logger \<Rightarrow> logger" where
  "add_trimmed key v c = (let s = trim_space v in if s \<noteq> [] then add_str key s c else c)"

definition withServiceFields :: "env_api \<Rightarrow> environment \<Rightarrow> logger \<Rightarrow> Config \<Rightarrow> logger" where
  "withServiceFields ea e l cfg =
     (let c1 = add_trimmed FieldService (cf_Service cfg) l;
          pod = resolvePod ea e cfg;
          c2 = (if pod \<noteq> [] then add_str FieldPod pod c1 else c1);
          c3 = add_trimmed FieldNamespace (cf_Namespace cfg) c2;
          c4 = add_trimmed FieldEnvironment (cf_Environment cfg) c3
      in add_trimmed FieldVersion (cf_Version cfg) c4)"

definition config_options :: "env_api \<Rightarrow> Config \<Rightarrow> loggerOptions" where
  "config_options ea cfg =
     (let opts = \<lparr> lo_Level = cf_LogLevel cfg, lo_JSON = True, lo_Pretty = False \<rparr>;
          encode = to_lower (ea_ulower ea) (trim_space (cf_LogEncode cfg))
      in if encode \<in> {''console'', ''text''} then opts\<lparr>lo_JSON := False\<rparr>
         else if encode \<in> {''pretty'', ''json_pretty'', ''json-pretty''} then opts\<lparr>lo_Pretty := True\<rparr>
         else opts)"

definition applyLoggerFromConfig ::
  "level_api \<Rightarrow> int \<Rightarrow> env_api \<Rightarrow> environment \<Rightarrow> Config \<Rightarrow> obs \<Rightarrow> obs" where
  "applyLoggerFromConfig la info ea e cfg w =
     (let w1 = InitLogger la info (config_options ea cfg) w;
          l = withServiceFields ea e (ob_process w1) cfg;
          l1 = (if cf_MaxMessagesPerSecond cfg > 0 \<or> \<not> blank (cf_MaxLevelMessagesPerSecond cfg)
                then let limits = parseLevelMessageLimits la (cf_MaxLevelMessagesPerSecond cfg)
                     in log_add (OpSample (NewRateSampler la (cf_MaxMessagesPerSecond cfg)
                          (case limits of None \<Rightarrow> [] | Some ls \<Rightarrow> ls))) l
                else l)
      in SetLogger l1 w1)"

definition ConfigureLogger ::
  "level_api \<Rightarrow> int \<Rightarrow> env_api \<Rightarrow> environment \<Rightarrow> Config \<Rightarrow> obs \<Rightarrow> obs" where
  "ConfigureLogger la info ea e cfg w = applyLoggerFromConfig la info ea e cfg w"

section \<open>What they do\<close>

lemma add_str_ops [simp]: "lg_ops (add_str k v l) = lg_ops l @ [OpField k (LStr v)]"
  "lg_writer (add_str k v l) = lg_writer l"
  by (simp_all add: add_str_def log_add_def)

fun field_ops :: "Field \<Rightarrow> loggerOp list" where
  "field_ops fd =
     (case fd_Kind fd of
        FieldKindStr \<Rightarrow> [OpField (fd_Key fd) (LStr (fd_Str fd))]
      | FieldKindInt \<Rightarrow> [OpField (fd_Key fd) (LInt (fd_Int fd))]
      | FieldKindBool \<Rightarrow> [OpField (fd_Key fd) (LBool (fd_Bool fd))]
      | FieldNone \<Rightarrow> [])"

lemma applyFields_ops:
  "lg_ops (applyFields l fs) = lg_ops l @ concat (map field_ops fs) \<and>
   lg_writer (applyFields l fs) = lg_writer l"
  unfolding applyFields_def
proof (induction fs arbitrary: l)
  case (Cons f fs)
  have "lg_ops (apply_field f l) = lg_ops l @ field_ops f" "lg_writer (apply_field f l) = lg_writer l"
    by (simp_all add: log_add_def split: fieldKind.split)
  then show ?case using Cons.IH [of "apply_field f l"] by (simp only: fold_simps list.map concat.simps append_assoc)
qed simp

definition span_ops :: "spanContext \<Rightarrow> loggerOp list" where
  "span_ops sc =
     (if sc_valid sc then [OpField FieldTraceID (LStr (sc_TraceID sc)), OpField FieldSpanID (LStr (sc_SpanID sc))]
      else [])"

lemma Ctx_ops:
  assumes "sc_valid (cx_span ctx) \<or> fieldsFromCtx ctx \<noteq> []"
  shows "lg_ops (Ctx process ctx) =
      lg_ops process @ span_ops (cx_span ctx) @ concat (map field_ops (fieldsFromCtx ctx)) \<and>
    lg_writer (Ctx process ctx) = lg_writer process"
  using assms by (auto simp: Ctx_def Let_def span_ops_def applyFields_ops)

end
