(* ===== verification/Log_Props.thy ===== *)
theory Log_Props
  imports Logging
begin

text \<open>What a configured logger and the logger of a context carry.\<close>

text \<open>
  Log lines correlate: the logger of a context, whatever was stacked on it with WithFields, is
  the process logger with the trace and span id of the context's span when that is valid, followed
  by the fields in the order they were attached, parents first; a context with neither keeps
  zerolog's own choice. Storing the logger on the context, as StartSpan does, makes zerolog's
  own lookup agree with Ctx.
\<close>

theorem ctx_logger_correlates:
  "lg_ops (Ctx process (WithFields (WithFields ctx fs) gs)) =
     (if \<not> sc_valid (cx_span ctx) \<and> fieldsFromCtx ctx @ fs @ gs = []
      then lg_ops (zerolog_Ctx process ctx)
      else lg_ops process @ span_ops (cx_span ctx) @
           concat (map field_ops (fieldsFromCtx ctx @ fs @ gs))) \<and>
   zerolog_Ctx process (contextWithTraceLogger process ctx) = Ctx process ctx"
proof
  let ?ctx = "WithFields (WithFields ctx fs) gs"
  let ?all = "fieldsFromCtx ctx @ fs @ gs"
  have with_fs: "fieldsFromCtx (WithFields c hs) = fieldsFromCtx c @ hs" "cx_span (WithFields c hs) = cx_span c"
    "cx_logger (WithFields c hs) = cx_logger c" for c :: "'a goContext" and hs
    by (auto simp: WithFields_def fieldsFromCtx_def Let_def split: option.split)
  show "lg_ops (Ctx process ?ctx) =
     (if \<not> sc_valid (cx_span ctx) \<and> ?all = [] then lg_ops (zerolog_Ctx process ctx)
      else lg_ops process @ span_ops (cx_span ctx) @ concat (map field_ops ?all))"
  proof (cases "\<not> sc_valid (cx_span ctx) \<and> ?all = []")
    case True
    then show ?thesis by (simp add: Ctx_def Let_def with_fs zerolog_Ctx_def)
  next
    case False
    then have "sc_valid (cx_span ?ctx) \<or> fieldsFromCtx ?ctx \<noteq> []" by (simp add: with_fs)
    then show ?thesis using Ctx_ops [of ?ctx process] False
      by (simp only: with_fs append_assoc if_False if_not_P simp_thms)
  qed
  show "zerolog_Ctx process (contextWithTraceLogger process ctx) = Ctx process ctx"
    by (simp add: contextWithTraceLogger_def Ctx_def Let_def zerolog_Ctx_def)
qed

definition service_op :: "string \<Rightarrow> string \<Rightarrow> loggerOp list" where
  "service_op key v = (if v = [] then [] else [OpField key (LStr v)])"

lemma add_trimmed_ops [simp]:
  "lg_ops (add_trimmed key v c) = lg_ops c @ service_op key (trim_space v)"
  "lg_writer (add_trimmed key v c) = lg_writer c"
  by (simp_all add: add_trimmed_def service_op_def Let_def)

definition log_encode :: "env_api \<Rightarrow> Config \<Rightarrow> string" where
  "log_encode ea cfg = to_lower (ea_ulower ea) (trim_space (cf_LogEncode cfg))"

text \<open>
  C38: The process logger follows the configuration: its level is the configured one, or info when
  that does not parse; it writes to the console, indented JSON or JSON as the encoding says,
  whatever its case and surrounding space; and it carries timestamp, caller and stack, the service,
  pod, namespace, environment and version that are not blank, trimmed, and, exactly when one of the
  limits is set, the rate sampler of these limits.
\<close>

theorem logger_configured:
  "ob_level (applyLoggerFromConfig la info ea e cfg w) = (case ParseLevel la (trim_space (cf_LogLevel cfg)) of None \<Rightarrow> info | Some l \<Rightarrow> l) \<and>
    lg_writer (ob_process (applyLoggerFromConfig la info ea e cfg w)) =
      (if log_encode ea cfg \<in> {''console'', ''text''} then ConsoleOut
       else if log_encode ea cfg \<in> {''pretty'', ''json_pretty'', ''json-pretty''} then PrettyOut else JsonOut) \<and>
    lg_ops (ob_process (applyLoggerFromConfig la info ea e cfg w)) = [OpTimestamp, OpCaller, OpStack] @
      service_op FieldService (trim_space (cf_Service cfg)) @ service_op FieldPod (resolvePod ea e cfg) @
      service_op FieldNamespace (trim_space (cf_Namespace cfg)) @
      service_op FieldEnvironment (trim_space (cf_Environment cfg)) @
      service_op FieldVersion (trim_space (cf_Version cfg)) @
      (if cf_MaxMessagesPerSecond cfg \<le> 0 \<and> trim_space (cf_MaxLevelMessagesPerSecond cfg) = [] then []
       else [OpSample (NewRateSampler la (cf_MaxMessagesPerSecond cfg)
          (case parseLevelMessageLimits la (cf_MaxLevelMessagesPerSecond cfg) of None \<Rightarrow> [] | Some ls \<Rightarrow> ls))])"
proof -
  have writer: "lg_writer (withServiceFields ea e l cfg) = lg_writer l"
    and ops: "lg_ops (withServiceFields ea e l cfg) = lg_ops l @
      service_op FieldService (trim_space (cf_Service cfg)) @ service_op FieldPod (resolvePod ea e cfg) @
      service_op FieldNamespace (trim_space (cf_Namespace cfg)) @
      service_op FieldEnvironment (trim_space (cf_Environment cfg)) @
      service_op FieldVersion (trim_space (cf_Version cfg))" for l
    by (simp_all add: withServiceFields_def Let_def service_op_def)
  show ?thesis
    unfolding applyLoggerFromConfig_def Let_def
    by (simp add: log_add_def SetLogger_def writer ops InitLogger_def config_options_def log_encode_def newLogger_def
        blank_def Let_def)
qed

end
