(* ===== verification/Log_Stack.thy ===== *)
theory Log_Stack
  imports Go_Strings
begin

text \<open>
  Stack traces in log lines (zlog.go): call sites, the frames of an error, their console form and
  the parser that reads them back from a decoded event. The program counters' frames
  (runtime.CallersFrames) and the JSON package are parameters.
\<close>

section \<open>Frames\<close>

record stackFrame =
  sf_Func :: string
  sf_Source :: string
  sf_Line :: int

text \<open>A frame of the runtime: function, file, line.\<close>

type_synonym runtimeFrame = "string \<times> string \<times> int"

text \<open>The name of a function, if the runtime knows one, from its last slash on.\<close>

definition marshalCaller :: "string option \<Rightarrow> int \<Rightarrow> string" where
  "marshalCaller fn line =
     (let name = (case fn of None \<Rightarrow> ''???'' | Some n \<Rightarrow> after_last CHR ''/'' n)
      in name @ '':'' @ itoa line)"

definition skipStackFrame :: "string \<Rightarrow> bool" where
  "skipStackFrame fn =
     (if contains fn ''github.com/rs/zerolog'' then True
      else if contains fn ''marshalErrorStack'' then True
      else if contains fn ''captureRuntimeStack'' then True
      else if contains fn ''stackFromTracer'' then True
      else if contains fn ''framesFromPCs'' then True
      else if contains fn ''tel.(*FatalEvent).Err'' then True
      else False)"

definition frame_step :: "runtimeFrame \<Rightarrow> stackFrame list \<Rightarrow> stackFrame list" where
  "frame_step frame out =
     (case frame of (fn, file, line) \<Rightarrow>
        if fn \<noteq> [] \<and> \<not> skipStackFrame fn
        then out @ [\<lparr> sf_Func = after_last CHR ''/'' fn, sf_Source = after_last CHR ''/'' file, sf_Line = line \<rparr>]
        else out)"

text \<open>CallersFrames yields at least one frame for a nonempty list of counters.\<close>

definition framesFromPCs :: "('pc list \<Rightarrow> runtimeFrame list) \<Rightarrow> 'pc list \<Rightarrow> stackFrame list" where
  "framesFromPCs callers pcs = (if length pcs = 0 then [] else fold frame_step (callers pcs) [])"

text \<open>
  An error chain as errors.Unwrap walks it: each error with the counters of its StackTrace, if it
  has that method.
\<close>

type_synonym 'pc errorChain = "'pc list option list"

fun stackFromTracer :: "('pc list \<Rightarrow> runtimeFrame list) \<Rightarrow> 'pc errorChain \<Rightarrow> stackFrame list" where
  "stackFromTracer callers [] = []"
| "stackFromTracer callers (Some pcs # es) = framesFromPCs callers pcs"
| "stackFromTracer callers (None # es) = stackFromTracer callers es"

text \<open>At most 64 counters of the current goroutine, from the caller of captureRuntimeStack on.\<close>

definition captureRuntimeStack :: "('pc list \<Rightarrow> runtimeFrame list) \<Rightarrow> 'pc list \<Rightarrow> stackFrame list" where
  "captureRuntimeStack callers current =
     (let pcs = take 64 current in if length pcs = 0 then [] else framesFromPCs callers pcs)"

definition marshalErrorStack ::
  "('pc list \<Rightarrow> runtimeFrame list) \<Rightarrow> 'pc list \<Rightarrow> 'pc errorChain \<Rightarrow> stackFrame list option" where
  "marshalErrorStack callers current err =
     (if err = [] then None
      else let frames = stackFromTracer callers err
           in if length frames > 0 then Some frames else Some (captureRuntimeStack callers current))"

section \<open>Decoded events\<close>

text \<open>
  A value of a decoded event as the parser looks at it: \<open>JFloat\<close> is a float64 that holds this
  whole number, \<open>JNumber\<close> a json.Number, which is the number's text, \<open>JOther\<close> any other value.
\<close>

datatype jsonValue =
    JString string
  | JFloat int
  | JNumber string
  | JInt int
  | JMap "(string \<times> jsonValue) list"
  | JList "jsonValue list"
  | JBytes string
  | JFrames "stackFrame list"
  | JOther

text \<open>
  The number that Int64 of a json.Number yields beside its error: strconv.ParseInt gives the nearest
  int64 to a number out of range, and 0 for a text that is no decimal integer.
\<close>

definition number_Int64 :: "string \<Rightarrow> int" where
  "number_Int64 s =
     (case atoi s of
        Some n \<Rightarrow> n
      | None \<Rightarrow>
          let neg = (case s of c # r \<Rightarrow> c = CHR ''-'' | [] \<Rightarrow> False);
              digits = (case s of c # r \<Rightarrow> if c = CHR ''-'' \<or> c = CHR ''+'' then r else s | [] \<Rightarrow> [])
          in if digits = [] \<or> \<not> list_all is_digit digits then 0
             else if neg then - (2 ^ 63) else 2 ^ 63 - 1)"

definition frame_of_map :: "(string \<times> jsonValue) list \<Rightarrow> stackFrame" where
  "frame_of_map raw =
     (let frame = \<lparr> sf_Func = [], sf_Source = [], sf_Line = 0 \<rparr>;
          frame1 = (case map_of raw ''func'' of Some (JString s) \<Rightarrow> frame\<lparr>sf_Func := s\<rparr> | _ \<Rightarrow> frame);
          frame2 = (case map_of raw ''source'' of Some (JString s) \<Rightarrow> frame1\<lparr>sf_Source := s\<rparr> | _ \<Rightarrow> frame1)
      in (case map_of raw ''line'' of
            Some (JFloat n) \<Rightarrow> frame2\<lparr>sf_Line := n\<rparr>
          | Some (JNumber t) \<Rightarrow> frame2\<lparr>sf_Line := number_Int64 t\<rparr>
          | Some (JInt n) \<Rightarrow> frame2\<lparr>sf_Line := n\<rparr>
          | _ \<Rightarrow> frame2))"

fun frames_step :: "jsonValue \<Rightarrow> stackFrame list \<Rightarrow> stackFrame list" where
  "frames_step (JMap raw) frames =
     (let frame = frame_of_map raw in if sf_Func frame \<noteq> [] then frames @ [frame] else frames)"
| "frames_step v frames = frames"

definition stackFramesFromMaps :: "jsonValue list \<Rightarrow> stackFrame list option" where
  "stackFramesFromMaps items =
     (let frames = fold frames_step items [] in if length frames > 0 then Some frames else None)"

text \<open>json.Unmarshal into frames, and json.Marshal of a value.\<close>

record json_api =
  js_Unmarshal :: "string \<Rightarrow> stackFrame list option"
  js_Marshal :: "jsonValue \<Rightarrow> string option"

definition unmarshalStackFrames :: "json_api \<Rightarrow> string \<Rightarrow> stackFrame list option" where
  "unmarshalStackFrames js raw =
     (case js_Unmarshal js raw of
        None \<Rightarrow> None | Some frames \<Rightarrow> if length frames = 0 then None else Some frames)"

definition parseStackFrames :: "json_api \<Rightarrow> jsonValue \<Rightarrow> stackFrame list option" where
  "parseStackFrames js value =
     (case value of
        JFrames t \<Rightarrow> if length t > 0 then Some t else None
      | JBytes t \<Rightarrow> unmarshalStackFrames js t
      | JList t \<Rightarrow> stackFramesFromMaps t
      | v \<Rightarrow> (case js_Marshal js v of None \<Rightarrow> None | Some raw \<Rightarrow> unmarshalStackFrames js raw))"

definition newline :: char where
  "newline = CHR 0x0A"

fun frame_lines :: "stackFrame list \<Rightarrow> string" where
  "frame_lines [] = []"
| "frame_lines (f # fs) =
     newline # ''  '' @ sf_Func f @ '' '' @ sf_Source f @ '':'' @ itoa (sf_Line f) @ frame_lines fs"

definition formatConsoleStackExtra :: "json_api \<Rightarrow> (string \<times> jsonValue) list \<Rightarrow> string \<Rightarrow> string" where
  "formatConsoleStackExtra js evt buf =
     (case map_of evt ''stack'' of
        None \<Rightarrow> buf
      | Some v \<Rightarrow>
          (case parseStackFrames js v of
             None \<Rightarrow> buf
           | Some frames \<Rightarrow> buf @ newline # ''stack:'' @ frame_lines frames))"

text \<open>
  prettyJSONWriter.Write: what reaches the underlying writer, for the json.Indent of the
  parameter; the result is the length of the input, or the writer's own answer where the line is
  no JSON.
\<close>

definition prettyWrite ::
  "(string \<Rightarrow> string option) \<Rightarrow> (string \<Rightarrow> (go_error option \<times> int)) \<Rightarrow> string \<Rightarrow> string \<times> int \<times> go_error option" where
  "prettyWrite indent write data =
     (case indent (trim_space data) of
        None \<Rightarrow> (case write data of (err, n) \<Rightarrow> (data, n, err))
      | Some b \<Rightarrow>
          let line = b @ [newline]
          in (case write line of
                (Some err, n) \<Rightarrow> (line, 0, Some err)
              | (None, n) \<Rightarrow> (line, int (length data), None)))"

section \<open>Frames survive the round through a decoded event\<close>

text \<open>
  How the line number of a frame comes back from JSON: zerolog's console decoder keeps numbers as
  json.Number, json.Unmarshal makes them float64, and a value that was never encoded is an int.
\<close>

datatype lineForm = NumberLine | FloatLine | IntLine

fun decoded_line :: "lineForm \<Rightarrow> int \<Rightarrow> jsonValue" where
  "decoded_line NumberLine n = JNumber (itoa n)"
| "decoded_line FloatLine n = JFloat n"
| "decoded_line IntLine n = JInt n"

definition frame_map :: "lineForm \<times> stackFrame \<Rightarrow> jsonValue" where
  "frame_map nf = (case nf of (form, f) \<Rightarrow>
     JMap [(''func'', JString (sf_Func f)), (''source'', JString (sf_Source f)),
       (''line'', decoded_line form (sf_Line f))])"

lemma number_itoa: "in_i64 n \<Longrightarrow> number_Int64 (itoa n) = n"
  by (simp add: number_Int64_def atoi_itoa)

lemma frame_of_frame_map:
  "in_i64 (sf_Line f) \<Longrightarrow> frames_step (frame_map (form, f)) acc = (if sf_Func f \<noteq> [] then acc @ [f] else acc)"
  by (cases form) (simp_all add: frame_map_def frame_of_map_def Let_def number_itoa)

lemma frames_step_maps:
  "\<forall>nf \<in> set fs. in_i64 (sf_Line (snd nf)) \<Longrightarrow>
    fold frames_step (map frame_map fs) acc = acc @ filter (\<lambda>f. sf_Func f \<noteq> []) (map snd fs)"
  by (induction fs arbitrary: acc) (auto simp: frame_of_frame_map)

text \<open>The console form of a stack: nothing for no frames, else a heading and a line for each frame.\<close>

definition stack_text :: "stackFrame list \<Rightarrow> string" where
  "stack_text fs =
     (if fs = [] then []
      else newline # ''stack:'' @ concat (map (\<lambda>f. newline # ''  '' @ sf_Func f @ '' '' @ sf_Source f @ '':'' @
        itoa (sf_Line f)) fs))"

lemma frame_lines_text: "frame_lines fs = concat (map (\<lambda>f. newline # ''  '' @ sf_Func f @ '' '' @ sf_Source f @ '':'' @
    itoa (sf_Line f)) fs)"
  by (induction fs) simp_all

lemma frames_fold:
  "fold frame_step rts acc = acc @ concat (map (\<lambda>rt. frame_step rt []) rts)"
proof (induction rts arbitrary: acc)
  case (Cons rt rts)
  have "frame_step rt acc = acc @ frame_step rt []" by (simp add: frame_step_def split: prod.split)
  then show ?case using Cons.IH by simp
qed simp

text \<open>What a frame that is logged looks like.\<close>

definition clean_frame :: "stackFrame \<Rightarrow> bool" where
  "clean_frame f \<longleftrightarrow> CHR ''/'' \<notin> set (sf_Func f) \<and> CHR ''/'' \<notin> set (sf_Source f)"

lemma framesFromPCs_clean: "\<forall>f \<in> set (framesFromPCs callers pcs). clean_frame f"
  by (auto simp: framesFromPCs_def frames_fold frame_step_def clean_frame_def after_last_notin
      split: if_splits)

text \<open>
  C40: A stack printed on the console is the stack that was logged: the frames of an error, decoded
  from the JSON line as maps whose line numbers are json.Number, float64 or int, each as the
  decoder in use makes them, print as a heading and one line for each frame that names a function,
  with its function, file and line, just as the frames themselves print when they were never
  encoded; and no frame of an error with a stack tracer keeps a directory in its function or file
  name.
\<close>

theorem stack_survives_decoding:
  assumes "\<forall>nf \<in> set fs. in_i64 (sf_Line (snd nf))"
  shows "formatConsoleStackExtra js [(''stack'', JList (map frame_map fs))] buf =
      buf @ stack_text (filter (\<lambda>f. sf_Func f \<noteq> []) (map snd fs)) \<and>
    formatConsoleStackExtra js [(''stack'', JFrames (map snd fs))] buf = buf @ stack_text (map snd fs) \<and>
    (\<forall>f \<in> set (stackFromTracer callers chain). clean_frame f)"
proof (intro conjI)
  show "formatConsoleStackExtra js [(''stack'', JList (map frame_map fs))] buf =
      buf @ stack_text (filter (\<lambda>f. sf_Func f \<noteq> []) (map snd fs))"
    using frames_step_maps [OF assms, of "[]"]
    by (simp add: formatConsoleStackExtra_def parseStackFrames_def stackFramesFromMaps_def
        stack_text_def frame_lines_text Let_def)
  show "formatConsoleStackExtra js [(''stack'', JFrames (map snd fs))] buf = buf @ stack_text (map snd fs)"
    by (simp add: formatConsoleStackExtra_def parseStackFrames_def stack_text_def frame_lines_text)
  show "\<forall>f \<in> set (stackFromTracer callers chain). clean_frame f"
    by (induction callers chain rule: stackFromTracer.induct) (simp_all add: framesFromPCs_clean)
qed

definition no_json :: json_api where
  "no_json = \<lparr> js_Unmarshal = (\<lambda>raw. None), js_Marshal = (\<lambda>v. None) \<rparr>"

definition demo_frames :: "nat list \<Rightarrow> runtimeFrame list" where
  "demo_frames pcs = map (\<lambda>pc. (''example.com/app/main.f'', ''/src/m.go'', int pc)) pcs"

text \<open>A stack as the console decoder reads it.\<close>

theorem stack_survives_decoding_witness:
  "formatConsoleStackExtra no_json [(''stack'', JList [
       JMap [(''func'', JString ''main.f''), (''source'', JString ''m.go''), (''line'', JNumber ''27'')],
       JMap [(''func'', JString ''runtime.main''), (''source'', JString ''proc.go''), (''line'', JNumber ''290'')]])] ''x''
     = ''x'' @ newline # ''stack:'' @ newline # ''  main.f m.go:27'' @ newline # ''  runtime.main proc.go:290'' \<and>
   clean_frame (hd (stackFromTracer demo_frames [None, Some [7]]))"
proof -
  let ?fs = "[(NumberLine, \<lparr> sf_Func = ''main.f'', sf_Source = ''m.go'', sf_Line = 27 \<rparr>),
    (NumberLine, \<lparr> sf_Func = ''runtime.main'', sf_Source = ''proc.go'', sf_Line = 290 \<rparr>)]"
  have "\<forall>nf \<in> set ?fs. in_i64 (sf_Line (snd nf))" by (simp add: in_i64_def)
  note props = stack_survives_decoding [OF this, of no_json "''x''" demo_frames "[None, Some [7]]"]
  have "stackFromTracer demo_frames [None, Some [7]] =
      [\<lparr> sf_Func = ''main.f'', sf_Source = ''m.go'', sf_Line = 7 \<rparr>]"
    by code_simp
  moreover have "itoa 27 = ''27''" "itoa 290 = ''290''" by code_simp+
  ultimately show ?thesis
    using props by (simp add: frame_map_def stack_text_def)
qed

end
