(* ===== verification/Log_Globals.thy ===== *)
theory Log_Globals
  imports Logging Interleaving
begin

text \<open>
  The globals of the logger (zlog.go), at the grain of the stores and loads that goroutines
  interleave. SetLogger moves its argument to the heap and stores the pointer twice, in the
  package's atomic pointer and in zerolog.DefaultContextLogger; between the two a reader of one
  and a reader of the other see different loggers. The theory Logging keeps one process logger; here
  it is shown that calls made one after the other implement it, and what calls that overlap can do.
\<close>

section \<open>The globals\<close>

datatype consoleLevel = DebugColor | InfoColor | WarnColor | ErrorColor | FatalColor | PanicColor

text \<open>
  Loggers that escape to the heap are numbered; none is written to after its address has been
  published. \<open>gl_logger\<close> and \<open>gl_context\<close> are the two pointers.
\<close>

record logGlobals =
  gl_store :: "addr \<Rightarrow> logger"
  gl_next :: addr
  gl_logger :: addr
  gl_context :: addr
  gl_level :: int
  gl_once :: bool
  gl_colors :: "consoleLevel \<Rightarrow> int"
  gl_exit :: "int \<Rightarrow> obs \<Rightarrow> obs"

text \<open>The package's init; zerolog's level and colours, and os.Exit, are those the process begins with.\<close>

definition log_init :: "int \<Rightarrow> (consoleLevel \<Rightarrow> int) \<Rightarrow> (int \<Rightarrow> obs \<Rightarrow> obs) \<Rightarrow> logGlobals" where
  "log_init level colors osExit =
     \<lparr> gl_store = (\<lambda>a. newLogger JsonOut), gl_next = 1, gl_logger = 0, gl_context = 0, gl_level = level,
       gl_once = False, gl_colors = colors, gl_exit = osExit \<rparr>"

definition getLogger :: "logGlobals \<Rightarrow> logger" where
  "getLogger g = gl_store g (gl_logger g)"

definition DefaultContextLogger :: "logGlobals \<Rightarrow> logger" where
  "DefaultContextLogger g = gl_store g (gl_context g)"

definition SetExitFunc :: "(int \<Rightarrow> obs \<Rightarrow> obs) \<Rightarrow> logGlobals \<Rightarrow> logGlobals" where
  "SetExitFunc fn g = g\<lparr>gl_exit := fn\<rparr>"

definition applyConsoleLevelColors :: "logGlobals \<Rightarrow> logGlobals" where
  "applyConsoleLevelColors g =
     (if gl_once g then g
      else g\<lparr>gl_once := True, gl_colors := (gl_colors g)
        (DebugColor := 34, InfoColor := 32, WarnColor := 33, ErrorColor := 31, FatalColor := 35,
         PanicColor := 35)\<rparr>)"

text \<open>The two stores of SetLogger.\<close>

definition store_logger :: "logger \<Rightarrow> logGlobals \<Rightarrow> logGlobals" where
  "store_logger l g =
     g\<lparr>gl_store := (gl_store g)(gl_next g := l), gl_next := gl_next g + 1, gl_logger := gl_next g\<rparr>"

definition store_context :: "addr \<Rightarrow> logGlobals \<Rightarrow> logGlobals" where
  "store_context a g = g\<lparr>gl_context := a\<rparr>"

section \<open>Calls and their steps\<close>

datatype logCall = CallSetLogger logger | CallInitLogger loggerOptions | CallConfigure Config

text \<open>Where a call continues once SetLogger returns.\<close>

datatype afterSet = ThenReturn | ThenService Config

datatype log_pc =
    LogIdle
  | WantLevel loggerOptions afterSet
  | WantWriter loggerOptions afterSet
  | WantSet logger afterSet
  | HalfSet addr afterSet
  | WantService Config

record log_proc =
  lp_glob :: logGlobals
  lp_pcs :: "nat \<Rightarrow> log_pc"

definition log_goto :: "nat \<Rightarrow> log_pc \<Rightarrow> log_proc \<Rightarrow> log_proc" where
  "log_goto t pc p = p\<lparr>lp_pcs := (lp_pcs p)(t := pc)\<rparr>"

text \<open>The writer of InitLogger, and the logger applyLoggerFromConfig makes of the one it loads.\<close>

definition writer_of :: "loggerOptions \<Rightarrow> logWriter" where
  "writer_of opts = (if \<not> lo_JSON opts then ConsoleOut else if lo_Pretty opts then PrettyOut else JsonOut)"

definition service_logger :: "level_api \<Rightarrow> env_api \<Rightarrow> environment \<Rightarrow> Config \<Rightarrow> logger \<Rightarrow> logger" where
  "service_logger la ea e cfg l0 =
     (let l = withServiceFields ea e l0 cfg
      in if cf_MaxMessagesPerSecond cfg > 0 \<or> \<not> blank (cf_MaxLevelMessagesPerSecond cfg)
         then let limits = parseLevelMessageLimits la (cf_MaxLevelMessagesPerSecond cfg)
              in log_add (OpSample (NewRateSampler la (cf_MaxMessagesPerSecond cfg)
                   (case limits of None \<Rightarrow> [] | Some ls \<Rightarrow> ls))) l
         else l)"

fun log_begin :: "env_api \<Rightarrow> logCall \<Rightarrow> log_pc" where
  "log_begin ea (CallSetLogger l) = WantSet l ThenReturn"
| "log_begin ea (CallInitLogger opts) = WantLevel opts ThenReturn"
| "log_begin ea (CallConfigure cfg) = WantLevel (config_options ea cfg) (ThenService cfg)"

text \<open>InitLogger: the level, the colours and the writer.\<close>

definition init_step :: "level_api \<Rightarrow> int \<Rightarrow> nat \<Rightarrow> log_proc \<Rightarrow> log_proc option" where
  "init_step la info t p =
     (case lp_pcs p t of
        WantLevel opts k \<Rightarrow>
          (let lvl = (case ParseLevel la (trim_space (lo_Level opts)) of None \<Rightarrow> info | Some l \<Rightarrow> l)
           in Some (log_goto t (WantWriter opts k) (p\<lparr>lp_glob := (lp_glob p)\<lparr>gl_level := lvl\<rparr>\<rparr>)))
      | WantWriter opts k \<Rightarrow>
          Some (log_goto t (WantSet (newLogger (writer_of opts)) k)
            (p\<lparr>lp_glob := (if lo_JSON opts then lp_glob p else applyConsoleLevelColors (lp_glob p))\<rparr>))
      | _ \<Rightarrow> None)"

text \<open>SetLogger: its two stores.\<close>

definition set_step :: "nat \<Rightarrow> log_proc \<Rightarrow> log_proc option" where
  "set_step t p =
     (case lp_pcs p t of
        WantSet l k \<Rightarrow>
          Some (log_goto t (HalfSet (gl_next (lp_glob p)) k) (p\<lparr>lp_glob := store_logger l (lp_glob p)\<rparr>))
      | HalfSet a k \<Rightarrow>
          Some (log_goto t (case k of ThenReturn \<Rightarrow> LogIdle | ThenService cfg \<Rightarrow> WantService cfg)
            (p\<lparr>lp_glob := store_context a (lp_glob p)\<rparr>))
      | _ \<Rightarrow> None)"

text \<open>applyLoggerFromConfig, from the load of the logger that InitLogger has set.\<close>

definition service_step ::
  "level_api \<Rightarrow> env_api \<Rightarrow> environment \<Rightarrow> nat \<Rightarrow> log_proc \<Rightarrow> log_proc option" where
  "service_step la ea e t p =
     (case lp_pcs p t of
        WantService cfg \<Rightarrow>
          Some (log_goto t (WantSet (service_logger la ea e cfg (getLogger (lp_glob p))) ThenReturn) p)
      | _ \<Rightarrow> None)"

definition log_step ::
  "level_api \<Rightarrow> int \<Rightarrow> env_api \<Rightarrow> environment \<Rightarrow> nat \<Rightarrow> log_proc \<Rightarrow> log_proc option" where
  "log_step la info ea e t p =
     (case lp_pcs p t of
        LogIdle \<Rightarrow> None
      | WantLevel opts k \<Rightarrow> init_step la info t p
      | WantWriter opts k \<Rightarrow> init_step la info t p
      | WantSet l k \<Rightarrow> set_step t p
      | HalfSet a k \<Rightarrow> set_step t p
      | WantService cfg \<Rightarrow> service_step la ea e t p)"

lemmas log_step_defs = log_step_def init_step_def set_step_def service_step_def

datatype log_event = LogBegin nat logCall | LogGo nat

fun log_exec ::
  "level_api \<Rightarrow> int \<Rightarrow> env_api \<Rightarrow> environment \<Rightarrow> log_event list \<Rightarrow> log_proc \<Rightarrow> log_proc option" where
  "log_exec la info ea e [] p = Some p"
| "log_exec la info ea e (LogBegin t c # evs) p =
     (if lp_pcs p t = LogIdle then log_exec la info ea e evs (log_goto t (log_begin ea c) p) else None)"
| "log_exec la info ea e (LogGo t # evs) p =
     (case log_step la info ea e t p of None \<Rightarrow> None | Some p1 \<Rightarrow> log_exec la info ea e evs p1)"

text \<open>The calls take no lock: each ends by itself, however they interleave.\<close>

fun after_left :: "afterSet \<Rightarrow> nat" where
  "after_left ThenReturn = 0"
| "after_left (ThenService cfg) = 3"

fun log_left :: "log_pc \<Rightarrow> nat" where
  "log_left LogIdle = 0"
| "log_left (WantLevel opts k) = 4 + after_left k"
| "log_left (WantWriter opts k) = 3 + after_left k"
| "log_left (WantSet l k) = 2 + after_left k"
| "log_left (HalfSet a k) = 1 + after_left k"
| "log_left (WantService cfg) = 3"

interpretation lg: interleaving "\<lambda>t u. log_step la info ea e t" "\<lambda>p t. log_left (lp_pcs p t)" "\<lambda>p. True"
  for la info ea e
proof unfold_locales
  fix p t p'
  show "log_left (lp_pcs p' t) < log_left (lp_pcs p t) \<and>
      (\<forall>u. u \<noteq> t \<longrightarrow> log_left (lp_pcs p' u) = log_left (lp_pcs p u))" if "log_step la info ea e t p = Some p'"
    using that by (auto simp: log_step_defs log_goto_def Let_def split: log_pc.splits afterSet.split)
  show "\<exists>u p'. log_step la info ea e u p = Some p'" if "0 < log_left (lp_pcs p t)"
    using that by (intro exI [where x = t]) (auto simp: log_step_defs Let_def split: log_pc.split)
qed simp

lemma logger_calls_end:
  assumes "finite {t. lp_pcs p t \<noteq> LogIdle}" and "sched (\<lambda>t u. log_step la info ea e t) ts p = Some p'"
  shows "length ts \<le> 7 * card {t. lp_pcs p t \<noteq> LogIdle} \<and>
    ((\<forall>t. log_step la info ea e t p' = None) \<longrightarrow> (\<forall>t. lp_pcs p' t = LogIdle))"
proof -
  have after: "after_left k \<le> 3" for k by (cases k) simp_all
  have le: "log_left pc \<le> 7" for pc
    by (cases pc; use after in \<open>auto intro: order_trans [OF after]\<close>)
  have idle: "log_left pc = 0 \<longleftrightarrow> pc = LogIdle" for pc by (cases pc) simp_all
  have work: "at_work (\<lambda>t. log_left (lp_pcs p t)) = {t. lp_pcs p t \<noteq> LogIdle}"
    by (simp add: at_work_def idle flip: neq0_conv)
  show ?thesis using lg.schedules_end [OF TrueI _ le assms(2)] assms(1) by (simp add: work idle)
qed

text \<open>Calls of goroutines one after the other, each to its end.\<close>

fun call_steps :: "logCall \<Rightarrow> nat" where
  "call_steps (CallSetLogger l) = 2"
| "call_steps (CallInitLogger opts) = 4"
| "call_steps (CallConfigure cfg) = 7"

definition whole_call :: "nat \<times> logCall \<Rightarrow> log_event list" where
  "whole_call tc = LogBegin (fst tc) (snd tc) # replicate (call_steps (snd tc)) (LogGo (fst tc))"

section \<open>Calls that do not overlap\<close>

text \<open>What the theory Logging says of a call.\<close>

fun call_effect :: "level_api \<Rightarrow> int \<Rightarrow> env_api \<Rightarrow> environment \<Rightarrow> logCall \<Rightarrow> obs \<Rightarrow> obs" where
  "call_effect la info ea e (CallSetLogger l) w = SetLogger l w"
| "call_effect la info ea e (CallInitLogger opts) w = InitLogger la info opts w"
| "call_effect la info ea e (CallConfigure cfg) w = ConfigureLogger la info ea e cfg w"

definition log_abs :: "obs \<Rightarrow> logGlobals \<Rightarrow> obs" where
  "log_abs w g = w\<lparr>ob_process := getLogger g, ob_level := gl_level g, ob_colors := gl_once g\<rparr>"

definition set_colors :: "consoleLevel \<Rightarrow> int" where
  "set_colors l = (case l of DebugColor \<Rightarrow> 34 | InfoColor \<Rightarrow> 32 | WarnColor \<Rightarrow> 33 | ErrorColor \<Rightarrow> 31
     | FatalColor \<Rightarrow> 35 | PanicColor \<Rightarrow> 35)"

text \<open>At rest: the pointers are the same, and once the colours are set they are the code's.\<close>

definition log_rest :: "log_proc \<Rightarrow> bool" where
  "log_rest p \<longleftrightarrow> gl_logger (lp_glob p) = gl_context (lp_glob p) \<and>
     (gl_once (lp_glob p) \<longrightarrow> gl_colors (lp_glob p) = set_colors) \<and> (\<forall>t. lp_pcs p t = LogIdle)"

lemmas log_defs = log_step_defs log_goto_def store_logger_def store_context_def getLogger_def

lemma applyLoggerFromConfig_split:
  "applyLoggerFromConfig la info ea e cfg w =
     (let w1 = InitLogger la info (config_options ea cfg) w
      in SetLogger (service_logger la ea e cfg (ob_process w1)) w1)"
  by (simp add: applyLoggerFromConfig_def service_logger_def Let_def)

lemma InitLogger_split:
  "InitLogger la info opts w =
     w\<lparr>ob_level := (case ParseLevel la (trim_space (lo_Level opts)) of None \<Rightarrow> info | Some l \<Rightarrow> l),
       ob_colors := (\<not> lo_JSON opts \<or> ob_colors w), ob_process := newLogger (writer_of opts)\<rparr>"
  by (simp add: InitLogger_def SetLogger_def writer_of_def Let_def)

lemma colors_defs: "gl_colors (applyConsoleLevelColors g) = (if gl_once g then gl_colors g else set_colors)"
  by (rule ext) (simp add: applyConsoleLevelColors_def set_colors_def split: consoleLevel.split)

lemma colors_frame [simp]:
  "gl_once (applyConsoleLevelColors g)" "gl_store (applyConsoleLevelColors g) = gl_store g"
  "gl_next (applyConsoleLevelColors g) = gl_next g" "gl_level (applyConsoleLevelColors g) = gl_level g"
  "gl_exit (applyConsoleLevelColors g) = gl_exit g"
  by (simp_all add: applyConsoleLevelColors_def)

text \<open>From the middle of any call, alone, to its end.\<close>

lemma log_exec_append:
  "log_exec la info ea e (xs @ ys) p =
     (case log_exec la info ea e xs p of None \<Rightarrow> None | Some p1 \<Rightarrow> log_exec la info ea e ys p1)"
  by (induction la info ea e xs p rule: log_exec.induct) (simp_all split: option.split)

lemma set_alone:
  assumes "lp_pcs p t = WantSet l k"
  shows "\<exists>p'. log_exec la info ea e [LogGo t, LogGo t] p = Some p' \<and>
    lp_pcs p' = (lp_pcs p)(t := case k of ThenReturn \<Rightarrow> LogIdle | ThenService cfg \<Rightarrow> WantService cfg) \<and>
    gl_logger (lp_glob p') = gl_context (lp_glob p') \<and> getLogger (lp_glob p') = l \<and>
    gl_level (lp_glob p') = gl_level (lp_glob p) \<and> gl_once (lp_glob p') = gl_once (lp_glob p) \<and>
    gl_colors (lp_glob p') = gl_colors (lp_glob p)"
  using assms by (simp add: log_defs)

lemma init_alone:
  assumes "lp_pcs p t = WantLevel opts k" "gl_once (lp_glob p) \<Longrightarrow> gl_colors (lp_glob p) = set_colors"
  shows "\<exists>p'. log_exec la info ea e (replicate 4 (LogGo t)) p = Some p' \<and>
    lp_pcs p' = (lp_pcs p)(t := case k of ThenReturn \<Rightarrow> LogIdle | ThenService cfg \<Rightarrow> WantService cfg) \<and>
    gl_logger (lp_glob p') = gl_context (lp_glob p') \<and>
    log_abs w (lp_glob p') = InitLogger la info opts (log_abs w (lp_glob p)) \<and>
    (gl_once (lp_glob p') \<longrightarrow> gl_colors (lp_glob p') = set_colors)"
proof -
  let ?lvl = "case ParseLevel la (trim_space (lo_Level opts)) of None \<Rightarrow> info | Some l \<Rightarrow> l"
  let ?g = "(lp_glob p)\<lparr>gl_level := ?lvl\<rparr>"
  let ?g1 = "if lo_JSON opts then ?g else applyConsoleLevelColors ?g"
  let ?q = "log_goto t (WantSet (newLogger (writer_of opts)) k) (p\<lparr>lp_glob := ?g1\<rparr>)"
  have two: "log_exec la info ea e (replicate 4 (LogGo t)) p = log_exec la info ea e [LogGo t, LogGo t] ?q"
    using assms(1) by (simp add: eval_nat_numeral log_step_defs log_goto_def Let_def)
  have "lp_pcs ?q t = WantSet (newLogger (writer_of opts)) k" by (simp add: log_goto_def)
  from set_alone [OF this, of la info ea e] obtain p' where p': "log_exec la info ea e [LogGo t, LogGo t] ?q = Some p'"
    "lp_pcs p' = (lp_pcs ?q)(t := case k of ThenReturn \<Rightarrow> LogIdle | ThenService cfg \<Rightarrow> WantService cfg)"
    "gl_logger (lp_glob p') = gl_context (lp_glob p')" "getLogger (lp_glob p') = newLogger (writer_of opts)"
    "gl_level (lp_glob p') = gl_level ?g1" "gl_once (lp_glob p') = gl_once ?g1"
    "gl_colors (lp_glob p') = gl_colors ?g1"
    by (auto simp: log_goto_def)
  have "log_abs w (lp_glob p') = InitLogger la info opts (log_abs w (lp_glob p))"
    using p'(4-6) by (simp add: log_abs_def InitLogger_split)
  moreover have "gl_once (lp_glob p') \<longrightarrow> gl_colors (lp_glob p') = set_colors"
    using p'(6,7) assms(2) by (simp add: colors_defs)
  ultimately show ?thesis using p'(1-3) two by (auto simp: log_goto_def)
qed

lemma call_alone:
  assumes rest: "log_rest p"
  shows "\<exists>p'. log_exec la info ea e (whole_call (t, c)) p = Some p' \<and> log_rest p' \<and>
    log_abs w (lp_glob p') = call_effect la info ea e c (log_abs w (lp_glob p))"
proof -
  let ?q = "log_goto t (log_begin ea c) p"
  have idle: "lp_pcs p t' = LogIdle" for t' using rest by (simp add: log_rest_def)
  have colors: "gl_once (lp_glob p) \<Longrightarrow> gl_colors (lp_glob p) = set_colors" using rest by (simp add: log_rest_def)
  have start: "log_exec la info ea e (whole_call (t, c)) p =
      log_exec la info ea e (replicate (call_steps c) (LogGo t)) ?q"
    by (simp add: whole_call_def idle)
  show ?thesis
  proof (cases c)
    case (CallSetLogger l)
    then have "lp_pcs ?q t = WantSet l ThenReturn" by (simp add: log_goto_def)
    from set_alone [OF this, of la info ea e] show ?thesis
      using start idle colors
      by (auto simp: CallSetLogger eval_nat_numeral log_rest_def log_goto_def log_abs_def SetLogger_def)
  next
    case (CallInitLogger opts)
    then have "lp_pcs ?q t = WantLevel opts ThenReturn" by (simp add: log_goto_def)
    from init_alone [OF this, of la info ea e w] show ?thesis
      using start idle colors by (auto simp: CallInitLogger log_rest_def log_goto_def)
  next
    case (CallConfigure cfg)
    let ?opts = "config_options ea cfg"
    have "lp_pcs ?q t = WantLevel ?opts (ThenService cfg)" by (simp add: CallConfigure log_goto_def)
    from init_alone [OF this, of la info ea e w] obtain p1 where
      p1: "log_exec la info ea e (replicate 4 (LogGo t)) ?q = Some p1"
      "lp_pcs p1 = (lp_pcs ?q)(t := WantService cfg)"
      "log_abs w (lp_glob p1) = InitLogger la info ?opts (log_abs w (lp_glob p))"
      "gl_once (lp_glob p1) \<longrightarrow> gl_colors (lp_glob p1) = set_colors"
      using colors by (auto simp: log_goto_def)
    let ?l = "service_logger la ea e cfg (getLogger (lp_glob p1))"
    let ?p2 = "log_goto t (WantSet ?l ThenReturn) p1"
    have r: "replicate (call_steps c) (LogGo t) = replicate 4 (LogGo t) @ LogGo t # [LogGo t, LogGo t]"
      by (simp add: CallConfigure eval_nat_numeral)
    have "log_step la info ea e t p1 = Some ?p2" by (simp add: log_step_defs p1(2))
    then have seven: "log_exec la info ea e (replicate (call_steps c) (LogGo t)) ?q =
        log_exec la info ea e [LogGo t, LogGo t] ?p2"
      unfolding r by (simp only: log_exec_append p1(1) option.case log_exec.simps(3))
    have "lp_pcs ?p2 t = WantSet ?l ThenReturn" by (simp add: log_goto_def)
    from set_alone [OF this, of la info ea e] obtain p' where
      p': "log_exec la info ea e [LogGo t, LogGo t] ?p2 = Some p'"
      "lp_pcs p' = (lp_pcs ?p2)(t := LogIdle)" "gl_logger (lp_glob p') = gl_context (lp_glob p')"
      "getLogger (lp_glob p') = ?l" "gl_level (lp_glob p') = gl_level (lp_glob p1)"
      "gl_once (lp_glob p') = gl_once (lp_glob p1)" "gl_colors (lp_glob p') = gl_colors (lp_glob p1)"
      by (auto simp: log_goto_def)
    have "log_abs w (lp_glob p') = SetLogger ?l (log_abs w (lp_glob p1))"
      using p'(4-6) by (simp add: log_abs_def SetLogger_def)
    also have "?l = service_logger la ea e cfg (ob_process (log_abs w (lp_glob p1)))"
      by (simp add: log_abs_def)
    also have "SetLogger \<dots> (log_abs w (lp_glob p1)) = call_effect la info ea e c (log_abs w (lp_glob p))"
      by (simp add: p1(3) CallConfigure ConfigureLogger_def applyLoggerFromConfig_split Let_def)
    finally have "log_abs w (lp_glob p') = call_effect la info ea e c (log_abs w (lp_glob p))" .
    moreover have "log_rest p'"
      using p'(2,3,6,7) p1(2,4) idle by (simp add: log_rest_def log_goto_def)
    ultimately show ?thesis using start seven p'(1) by auto
  qed
qed


definition log_start :: "int \<Rightarrow> (consoleLevel \<Rightarrow> int) \<Rightarrow> (int \<Rightarrow> obs \<Rightarrow> obs) \<Rightarrow> log_proc" where
  "log_start level colors osExit = \<lparr> lp_glob = log_init level colors osExit, lp_pcs = (\<lambda>t. LogIdle) \<rparr>"

lemma log_rest_start: "log_rest (log_start level colors osExit)"
  by (simp add: log_rest_def log_start_def log_init_def)

lemma calls_serial:
  "log_rest p \<Longrightarrow> \<exists>p'. log_exec la info ea e (concat (map whole_call tcs)) p = Some p' \<and> log_rest p' \<and>
    log_abs w (lp_glob p') = fold (call_effect la info ea e) (map snd tcs) (log_abs w (lp_glob p))"
proof (induction tcs arbitrary: p)
  case (Cons tc tcs)
  obtain t c where tc: "tc = (t, c)" by fastforce
  obtain p1 where "log_exec la info ea e (whole_call tc) p = Some p1" "log_rest p1"
    "log_abs w (lp_glob p1) = call_effect la info ea e c (log_abs w (lp_glob p))"
    using call_alone [OF Cons.prems] tc by blast
  then show ?case using Cons.IH [of p1] by (simp add: log_exec_append tc)
qed simp

section \<open>Calls that overlap\<close>

text \<open>The loggers that a run can publish: those of its calls, and what ConfigureLogger makes of one.\<close>

inductive derived ::
  "level_api \<Rightarrow> env_api \<Rightarrow> environment \<Rightarrow> log_event list \<Rightarrow> logger \<Rightarrow> bool"
  for la ea e evs where
  fresh: "derived la ea e evs (newLogger out)"
| given: "LogBegin t (CallSetLogger l) \<in> set evs \<Longrightarrow> derived la ea e evs l"
| service: "derived la ea e evs l \<Longrightarrow> LogBegin t (CallConfigure cfg) \<in> set evs \<Longrightarrow>
    derived la ea e evs (service_logger la ea e cfg l)"

lemma derived_mono: "derived la ea e evs l \<Longrightarrow> set evs \<subseteq> set evs' \<Longrightarrow> derived la ea e evs' l"
  by (induction rule: derived.induct) (auto intro: derived.intros)

definition after_ok :: "log_event list \<Rightarrow> afterSet \<Rightarrow> bool" where
  "after_ok evs k \<longleftrightarrow> (\<forall>cfg. k = ThenService cfg \<longrightarrow> (\<exists>t. LogBegin t (CallConfigure cfg) \<in> set evs))"

fun log_pc_ok :: "level_api \<Rightarrow> env_api \<Rightarrow> environment \<Rightarrow> log_event list \<Rightarrow> logGlobals \<Rightarrow> log_pc \<Rightarrow> bool" where
  "log_pc_ok la ea e evs g LogIdle = True"
| "log_pc_ok la ea e evs g (WantLevel opts k) = after_ok evs k"
| "log_pc_ok la ea e evs g (WantWriter opts k) = after_ok evs k"
| "log_pc_ok la ea e evs g (WantSet l k) = (derived la ea e evs l \<and> after_ok evs k)"
| "log_pc_ok la ea e evs g (HalfSet a k) = (a < gl_next g \<and> after_ok evs k)"
| "log_pc_ok la ea e evs g (WantService cfg) = after_ok evs (ThenService cfg)"

definition glob_ok ::
  "level_api \<Rightarrow> env_api \<Rightarrow> environment \<Rightarrow> (consoleLevel \<Rightarrow> int) \<Rightarrow> log_event list \<Rightarrow> logGlobals \<Rightarrow> bool" where
  "glob_ok la ea e colors evs g \<longleftrightarrow> gl_logger g < gl_next g \<and> gl_context g < gl_next g \<and>
     (\<forall>a < gl_next g. derived la ea e evs (gl_store g a)) \<and>
     gl_colors g = (if gl_once g then set_colors else colors)"

definition log_ok ::
  "level_api \<Rightarrow> env_api \<Rightarrow> environment \<Rightarrow> (consoleLevel \<Rightarrow> int) \<Rightarrow> log_event list \<Rightarrow> log_proc \<Rightarrow> bool" where
  "log_ok la ea e colors evs p \<longleftrightarrow> glob_ok la ea e colors evs (lp_glob p) \<and>
     (\<forall>t. log_pc_ok la ea e evs (lp_glob p) (lp_pcs p t))"

lemma after_ok_mono: "after_ok evs k \<Longrightarrow> set evs \<subseteq> set evs' \<Longrightarrow> after_ok evs' k"
  unfolding after_ok_def by blast

lemma log_pc_ok_mono:
  "log_pc_ok la ea e evs g pc \<Longrightarrow> set evs \<subseteq> set evs' \<Longrightarrow> gl_next g \<le> gl_next g' \<Longrightarrow> log_pc_ok la ea e evs' g' pc"
  by (cases pc) (auto intro: derived_mono after_ok_mono)

lemma glob_ok_mono: "glob_ok la ea e colors evs g \<Longrightarrow> set evs \<subseteq> set evs' \<Longrightarrow> glob_ok la ea e colors evs' g"
  unfolding glob_ok_def by (blast intro: derived_mono)

lemma log_ok_goto:
  assumes "log_ok la ea e colors evs p" "set evs \<subseteq> set evs'"
    and "glob_ok la ea e colors evs' g'" "gl_next (lp_glob p) \<le> gl_next g'" "log_pc_ok la ea e evs' g' pc"
  shows "log_ok la ea e colors evs' (log_goto t pc (p\<lparr>lp_glob := g'\<rparr>))"
  using assms log_pc_ok_mono [of la ea e evs "lp_glob p" _ evs' g'] by (simp add: log_ok_def log_goto_def)

lemma glob_ok_steps:
  assumes "glob_ok la ea e colors evs g"
  shows "glob_ok la ea e colors evs (g\<lparr>gl_level := n\<rparr>)"
    and "glob_ok la ea e colors evs (applyConsoleLevelColors g)"
    and "derived la ea e evs l \<Longrightarrow> glob_ok la ea e colors evs (store_logger l g)"
    and "a < gl_next g \<Longrightarrow> glob_ok la ea e colors evs (store_context a g)"
    and "derived la ea e evs (getLogger g)"
  using assms
  by (auto simp: glob_ok_def applyConsoleLevelColors_def colors_defs [unfolded applyConsoleLevelColors_def]
      store_logger_def store_context_def getLogger_def less_Suc_eq split: if_splits)

lemma log_step_ok:
  assumes ok: "log_ok la ea e colors evs p" and step: "log_step la info ea e t p = Some p'"
  shows "log_ok la ea e colors evs p'"
proof -
  let ?g = "lp_glob p"
  have here: "log_pc_ok la ea e evs ?g (lp_pcs p t)" and glob: "glob_ok la ea e colors evs ?g"
    using ok by (simp_all add: log_ok_def)
  note go = log_ok_goto [OF ok subset_refl] and steps = glob_ok_steps [OF glob]
  show ?thesis
  proof (cases "lp_pcs p t")
    case (WantLevel opts k)
    then show ?thesis using step here go [OF steps(1)] by (auto simp: log_step_defs Let_def)
  next
    case (WantWriter opts k)
    then show ?thesis
      using step here go [OF glob, of _ t] go [OF steps(2), of _ t]
      by (auto simp: log_step_defs derived.fresh split: if_splits)
  next
    case (WantSet l k)
    then show ?thesis
      using step here go [OF steps(3), of l _ t] by (auto simp: log_step_defs store_logger_def)
  next
    case (HalfSet a k)
    then show ?thesis
      using step here go [OF steps(4), of a _ t] by (auto simp: log_step_defs store_context_def split: afterSet.split)
  next
    case (WantService cfg)
    then have "derived la ea e evs (service_logger la ea e cfg (getLogger ?g))"
      using here steps(5) by (auto simp: after_ok_def intro: derived.service)
    then show ?thesis
      using step WantService go [OF glob, of "WantSet (service_logger la ea e cfg (getLogger ?g)) ThenReturn" t]
      by (auto simp: log_step_defs after_ok_def)
  qed (use step in \<open>simp add: log_step_defs\<close>)
qed

lemma log_exec_ok:
  "log_ok la ea e colors done p \<Longrightarrow> log_exec la info ea e evs p = Some p' \<Longrightarrow>
    log_ok la ea e colors (done @ evs) p'"
proof (induction evs arbitrary: "done" p)
  case (Cons ev evs)
  have "\<exists>p1. log_ok la ea e colors (done @ [ev]) p1 \<and> log_exec la info ea e evs p1 = Some p'"
  proof (cases ev)
    case (LogBegin t c)
    have "log_pc_ok la ea e (done @ [ev]) (lp_glob p) (log_begin ea c)"
      by (cases c) (auto simp: after_ok_def LogBegin intro: derived.given)
    moreover have "glob_ok la ea e colors (done @ [ev]) (lp_glob p)"
      using Cons.prems(1) by (auto simp: log_ok_def intro: glob_ok_mono)
    ultimately have "log_ok la ea e colors (done @ [ev]) (log_goto t (log_begin ea c) (p\<lparr>lp_glob := lp_glob p\<rparr>))"
      by (intro log_ok_goto [OF Cons.prems(1)]) auto
    then show ?thesis using Cons.prems(2) by (auto simp: LogBegin split: if_splits)
  next
    case (LogGo t)
    then obtain p1 where p1: "log_step la info ea e t p = Some p1" "log_exec la info ea e evs p1 = Some p'"
      using Cons.prems(2) by (auto split: option.splits)
    have "log_ok la ea e colors (done @ [ev]) p"
      using Cons.prems(1) glob_ok_mono [of la ea e colors "done" "lp_glob p" "done @ [ev]"]
        log_pc_ok_mono [of la ea e "done" "lp_glob p" _ "done @ [ev]" "lp_glob p"]
      by (auto simp: log_ok_def)
    then show ?thesis using log_step_ok p1 by blast
  qed
  then show ?case using Cons.IH by fastforce
qed simp


lemma log_start_ok: "log_ok la ea e colors [] (log_start level colors osExit)"
  by (auto simp: log_ok_def glob_ok_def log_start_def log_init_def intro: derived.fresh)

text \<open>
  Two calls of SetLogger: the second stores both pointers between the stores of the first, and the
  pointers stay apart when both have returned.
\<close>

definition race_events :: "logger \<Rightarrow> logger \<Rightarrow> log_event list" where
  "race_events x y = [LogBegin 0 (CallSetLogger x), LogBegin 1 (CallSetLogger y), LogGo 0, LogGo 1, LogGo 1, LogGo 0]"

lemma SetLogger_race:
  "\<exists>p. log_exec la info ea e (race_events x y) (log_start level colors osExit) = Some p \<and>
    (\<forall>t. lp_pcs p t = LogIdle) \<and> getLogger (lp_glob p) = y \<and> DefaultContextLogger (lp_glob p) = x"
  by (simp add: race_events_def log_start_def log_init_def log_defs DefaultContextLogger_def)

section \<open>The properties\<close>

text \<open>
  C39: Configuring the logger does what one process logger would: for any sequence of calls of
  SetLogger, InitLogger and ConfigureLogger on any goroutines, one after the other, each call
  returns within seven steps, and afterwards the package's pointer and zerolog's default context
  logger hold the same logger, which, with the global level and the colours, is what the theory
  Logging computes from these calls in order.
\<close>

theorem logger_calls_refine:
  "\<exists>p. log_exec la info ea e (concat (map whole_call tcs)) (log_start level colors osExit) = Some p \<and>
    DefaultContextLogger (lp_glob p) = getLogger (lp_glob p) \<and>
    log_abs w (lp_glob p) = fold (call_effect la info ea e) (map snd tcs)
      (w\<lparr>ob_process := newLogger JsonOut, ob_level := level, ob_colors := False\<rparr>)"
  using calls_serial [OF log_rest_start, of la info ea e tcs level colors osExit w]
  by (auto simp: log_rest_def DefaultContextLogger_def getLogger_def log_abs_def log_start_def log_init_def)

text \<open>
  Whatever the interleaving of calls, a reader of either pointer gets a complete logger: one that was
  given to SetLogger, a new one, or what ConfigureLogger makes of one of these; and zerolog's
  colours are the original ones or all of the code's.
\<close>

theorem published_loggers_complete:
  assumes "log_exec la info ea e evs (log_start level colors osExit) = Some p"
  shows "derived la ea e evs (getLogger (lp_glob p)) \<and> derived la ea e evs (DefaultContextLogger (lp_glob p)) \<and>
    (gl_colors (lp_glob p) = colors \<or> gl_colors (lp_glob p) = set_colors)"
  using log_exec_ok [OF log_start_ok assms]
  by (auto simp: log_ok_def glob_ok_def getLogger_def DefaultContextLogger_def)

end
