(* ===== verification/System_Use.thy ===== *)
theory System_Use
  imports Lifecycle_Runs Fast_Instruments
begin

text \<open>
  The lifecycle and the instruments together: goroutines that start and stop the telemetry (tel.go)
  while others ask its registries for instruments, derive instruments with attributes and record
  measurements (instruments.go). A measurement is two steps, since a Start or a Shutdown may
  fall between its reading of the epoch and its call of the SDK; the lookup in the cache and the
  call are the second step, which is theory Attr\_Cache\_Conc's linearisation of the lookup. A
  registry that has been replaced can still be asked, by whoever holds it.
\<close>

section \<open>The system\<close>

datatype ('inst, 'set) instrument =
    ICounter "('inst, 'set) fastCounter"
  | IHistogram "('inst, 'set) fastHistogram"
  | IGauge "('inst, 'set) fastGauge"

fun inst_epochPtr :: "('inst, 'set) instrument \<Rightarrow> addr option" where
  "inst_epochPtr (ICounter c) = fc_epochPtr c"
| "inst_epochPtr (IHistogram h) = fh_epochPtr h"
| "inst_epochPtr (IGauge g) = fg_epochPtr g"

fun inst_epoch :: "('inst, 'set) instrument \<Rightarrow> u64" where
  "inst_epoch (ICounter c) = fc_epoch c"
| "inst_epoch (IHistogram h) = fh_epoch h"
| "inst_epoch (IGauge g) = fg_epoch g"

fun with_attrs :: "'set attr_api \<Rightarrow> ('inst, 'set) instrument \<Rightarrow> 'set \<Rightarrow> ('inst, 'set) instrument" where
  "with_attrs api (ICounter c) attrs = ICounter (Counter_WithAttrs api c attrs)"
| "with_attrs api (IHistogram h) attrs = IHistogram (Histogram_WithAttrs api h attrs)"
| "with_attrs api (IGauge g) attrs = IGauge (Gauge_WithAttrs api g attrs)"

text \<open>A measurement of n, or of x on a histogram, with labels k.\<close>

fun measure_on ::
  "'set attr_api \<Rightarrow> ('inst, 'set) instrument \<Rightarrow> int \<Rightarrow> float64 \<Rightarrow> labels \<Rightarrow> ('inst, 'set) world
     \<Rightarrow> ('inst, 'set) world" where
  "measure_on api (ICounter c) n x k w = counter_emit api c n k w"
| "measure_on api (IHistogram h) n x k w = hist_emit api h x k w"
| "measure_on api (IGauge g) n x k w = gauge_emit api g n k w"

fun ask :: "'opt request \<Rightarrow> ('opt, 'inst, 'set) registry \<Rightarrow> ('inst, 'set) world
    \<Rightarrow> (go_error + ('inst, 'set) instrument) \<times> ('opt, 'inst, 'set) registry \<times> ('inst, 'set) world" where
  "ask (WantCounter name opts) r w =
     (case Counter r name opts w of (x, r1, w1) \<Rightarrow> (map_sum id ICounter x, r1, w1))"
| "ask (WantHistogram name opts) r w =
     (case Histogram r name opts w of (x, r1, w1) \<Rightarrow> (map_sum id IHistogram x, r1, w1))"
| "ask (WantGauge name opts) r w =
     (case Gauge r name opts w of (x, r1, w1) \<Rightarrow> (map_sum id IGauge x, r1, w1))"

text \<open>
  A measurement under way: the epoch when it began, and, for the record, the metric provider that
  was installed then and whether that provider was live.
\<close>

record ('inst, 'set) measuring =
  me_inst :: "('inst, 'set) instrument"
  me_int :: int
  me_float :: float64
  me_labels :: labels
  me_epoch :: u64
  me_provider :: meterProvider
  me_alive :: bool

text \<open>
  The caches and the epoch are those of the process; the calls, log lines and registrations are those of
  the world. \<open>sy_old\<close> holds the replaced registries, \<open>sy_insts\<close> what clients have been given, and
  \<open>sy_hist\<close> every call of the SDK with the provider at the beginning of its measurement, and the
  instrument measured.
\<close>

record ('opt, 'inst, 'set) system =
  sy_proc :: "('opt, 'inst, 'set) proc"
  sy_world :: "('inst, 'set) world"
  sy_old :: "('opt, 'inst, 'set) registry list"
  sy_insts :: "('inst, 'set) instrument list"
  sy_measuring :: "nat \<Rightarrow> ('inst, 'set) measuring option"
  sy_hist :: "(meterProvider \<times> bool \<times> ('inst, 'set) instrument \<times> ('inst, 'set) sdkCall) list"

definition new_system :: "('opt, 'inst) meters \<Rightarrow> Config \<Rightarrow> ('opt, 'inst, 'set) system" where
  "new_system meterOf cfg =
     \<lparr> sy_proc = new_proc meterOf cfg,
       sy_world = \<lparr> w_caches = (\<lambda>a. newAttrCache defaultMaxCardinality), w_epochs = (\<lambda>a. 0),
                   w_calls = [], w_logs = [], w_registered = [] \<rparr>,
       sy_old = [], sy_insts = [], sy_measuring = (\<lambda>t. None), sy_hist = [] \<rparr>"

definition world_at :: "u64 \<Rightarrow> ('opt, 'inst, 'set) system \<Rightarrow> ('inst, 'set) world" where
  "world_at e s = (sy_world s)\<lparr>w_caches := p_caches (sy_proc s), w_epochs := (\<lambda>a. e)\<rparr>"

definition put_world :: "('inst, 'set) world \<Rightarrow> ('opt, 'inst, 'set) system \<Rightarrow> ('opt, 'inst, 'set) system" where
  "put_world w s = s\<lparr>sy_world := w, sy_proc := (sy_proc s)\<lparr>p_caches := w_caches w\<rparr>\<rparr>"

abbreviation now_epoch :: "('opt, 'inst, 'set) system \<Rightarrow> u64" where
  "now_epoch s \<equiv> t_epoch (p_tel (sy_proc s))"

fun provider_live :: "('opt, 'inst, 'set) proc \<Rightarrow> meterProvider \<Rightarrow> bool" where
  "provider_live p NoopMeter = True"
| "provider_live p (SdkMeter n) = (RMeter n \<in> p_live p)"

section \<open>Its steps\<close>

datatype ('opt, 'inst, 'set) sys_event =
    Lifecycle tel_event
  | Ask "nat option" "'opt request"
  | Derive nat 'set
  | Measure nat nat int float64 labels
  | Finish nat bool

text \<open>A step of the lifecycle; the registry it replaces, if it moves the epoch, is kept.\<close>

definition lifecycle_event ::
  "('opt, 'inst) meters \<Rightarrow> tel_event \<Rightarrow> ('opt, 'inst, 'set) system \<Rightarrow> ('opt, 'inst, 'set) system option" where
  "lifecycle_event meterOf ev s =
     (case tel_exec meterOf [ev] (sy_proc s) of
        None \<Rightarrow> None
      | Some p \<Rightarrow> Some (s\<lparr>sy_proc := p, sy_old :=
          (if t_epoch (p_tel p) = now_epoch s then sy_old s
           else case t_registry (p_tel (sy_proc s)) of None \<Rightarrow> sy_old s | Some r \<Rightarrow> r # sy_old s)\<rparr>))"

text \<open>A request to the installed registry, or to an old one.\<close>

definition ask_event ::
  "nat option \<Rightarrow> 'opt request \<Rightarrow> ('opt, 'inst, 'set) system \<Rightarrow> ('opt, 'inst, 'set) system option" where
  "ask_event which q s =
     (let got = (\<lambda>x s1. case x of Inl err \<Rightarrow> s1 | Inr i \<Rightarrow> s1\<lparr>sy_insts := i # sy_insts s1\<rparr>) in
      case which of
        None \<Rightarrow>
          (case t_registry (p_tel (sy_proc s)) of
             None \<Rightarrow> None
           | Some r \<Rightarrow>
               (case ask q r (world_at (now_epoch s) s) of
                  (x, r1, w1) \<Rightarrow> Some (got x (put_world w1 (s\<lparr>sy_proc := (sy_proc s)\<lparr>p_tel :=
                    (p_tel (sy_proc s))\<lparr>t_registry := Some r1\<rparr>\<rparr>\<rparr>)))))
      | Some j \<Rightarrow>
          if j < length (sy_old s)
          then (case ask q (sy_old s ! j) (world_at (now_epoch s) s) of
                  (x, r1, w1) \<Rightarrow> Some (got x (put_world w1 (s\<lparr>sy_old := (sy_old s)[j := r1]\<rparr>))))
          else None)"

definition measure_event ::
  "nat \<Rightarrow> nat \<Rightarrow> int \<Rightarrow> float64 \<Rightarrow> labels \<Rightarrow> ('opt, 'inst, 'set) system
     \<Rightarrow> ('opt, 'inst, 'set) system option" where
  "measure_event t j n x k s =
     (if j < length (sy_insts s) \<and> sy_measuring s t = None
      then (let mp = t_metricProvider (p_tel (sy_proc s)) in
            Some (s\<lparr>sy_measuring := (sy_measuring s)(t \<mapsto>
              \<lparr> me_inst = sy_insts s ! j, me_int = n, me_float = x, me_labels = k, me_epoch = now_epoch s,
                me_provider = mp, me_alive = provider_live (sy_proc s) mp \<rparr>)\<rparr>))
      else None)"

text \<open>
  The measurement read the epoch once or twice (the plain path reads it again), at its beginning or by
  now; \<open>late\<close> is which of the two decides.
\<close>

definition finish_event ::
  "'set attr_api \<Rightarrow> nat \<Rightarrow> bool \<Rightarrow> ('opt, 'inst, 'set) system \<Rightarrow> ('opt, 'inst, 'set) system option" where
  "finish_event api t late s =
     (case sy_measuring s t of
        None \<Rightarrow> None
      | Some m \<Rightarrow>
          (let w = world_at (if late then now_epoch s else me_epoch m) s;
               w1 = measure_on api (me_inst m) (me_int m) (me_float m) (me_labels m) w;
               calls = drop (length (w_calls w)) (w_calls w1)
           in Some ((put_world w1 s)\<lparr>sy_measuring := (sy_measuring s)(t := None),
                sy_hist := sy_hist s @ map (\<lambda>c. (me_provider m, me_alive m, me_inst m, c)) calls\<rparr>)))"

fun sys_step ::
  "('opt, 'inst) meters \<Rightarrow> 'set attr_api \<Rightarrow> ('opt, 'inst, 'set) sys_event \<Rightarrow> ('opt, 'inst, 'set) system
     \<Rightarrow> ('opt, 'inst, 'set) system option" where
  "sys_step meterOf api (Lifecycle ev) s = lifecycle_event meterOf ev s"
| "sys_step meterOf api (Ask which q) s = ask_event which q s"
| "sys_step meterOf api (Derive j attrs) s =
     (if j < length (sy_insts s)
      then Some (s\<lparr>sy_insts := with_attrs api (sy_insts s ! j) attrs # sy_insts s\<rparr>) else None)"
| "sys_step meterOf api (Measure t j n x k) s = measure_event t j n x k s"
| "sys_step meterOf api (Finish t late) s = finish_event api t late s"

fun sys_exec ::
  "('opt, 'inst) meters \<Rightarrow> 'set attr_api \<Rightarrow> ('opt, 'inst, 'set) sys_event list
     \<Rightarrow> ('opt, 'inst, 'set) system \<Rightarrow> ('opt, 'inst, 'set) system option" where
  "sys_exec meterOf api [] s = Some s"
| "sys_exec meterOf api (ev # evs) s =
     (case sys_step meterOf api ev s of None \<Rightarrow> None | Some s1 \<Rightarrow> sys_exec meterOf api evs s1)"

text \<open>The reachable systems, with the number of events.\<close>

inductive sys_run ::
  "('opt, 'inst) meters \<Rightarrow> 'set attr_api \<Rightarrow> Config \<Rightarrow> nat \<Rightarrow> ('opt, 'inst, 'set) system \<Rightarrow> bool"
  for meterOf api cfg where
  start: "sys_run meterOf api cfg 0 (new_system meterOf cfg)"
| event: "sys_run meterOf api cfg n s \<Longrightarrow> sys_step meterOf api ev s = Some s' \<Longrightarrow>
    sys_run meterOf api cfg (Suc n) s'"

lemma sys_exec_run:
  "sys_run meterOf api cfg n s \<Longrightarrow> sys_exec meterOf api evs s = Some s' \<Longrightarrow>
    sys_run meterOf api cfg (n + length evs) s'"
proof (induction evs arbitrary: n s)
  case (Cons ev evs)
  obtain s1 where "sys_step meterOf api ev s = Some s1" "sys_exec meterOf api evs s1 = Some s'"
    using Cons.prems(2) by (auto split: option.splits)
  then show ?case using Cons.IH [of "Suc n" s1] sys_run.event [OF Cons.prems(1)] by simp
qed simp

end
