(* ===== verification/System_Correct.thy ===== *)
theory System_Correct
  imports System_Use
begin

text \<open>
  The invariants of the composed system: the installed metric provider is live, an instrument of
  the current epoch was made by it, and every cache and registry keeps its bound.
\<close>

section \<open>What a lifecycle step does to registries and caches\<close>

definition same_registry :: "('opt, 'inst, 'set) telemetry \<Rightarrow> ('opt, 'inst, 'set) telemetry \<Rightarrow> bool" where
  "same_registry t' t \<longleftrightarrow> t_epoch t' = t_epoch t \<and> t_registry t' = t_registry t \<and>
     t_metricProvider t' = t_metricProvider t"

text \<open>A registry of the next epoch, empty, on the meter of the provider now installed.\<close>

definition next_registry ::
  "('opt, 'inst) meters \<Rightarrow> ('opt, 'inst, 'set) telemetry \<Rightarrow> ('opt, 'inst, 'set) telemetry \<Rightarrow> bool" where
  "next_registry meterOf t' t \<longleftrightarrow> t_epoch t' = t_epoch t + 1 \<and>
     (\<exists>svc a. t_registry t' = Some (newRegistryWithCache (meterOf (t_metricProvider t') svc) a (Some 0)
        (t_epoch t') (maxInstrumentsFromCfg (t_cfg t))))"

lemma install_next: "next_registry meterOf (p_tel (install meterOf sp a det m p)) (p_tel p)"
  unfolding next_registry_def by (simp add: install_def Let_def) blast

lemma uninstall_next: "next_registry meterOf (p_tel (uninstall meterOf p)) (p_tel p)"
  unfolding next_registry_def by (simp add: uninstall_def Let_def) blast

lemma install_cfg [simp]:
  "t_cfg (p_tel (install meterOf sp a det m p)) = t_cfg (p_tel p)"
  "t_cfg (p_tel (uninstall meterOf p)) = t_cfg (p_tel p)"
  by (simp_all add: install_def uninstall_def Let_def)

lemma step_registry:
  assumes "tel_step meterOf out t p = Some p'"
  shows "t_cfg (p_tel p') = t_cfg (p_tel p)"
    and "same_registry (p_tel p') (p_tel p) \<or> next_registry meterOf (p_tel p') (p_tel p)"
proof -
  have "t_cfg (p_tel p') = t_cfg (p_tel p) \<and>
    (same_registry (p_tel p') (p_tel p) \<or> next_registry meterOf (p_tel p') (p_tel p))"
  proof (cases "p_pcs p t")
    case Starting
    obtain res p1 where init: "initProviders out (p\<lparr>p_propagator := True\<rparr>) = (res, p1)"
      by (cases "initProviders out (p\<lparr>p_propagator := True\<rparr>)")
    then show ?thesis
      using assms initProviders_frame [OF init]
      by (auto simp: tel_step_defs Let_def Starting same_registry_def split: sum.splits)
  next
    case (HaveMonitor sp a det m)
    then show ?thesis
      using assms install_next [of meterOf sp a det m p]
      by (auto simp: tel_step_defs Let_def same_registry_def split: if_splits)
  next
    case WantShutdown
    then show ?thesis
      using assms uninstall_next [of meterOf p]
      by (auto simp: tel_step_defs Let_def same_registry_def split: if_splits)
  next
    case (RollingBack sp m e)
    have "p_tel (rollbackStart m sp p) = p_tel p" by (simp add: rollbackStart_def Let_def)
    then show ?thesis
      using assms by (auto simp: tel_step_defs Let_def RollingBack same_registry_def split: option.splits)
  qed (use assms in \<open>auto simp: tel_step_defs Let_def same_registry_def split: if_splits option.splits\<close>)
  then show "t_cfg (p_tel p') = t_cfg (p_tel p)"
    "same_registry (p_tel p') (p_tel p) \<or> next_registry meterOf (p_tel p') (p_tel p)" by auto
qed

lemma init_keeps_caches:
  assumes "initProviders out p = (res, p1)"
  shows "p_caches p1 = p_caches p"
  using assms
  by (auto simp: initProviders_def Let_def new_meter_effect newTracerProvider_def acquire_def
      configureExportCompression_def release_def split: if_splits option.splits)

lemma step_caches:
  assumes "tel_step meterOf out t p = Some p'"
  shows "p_caches p' a = p_caches p a \<or> p_caches p' a = build_cache p \<or>
    p_caches p' a = newAttrCache defaultMaxCardinality \<or>
    (\<exists>labels. p_caches p' a = the (Allow (Some (p_caches p a)) labels))"
proof (cases "p_pcs p t")
  case Starting
  obtain res p1 where init: "initProviders out (p\<lparr>p_propagator := True\<rparr>) = (res, p1)"
    by (cases "initProviders out (p\<lparr>p_propagator := True\<rparr>)")
  then show ?thesis
    using assms init_keeps_caches [OF init]
    by (auto simp: tel_step_defs Let_def Starting split: sum.splits)
next
  case (RollingBack sp m e)
  have "p_caches (rollbackStart m sp p) = p_caches p" by (simp add: rollbackStart_def Let_def)
  then show ?thesis using assms by (auto simp: tel_step_defs Let_def RollingBack split: option.splits)
next
  case (Allowing labels c)
  then obtain b where "p_caches p' = p_caches p \<or>
      p_caches p' = (p_caches p)(b := the (Allow (Some (p_caches p b)) labels))"
    using assms by (fastforce simp: tel_step_defs Let_def split: option.splits)
  then show ?thesis by (metis fun_upd_other fun_upd_same)
qed (use assms in \<open>auto simp: tel_step_defs Let_def install_def uninstall_def acquire_def release_def
      split: if_splits option.splits\<close>)

section \<open>The installed metric provider is owned\<close>

definition meter_owned :: "meterProvider \<Rightarrow> shutdownFn \<Rightarrow> bool" where
  "meter_owned mp f \<longleftrightarrow> (\<forall>n. mp = SdkMeter n \<longrightarrow> f = ReleaseFn (RMeter n))"

fun pc_meter :: "tel_pc \<Rightarrow> bool" where
  "pc_meter (HaveProviders sp) = meter_owned (sp_metricProvider sp) (sp_shutdownFn sp)"
| "pc_meter (HaveCache sp a det) = meter_owned (sp_metricProvider sp) (sp_shutdownFn sp)"
| "pc_meter (HaveMonitor sp a det m) = meter_owned (sp_metricProvider sp) (sp_shutdownFn sp)"
| "pc_meter pc = True"

definition provider_owned :: "('opt, 'inst, 'set) proc \<Rightarrow> bool" where
  "provider_owned p \<longleftrightarrow> meter_owned (t_metricProvider (p_tel p)) (t_shutdownFn (p_tel p)) \<and>
     (\<forall>t. pc_meter (p_pcs p t))"

lemma init_meter_owned:
  assumes "initProviders out p = (Inr sp, p1)"
  shows "meter_owned (sp_metricProvider sp) (sp_shutdownFn sp)"
  using assms
  by (auto simp: initProviders_def Let_def new_meter_effect newTracerProvider_def meter_owned_def
      split: if_splits option.splits sum.splits)

lemma meter_owned_noop [simp]: "meter_owned NoopMeter f"
  by (simp add: meter_owned_def)

lemma provider_owned_move:
  assumes "provider_owned p" "p_pcs q = p_pcs p" "pc_meter pc"
    "meter_owned (t_metricProvider (p_tel q)) (t_shutdownFn (p_tel q))"
  shows "provider_owned (goto_tel t pc q)"
  using assms by (simp add: provider_owned_def)

lemma provider_owned_step:
  assumes ok: "provider_owned p" and step: "tel_step meterOf out t p = Some p'"
  shows "provider_owned p'"
proof -
  have here: "pc_meter (p_pcs p t)" and own: "meter_owned (t_metricProvider (p_tel p)) (t_shutdownFn (p_tel p))"
    using ok by (simp_all add: provider_owned_def)
  note move = provider_owned_move [OF ok]
  show ?thesis
  proof (cases "p_pcs p t")
    case Starting
    obtain res p1 where init: "initProviders out (p\<lparr>p_propagator := True\<rparr>) = (res, p1)"
      by (cases "initProviders out (p\<lparr>p_propagator := True\<rparr>)")
    then show ?thesis
      using step initProviders_frame [OF init] init_meter_owned own
      by (auto simp: tel_step_defs Let_def Starting split: sum.splits intro!: move)
  next
    case (RollingBack sp m e)
    have "p_pcs (rollbackStart m sp p) = p_pcs p" "p_tel (rollbackStart m sp p) = p_tel p"
      by (simp_all add: rollbackStart_def Let_def)
    then show ?thesis
      using step own by (auto simp: tel_step_defs Let_def RollingBack split: option.splits intro!: move)
  qed (use step here own in \<open>auto simp: tel_step_defs Let_def install_def uninstall_def acquire_def release_def
      split: if_splits option.splits intro!: move\<close>)
qed

lemma owned_provider_live:
  assumes "provider_owned p" "owned_ok p"
  shows "provider_live p (t_metricProvider (p_tel p))"
proof (cases "t_metricProvider (p_tel p)")
  case (SdkMeter n)
  then have "RMeter n \<in> held p None"
    using assms(1) by (simp add: provider_owned_def meter_owned_def held_def tel_res_def)
  then have "RMeter n \<in> live_ext p" using assms(2) unfolding owned_ok_def by blast
  then show ?thesis by (simp add: SdkMeter live_ext_def)
qed simp

section \<open>Instruments and the meter that made them\<close>

fun made_by :: "('opt, 'inst) meter \<Rightarrow> ('inst, 'set) instrument \<Rightarrow> bool" where
  "made_by m (ICounter c) = (\<exists>name opts. Int64Counter m name opts = Inr (fc_counter c))"
| "made_by m (IHistogram h) = (\<exists>name opts. Float64Histogram m name opts = Inr (fh_histogram h))"
| "made_by m (IGauge g) = (\<exists>name opts. Int64Gauge m name opts = Inr (fg_gauge g))"

text \<open>A call of the SDK on an instrument of the provider.\<close>

fun call_on :: "('opt, 'inst) meters \<Rightarrow> meterProvider \<Rightarrow> ('inst, 'set) sdkCall \<Rightarrow> bool" where
  "call_on meterOf mp (CounterAdd i n os) = (\<exists>svc name opts. Int64Counter (meterOf mp svc) name opts = Inr i)"
| "call_on meterOf mp (HistogramRecord i x os) =
     (\<exists>svc name opts. Float64Histogram (meterOf mp svc) name opts = Inr i)"
| "call_on meterOf mp (GaugeRecord i n os) = (\<exists>svc name opts. Int64Gauge (meterOf mp svc) name opts = Inr i)"

definition reg_insts :: "('opt, 'inst, 'set) registry \<Rightarrow> ('inst, 'set) instrument set" where
  "reg_insts r = ICounter ` ran (map_of (rg_counters r)) \<union> IHistogram ` ran (map_of (rg_hists r)) \<union>
     IGauge ` ran (map_of (rg_gauges r))"

definition reg_ok :: "('opt, 'inst, 'set) registry \<Rightarrow> bool" where
  "reg_ok r \<longleftrightarrow> rg_epochPtr r = Some 0 \<and> instrumentCount r \<le> rg_maxInstruments r \<and>
     (\<forall>i \<in> reg_insts r. inst_epochPtr i = Some 0 \<and> inst_epoch i = rg_epoch r \<and> made_by (rg_meter r) i)"

definition same_frame :: "('opt, 'inst, 'set) registry \<Rightarrow> ('opt, 'inst, 'set) registry \<Rightarrow> bool" where
  "same_frame r1 r \<longleftrightarrow> rg_epoch r1 = rg_epoch r \<and> rg_epochPtr r1 = rg_epochPtr r \<and>
     rg_meter r1 = rg_meter r \<and> rg_maxInstruments r1 = rg_maxInstruments r \<and> rg_cache r1 = rg_cache r"

lemma reg_ok_new: "reg_ok (newRegistryWithCache m a (Some 0) e n)"
  by (simp add: reg_ok_def reg_insts_def newRegistryWithCache_def instrumentCount_def
      defaultMaxInstruments_def)

lemma ran_update_subset: "ran (map_of (AList.update k v xs)) \<subseteq> insert v (ran (map_of xs))"
  by (auto simp: update_conv' ran_def)

lemma reg_insts_put:
  "reg_insts (put_counter n c r) \<subseteq> insert (ICounter c) (reg_insts r)"
  "reg_insts (put_hist n h r) \<subseteq> insert (IHistogram h) (reg_insts r)"
  "reg_insts (put_gauge n g r) \<subseteq> insert (IGauge g) (reg_insts r)"
  using ran_update_subset [of n c "rg_counters r"] ran_update_subset [of n h "rg_hists r"]
    ran_update_subset [of n g "rg_gauges r"]
  by (auto simp: reg_insts_def put_defs)

lemma reg_ok_add:
  assumes "reg_ok r" "reg_insts r1 \<subseteq> insert i (reg_insts r)" "same_frame r1 r"
    "instrumentCount r1 \<le> rg_maxInstruments r1" "inst_epochPtr i = Some 0" "inst_epoch i = rg_epoch r"
    "made_by (rg_meter r) i"
  shows "reg_ok r1"
  using assms by (auto simp: reg_ok_def same_frame_def)

text \<open>What a request leaves behind: the registry as good as before, and only the meter was called.\<close>

definition asked ::
  "('opt, 'inst, 'set) registry \<Rightarrow> ('inst, 'set) world \<Rightarrow> go_error + ('inst, 'set) instrument
     \<Rightarrow> ('opt, 'inst, 'set) registry \<Rightarrow> ('inst, 'set) world \<Rightarrow> bool" where
  "asked r w x r1 w1 \<longleftrightarrow> reg_ok r1 \<and> same_frame r1 r \<and> w_caches w1 = w_caches w \<and>
     w_calls w1 = w_calls w \<and> (\<forall>i. x = Inr i \<longrightarrow> i \<in> reg_insts r1)"

lemma ran_map_of_I: "map_of xs k = Some v \<Longrightarrow> v \<in> ran (map_of xs)"
  by (rule ranI)

lemma asked_old: "reg_ok r \<Longrightarrow> i \<in> reg_insts r \<Longrightarrow> asked r w (Inr i) r w"
  by (simp add: asked_def same_frame_def)

lemma asked_error: "reg_ok r \<Longrightarrow> w1 = w \<or> (\<exists>k n. w1 = registered k n False w) \<Longrightarrow> asked r w (Inl e) r w1"
  by (auto simp: asked_def same_frame_def registered_def)

lemma asked_new:
  assumes "reg_ok r" "reg_insts r1 \<subseteq> insert i (reg_insts r)" "i \<in> reg_insts r1" "same_frame r1 r"
    "instrumentCount r1 \<le> rg_maxInstruments r1" "inst_epochPtr i = Some 0" "inst_epoch i = rg_epoch r"
    "made_by (rg_meter r) i" "w1 = registered k n True w"
  shows "asked r w (Inr i) r1 w1"
  using assms(3,4,9) reg_ok_add [OF assms(1,2,4-8)] by (simp add: asked_def registered_def)

section \<open>The interface of a kind of instrument\<close>

text \<open>
  What counters, histograms and gauges have in common behind a registry: a map of the registry whose
  values are instruments, and a creation that calls the meter and stamps the registry's epoch.
\<close>

locale instrument_map = once_registry look put instrumentCount rg_maxInstruments
  for look :: "('opt, 'inst, 'set) registry \<Rightarrow> string \<Rightarrow> 'f option"
    and put :: "string \<Rightarrow> 'f \<Rightarrow> ('opt, 'inst, 'set) registry \<Rightarrow> ('opt, 'inst, 'set) registry" +
  fixes kind :: instKind
    and wrap :: "'f \<Rightarrow> ('inst, 'set) instrument"
    and create :: "('opt, 'inst, 'set) registry \<Rightarrow> string \<Rightarrow> 'opt list \<Rightarrow> ('inst, 'set) world
      \<Rightarrow> (go_error + 'f) \<times> ('inst, 'set) world"
  assumes wrap_in: "look r n = Some f \<Longrightarrow> wrap f \<in> reg_insts r"
    and put_insts: "reg_insts (put n f r) \<subseteq> insert (wrap f) (reg_insts r)"
    and put_frame: "same_frame (put n f r) r"
    and create_fails: "create r n os w = (Inl e, w1) \<Longrightarrow> w1 = registered kind n False w"
    and create_makes: "create r n os w = (Inr f, w1) \<Longrightarrow> w1 = registered kind n True w \<and>
      inst_epochPtr (wrap f) = rg_epochPtr r \<and> inst_epoch (wrap f) = rg_epoch r \<and>
      made_by (rg_meter r) (wrap f)"
begin

lemma get_asked:
  assumes ok: "reg_ok r" and got: "get n (create r n os) r w = (x, r1, w1)"
  shows "asked r w (map_sum id wrap x) r1 w1"
proof (cases "look r n")
  case (Some f)
  then have "x = Inr f" "r1 = r" "w1 = w"
    using got by (simp_all add: get_locked locked_hit)
  then show ?thesis using asked_old [OF ok wrap_in [OF Some]] by simp
next
  case None
  show ?thesis
  proof (cases x)
    case (Inl e)
    then have "r1 = r \<and> (w1 = w \<or> create r n os w = (Inl e, w1))"
      using got None
      by (auto simp: get_locked getOrCreate_locked_def split: if_splits sum.splits prod.splits)
    then have "r1 = r \<and> (w1 = w \<or> (\<exists>k n. w1 = registered k n False w))"
      using create_fails by blast
    then show ?thesis using asked_error [OF ok] Inl by auto
  next
    case (Inr f)
    then have new: "instrumentCount r < rg_maxInstruments r" "r1 = put n f r" "create r n os w = (Inr f, w1)"
      using got None
      by (auto simp: get_locked getOrCreate_locked_def split: if_splits sum.splits prod.splits)
    moreover have "wrap f \<in> reg_insts (put n f r)" by (rule wrap_in [of _ n]) (simp add: look_put)
    moreover have "instrumentCount (put n f r) \<le> rg_maxInstruments (put n f r)"
      using count_put [OF None, of f] limit_put [of n f r] new(1) by simp
    ultimately show ?thesis
      using asked_new [OF ok put_insts] put_frame create_makes [OF new(3)] ok
      by (auto simp: Inr reg_ok_def)
  qed
qed

end

lemmas kind_defs = reg_insts_def put_defs same_frame_def update_conv'

interpretation counter_map: instrument_map "\<lambda>r. map_of (rg_counters r)" put_counter CounterKind ICounter
  createCounter
proof (unfold_locales, goal_cases)
  case 1 then show ?case by (simp add: reg_insts_def ranI)
next
  case 2 show ?case by (rule reg_insts_put)
qed (force simp: kind_defs createCounter_def split: sum.splits)+

interpretation hist_map: instrument_map "\<lambda>r. map_of (rg_hists r)" put_hist HistogramKind IHistogram
  createHistogram
proof (unfold_locales, goal_cases)
  case 1 then show ?case by (simp add: reg_insts_def ranI)
next
  case 2 show ?case by (rule reg_insts_put)
qed (force simp: kind_defs createHistogram_def split: sum.splits)+

interpretation gauge_map: instrument_map "\<lambda>r. map_of (rg_gauges r)" put_gauge GaugeKind IGauge
  createGauge
proof (unfold_locales, goal_cases)
  case 1 then show ?case by (simp add: reg_insts_def ranI)
next
  case 2 show ?case by (rule reg_insts_put)
qed (force simp: kind_defs createGauge_def split: sum.splits)+

lemma ask_asked:
  assumes "reg_ok r" "ask q r w = (x, r1, w1)"
  shows "asked r w x r1 w1"
  using assms counter_map.get_asked hist_map.get_asked gauge_map.get_asked
  by (cases q) (auto simp: Counter_get Histogram_get Gauge_get split: prod.splits)

section \<open>Measurements\<close>

lemma made_call_on:
  "made_by (meterOf mp svc) (ICounter c) \<Longrightarrow> call_on meterOf mp (CounterAdd (fc_counter c) n os)"
  "made_by (meterOf mp svc) (IHistogram h) \<Longrightarrow> call_on meterOf mp (HistogramRecord (fh_histogram h) x os)"
  "made_by (meterOf mp svc) (IGauge g) \<Longrightarrow> call_on meterOf mp (GaugeRecord (fg_gauge g) n os)"
  by auto

fun inst_live :: "('inst, 'set) world \<Rightarrow> ('inst, 'set) instrument \<Rightarrow> bool" where
  "inst_live w (ICounter c) = Counter_live w c"
| "inst_live w (IHistogram h) = Histogram_live w h"
| "inst_live w (IGauge g) = Gauge_live w g"

lemma inst_live_iff:
  "inst_epochPtr i = Some 0 \<Longrightarrow> inst_live w i \<longleftrightarrow> w_epochs w 0 = inst_epoch i"
  by (cases i) (simp_all add: Counter_live_def Histogram_live_def Gauge_live_def instrumentLive_def)

lemma measure_dead: "\<not> inst_live w i \<Longrightarrow> measure_on api i n x k w = w"
  by (cases i) (simp_all add: fast_counter.emit_dead fast_hist.emit_dead fast_gauge.emit_dead)

lemma measure_calls:
  "inst_live w i \<Longrightarrow> made_by (meterOf mp svc) i \<Longrightarrow>
    \<exists>cs. w_calls (measure_on api i n x k w) = w_calls w @ cs \<and> (\<forall>c \<in> set cs. call_on meterOf mp c)"
proof (cases i)
  case (ICounter c)
  assume "inst_live w i" "made_by (meterOf mp svc) i"
  then show ?thesis
    using made_call_on(1) [of meterOf mp svc c]
    by (auto simp: ICounter fast_counter.emit_calls simp del: made_by.simps call_on.simps split: option.split)
next
  case (IHistogram h)
  assume "inst_live w i" "made_by (meterOf mp svc) i"
  then show ?thesis
    using made_call_on(2) [of meterOf mp svc h]
    by (auto simp: IHistogram fast_hist.emit_calls simp del: made_by.simps call_on.simps split: option.split)
next
  case (IGauge g)
  assume "inst_live w i" "made_by (meterOf mp svc) i"
  then show ?thesis
    using made_call_on(3) [of meterOf mp svc g]
    by (auto simp: IGauge fast_gauge.emit_calls simp del: made_by.simps call_on.simps split: option.split)
qed

end
