(* ===== verification/Registry_Conc.thy ===== *)
theory Registry_Conc
  imports System_Correct Interleaving
begin

text \<open>
  The registry's getOrCreate (instruments.go) at the grain of its lock: any number of goroutines ask
  one registry, each through its read section, and when that misses through the section under the
  write lock, whose lookup, limit check, creation and store are steps of their own. The lock is
  sync.RWMutex, kept as the goroutines that hold it; that a waiting writer also keeps new readers
  out is left open, so more interleavings are covered. The theory shows that the single step
  \<open>ask\<close> of the other theories is what such an interleaving amounts to.
\<close>

section \<open>A request's lookup, creation and store\<close>

fun reg_lookup :: "'opt request \<Rightarrow> ('opt, 'inst, 'set) registry \<Rightarrow> ('inst, 'set) instrument option" where
  "reg_lookup (WantCounter name opts) r = map_option ICounter (map_of (rg_counters r) name)"
| "reg_lookup (WantHistogram name opts) r = map_option IHistogram (map_of (rg_hists r) name)"
| "reg_lookup (WantGauge name opts) r = map_option IGauge (map_of (rg_gauges r) name)"

fun reg_create :: "'opt request \<Rightarrow> ('opt, 'inst, 'set) registry \<Rightarrow> ('inst, 'set) world
    \<Rightarrow> (go_error + ('inst, 'set) instrument) \<times> ('inst, 'set) world" where
  "reg_create (WantCounter name opts) r w =
     (case createCounter r name opts w of (x, w1) \<Rightarrow> (map_sum id ICounter x, w1))"
| "reg_create (WantHistogram name opts) r w =
     (case createHistogram r name opts w of (x, w1) \<Rightarrow> (map_sum id IHistogram x, w1))"
| "reg_create (WantGauge name opts) r w =
     (case createGauge r name opts w of (x, w1) \<Rightarrow> (map_sum id IGauge x, w1))"

fun reg_store :: "'opt request \<Rightarrow> ('inst, 'set) instrument \<Rightarrow> ('opt, 'inst, 'set) registry
    \<Rightarrow> ('opt, 'inst, 'set) registry" where
  "reg_store (WantCounter name opts) (ICounter c) r = put_counter name c r"
| "reg_store (WantHistogram name opts) (IHistogram h) r = put_hist name h r"
| "reg_store (WantGauge name opts) (IGauge g) r = put_gauge name g r"
| "reg_store q i r = r"

lemma ask_locked:
  "ask q r w =
     getOrCreate_locked instrumentCount rg_maxInstruments (reg_lookup q) (reg_create q r) (reg_store q) r w"
  by (cases q) (auto simp: Counter_get Histogram_get Gauge_get counters.get_locked hists.get_locked
      gauges.get_locked getOrCreate_locked_def split: option.split sum.split prod.split)

section \<open>Goroutines\<close>

type_synonym ('inst, 'set) answer = "go_error + ('inst, 'set) instrument"

datatype ('opt, 'inst, 'set) reg_pc =
    RegIdle
  | WantRead "'opt request"
  | Reading "'opt request"
  | ReadHit "'opt request" "('inst, 'set) instrument"
  | ReadMiss "'opt request"
  | WantWrite "'opt request"
  | InLock "'opt request"
  | Creating "'opt request"
  | Storing "'opt request" "('inst, 'set) instrument"
  | Leaving "'opt request" "('inst, 'set) answer"
  | Answered "'opt request" "('inst, 'set) answer"

text \<open>
  The registry and the world, the holders of the lock, the goroutines, and, for the record, the
  requests in the order in which they took effect.
\<close>

record ('opt, 'inst, 'set) reg_conc =
  rc_reg :: "('opt, 'inst, 'set) registry"
  rc_world :: "('inst, 'set) world"
  rc_readers :: "nat set"
  rc_writer :: "nat option"
  rc_pcs :: "nat \<Rightarrow> ('opt, 'inst, 'set) reg_pc"
  rc_hist :: "(nat \<times> 'opt request \<times> ('inst, 'set) answer) list"

definition reg_goto ::
  "nat \<Rightarrow> ('opt, 'inst, 'set) reg_pc \<Rightarrow> ('opt, 'inst, 'set) reg_conc \<Rightarrow> ('opt, 'inst, 'set) reg_conc" where
  "reg_goto t pc s = s\<lparr>rc_pcs := (rc_pcs s)(t := pc)\<rparr>"

text \<open>A request takes effect.\<close>

definition effect ::
  "nat \<Rightarrow> 'opt request \<Rightarrow> ('inst, 'set) answer \<Rightarrow> ('opt, 'inst, 'set) reg_conc
     \<Rightarrow> ('opt, 'inst, 'set) reg_conc" where
  "effect t q x s = s\<lparr>rc_hist := rc_hist s @ [(t, q, x)]\<rparr>"

definition reg_step :: "nat \<Rightarrow> ('opt, 'inst, 'set) reg_conc \<Rightarrow> ('opt, 'inst, 'set) reg_conc option" where
  "reg_step t s =
     (case rc_pcs s t of
        RegIdle \<Rightarrow> None
      | WantRead q \<Rightarrow>
          if rc_writer s = None then Some (reg_goto t (Reading q) (s\<lparr>rc_readers := insert t (rc_readers s)\<rparr>))
          else None
      | Reading q \<Rightarrow>
          (case reg_lookup q (rc_reg s) of
             Some existing \<Rightarrow> Some (reg_goto t (ReadHit q existing) (effect t q (Inr existing) s))
           | None \<Rightarrow> Some (reg_goto t (ReadMiss q) s))
      | ReadHit q existing \<Rightarrow>
          Some (reg_goto t (Answered q (Inr existing)) (s\<lparr>rc_readers := rc_readers s - {t}\<rparr>))
      | ReadMiss q \<Rightarrow> Some (reg_goto t (WantWrite q) (s\<lparr>rc_readers := rc_readers s - {t}\<rparr>))
      | WantWrite q \<Rightarrow>
          if rc_writer s = None \<and> rc_readers s = {}
          then Some (reg_goto t (InLock q) (s\<lparr>rc_writer := Some t\<rparr>)) else None
      | InLock q \<Rightarrow>
          (case reg_lookup q (rc_reg s) of
             Some existing \<Rightarrow> Some (reg_goto t (Leaving q (Inr existing)) (effect t q (Inr existing) s))
           | None \<Rightarrow>
               if instrumentCount (rc_reg s) \<ge> rg_maxInstruments (rc_reg s)
               then (let x = Inl (maxInstrumentsError (rg_maxInstruments (rc_reg s)))
                     in Some (reg_goto t (Leaving q x) (effect t q x s)))
               else Some (reg_goto t (Creating q) s))
      | Creating q \<Rightarrow>
          (case reg_create q (rc_reg s) (rc_world s) of
             (Inl err, w) \<Rightarrow> Some (reg_goto t (Leaving q (Inl err)) (effect t q (Inl err) (s\<lparr>rc_world := w\<rparr>)))
           | (Inr created, w) \<Rightarrow> Some (reg_goto t (Storing q created) (s\<lparr>rc_world := w\<rparr>)))
      | Storing q created \<Rightarrow>
          Some (reg_goto t (Leaving q (Inr created))
            (effect t q (Inr created) (s\<lparr>rc_reg := reg_store q created (rc_reg s)\<rparr>)))
      | Leaving q x \<Rightarrow> Some (reg_goto t (Answered q x) (s\<lparr>rc_writer := None\<rparr>))
      | Answered q x \<Rightarrow> None)"

fun reg_rest :: "('opt, 'inst, 'set) reg_pc \<Rightarrow> bool" where
  "reg_rest RegIdle = True"
| "reg_rest (Answered q x) = True"
| "reg_rest pc = False"

datatype 'opt reg_event = Request nat "'opt request" | Proceed nat

fun reg_exec ::
  "'opt reg_event list \<Rightarrow> ('opt, 'inst, 'set) reg_conc \<Rightarrow> ('opt, 'inst, 'set) reg_conc option" where
  "reg_exec [] s = Some s"
| "reg_exec (Request t q # evs) s =
     (if reg_rest (rc_pcs s t) then reg_exec evs (reg_goto t (WantRead q) s) else None)"
| "reg_exec (Proceed t # evs) s = (case reg_step t s of None \<Rightarrow> None | Some s1 \<Rightarrow> reg_exec evs s1)"

definition new_conc :: "('opt, 'inst, 'set) registry \<Rightarrow> ('inst, 'set) world \<Rightarrow> ('opt, 'inst, 'set) reg_conc" where
  "new_conc r w = \<lparr> rc_reg = r, rc_world = w, rc_readers = {}, rc_writer = None,
     rc_pcs = (\<lambda>t. RegIdle), rc_hist = [] \<rparr>"

section \<open>The lock\<close>

fun reading :: "('opt, 'inst, 'set) reg_pc \<Rightarrow> bool" where
  "reading (Reading q) = True"
| "reading (ReadHit q i) = True"
| "reading (ReadMiss q) = True"
| "reading pc = False"

fun writing :: "('opt, 'inst, 'set) reg_pc \<Rightarrow> bool" where
  "writing (InLock q) = True"
| "writing (Creating q) = True"
| "writing (Storing q i) = True"
| "writing (Leaving q x) = True"
| "writing pc = False"

definition lock_ok :: "('opt, 'inst, 'set) reg_conc \<Rightarrow> bool" where
  "lock_ok s \<longleftrightarrow> (\<forall>t. t \<in> rc_readers s \<longleftrightarrow> reading (rc_pcs s t)) \<and>
     (\<forall>t. rc_writer s = Some t \<longleftrightarrow> writing (rc_pcs s t)) \<and>
     (rc_writer s \<noteq> None \<longrightarrow> rc_readers s = {})"

lemmas reg_defs = reg_step_def reg_goto_def effect_def

lemma not_both [simp]: "writing pc \<Longrightarrow> \<not> reading pc"
  by (cases pc) simp_all

lemma one_writer: "lock_ok s \<Longrightarrow> writing (rc_pcs s t) \<Longrightarrow> writing (rc_pcs s u) \<Longrightarrow> u = t"
  unfolding lock_ok_def by (metis option.inject)

lemma writer_alone: "lock_ok s \<Longrightarrow> writing (rc_pcs s t) \<Longrightarrow> \<not> reading (rc_pcs s u)"
  unfolding lock_ok_def by (metis empty_iff option.distinct(1))

lemma lock_step:
  assumes ok: "lock_ok s" and step: "reg_step t s = Some s'"
  shows "lock_ok s'"
proof (cases "rc_pcs s t")
  case (Leaving q x)
  then have "\<not> writing (rc_pcs s u)" if "u \<noteq> t" for u using one_writer [OF ok, of t u] that by auto
  then show ?thesis using ok step Leaving by (auto simp: lock_ok_def reg_defs split: if_splits)
qed (use ok step in \<open>auto simp: lock_ok_def reg_defs Let_def split: if_splits option.splits sum.splits prod.splits\<close>)

section \<open>Requests in the order of their effects\<close>

text \<open>The same requests served whole, one after the other; None if one is answered differently.\<close>

fun replay ::
  "(nat \<times> 'opt request \<times> ('inst, 'set) answer) list \<Rightarrow> ('opt, 'inst, 'set) registry \<times> ('inst, 'set) world
     \<Rightarrow> (('opt, 'inst, 'set) registry \<times> ('inst, 'set) world) option" where
  "replay [] rw = Some rw"
| "replay ((t, q, x) # h) (r, w) =
     (case ask q r w of (y, r1, w1) \<Rightarrow> if y = x then replay h (r1, w1) else None)"

lemma replay_append:
  "replay (h @ h') rw = (case replay h rw of None \<Rightarrow> None | Some rw1 \<Rightarrow> replay h' rw1)"
  by (induction h rw rule: replay.induct) (simp_all split: prod.split)

text \<open>
  What holds of a goroutine: past its creation the registry it has checked is still the one it
  stores in, and its answer has been recorded.
\<close>

fun reg_pc_ok ::
  "('opt, 'inst, 'set) registry \<Rightarrow> (nat \<times> 'opt request \<times> ('inst, 'set) answer) list \<Rightarrow> nat
     \<Rightarrow> ('opt, 'inst, 'set) reg_pc \<Rightarrow> bool" where
  "reg_pc_ok r h t (ReadHit q i) \<longleftrightarrow> (t, q, Inr i) \<in> set h"
| "reg_pc_ok r h t (Creating q) \<longleftrightarrow> reg_lookup q r = None \<and> instrumentCount r < rg_maxInstruments r"
| "reg_pc_ok r h t (Storing q i) \<longleftrightarrow> reg_lookup q r = None \<and> instrumentCount r < rg_maxInstruments r"
| "reg_pc_ok r h t (Leaving q x) \<longleftrightarrow> (t, q, x) \<in> set h"
| "reg_pc_ok r h t (Answered q x) \<longleftrightarrow> (t, q, x) \<in> set h"
| "reg_pc_ok r h t pc \<longleftrightarrow> True"

definition conc_wf ::
  "('opt, 'inst, 'set) registry \<Rightarrow> ('inst, 'set) world \<Rightarrow> ('opt, 'inst, 'set) reg_conc \<Rightarrow> bool" where
  "conc_wf r0 w0 s \<longleftrightarrow> lock_ok s \<and> (\<forall>t. reg_pc_ok (rc_reg s) (rc_hist s) t (rc_pcs s t)) \<and>
     (\<exists>w. replay (rc_hist s) (r0, w0) = Some (rc_reg s, w) \<and>
        (\<forall>t q i. rc_pcs s t = Storing q i \<longrightarrow> reg_create q (rc_reg s) w = (Inr i, rc_world s)) \<and>
        ((\<forall>t q i. rc_pcs s t \<noteq> Storing q i) \<longrightarrow> w = rc_world s))"

lemma reg_pc_ok_hist: "reg_pc_ok r h t pc \<Longrightarrow> reg_pc_ok r (h @ h') t pc"
  by (cases pc) simp_all

lemma reg_pc_ok_reg: "reg_pc_ok r h t pc \<Longrightarrow> \<not> writing pc \<Longrightarrow> reg_pc_ok r' h t pc"
  by (cases pc) simp_all

text \<open>A step that leaves the registry, the world and the record alone.\<close>

lemma conc_wf_quiet:
  assumes ok: "conc_wf r0 w0 s" and lock: "lock_ok s'"
    and same: "rc_reg s' = rc_reg s" "rc_world s' = rc_world s" "rc_hist s' = rc_hist s"
      "rc_pcs s' = (rc_pcs s)(t := pc)"
    and pc: "reg_pc_ok (rc_reg s) (rc_hist s) t pc" "\<And>q i. pc \<noteq> Storing q i" "\<And>q i. rc_pcs s t \<noteq> Storing q i"
  shows "conc_wf r0 w0 s'"
proof -
  obtain w where w: "replay (rc_hist s) (r0, w0) = Some (rc_reg s, w)"
    "\<forall>t q i. rc_pcs s t = Storing q i \<longrightarrow> reg_create q (rc_reg s) w = (Inr i, rc_world s)"
    "(\<forall>t q i. rc_pcs s t \<noteq> Storing q i) \<longrightarrow> w = rc_world s"
    using ok unfolding conc_wf_def by blast
  have "w = rc_world s'" if "\<forall>u q i. rc_pcs s' u \<noteq> Storing q i"
  proof -
    have "rc_pcs s u \<noteq> Storing q i" for u q i
      using that pc(3) by (cases "u = t") (auto simp: same(4) dest: spec [where x = u])
    then show ?thesis using w(3) same(2) by simp
  qed
  moreover have "\<forall>u q i. rc_pcs s' u = Storing q i \<longrightarrow> reg_create q (rc_reg s') w = (Inr i, rc_world s')"
    using w(2) pc(2) by (simp add: same)
  ultimately show ?thesis
    using ok lock w(1) pc(1) unfolding conc_wf_def by (auto simp: same)
qed

text \<open>A step at which a request takes effect, as \<open>ask\<close> would serve it.\<close>

lemma conc_wf_effect:
  assumes ok: "conc_wf r0 w0 s" and lock: "lock_ok s'"
    and replayed: "replay (rc_hist s) (r0, w0) = Some (rc_reg s, w)"
    and served: "ask q (rc_reg s) w = (x, rc_reg s', rc_world s')"
    and here: "rc_hist s' = rc_hist s @ [(t, q, x)]" "rc_pcs s' = (rc_pcs s)(t := pc)"
    and pc: "reg_pc_ok (rc_reg s') (rc_hist s') t pc" "\<And>q i. pc \<noteq> Storing q i"
    and others: "\<And>u. u \<noteq> t \<Longrightarrow> writing (rc_pcs s u) \<Longrightarrow> rc_reg s' = rc_reg s \<and> (\<forall>q i. rc_pcs s u \<noteq> Storing q i)"
  shows "conc_wf r0 w0 s'"
proof -
  have "replay (rc_hist s') (r0, w0) = Some (rc_reg s', rc_world s')"
    using replayed served by (simp add: here(1) replay_append)
  moreover have "rc_pcs s' u \<noteq> Storing q' i" for u q' i
  proof (cases "u = t")
    case False
    have "\<not> writing (rc_pcs s u) \<or> rc_pcs s u \<noteq> Storing q' i" using others [OF False] by blast
    then show ?thesis using False by (auto simp: here(2))
  qed (simp add: here(2) pc(2))
  moreover have "reg_pc_ok (rc_reg s') (rc_hist s') u (rc_pcs s' u)" for u
  proof (cases "u = t")
    case False
    have "reg_pc_ok (rc_reg s) (rc_hist s') u (rc_pcs s u)"
      using ok reg_pc_ok_hist [of "rc_reg s" "rc_hist s" u _ "[(t, q, x)]"] by (simp add: conc_wf_def here(1))
    then have "reg_pc_ok (rc_reg s') (rc_hist s') u (rc_pcs s u)"
      using others [OF False] reg_pc_ok_reg by (cases "writing (rc_pcs s u)") auto
    then show ?thesis using False by (simp add: here(2))
  qed (simp add: here(2) pc(1))
  ultimately show ?thesis using lock unfolding conc_wf_def by blast
qed


lemma conc_wf_step:
  assumes ok: "conc_wf r0 w0 s" and step: "reg_step t s = Some s'"
  shows "conc_wf r0 w0 s'"
proof -
  have lock: "lock_ok s" and lock': "lock_ok s'" using ok step lock_step by (auto simp: conc_wf_def)
  have here: "reg_pc_ok (rc_reg s) (rc_hist s) t (rc_pcs s t)" using ok by (simp add: conc_wf_def)
  obtain w where w: "replay (rc_hist s) (r0, w0) = Some (rc_reg s, w)"
    "\<forall>t q i. rc_pcs s t = Storing q i \<longrightarrow> reg_create q (rc_reg s) w = (Inr i, rc_world s)"
    "(\<forall>t q i. rc_pcs s t \<noteq> Storing q i) \<longrightarrow> w = rc_world s"
    using ok unfolding conc_wf_def by blast
  note quiet = conc_wf_quiet [OF ok lock'] and takes = conc_wf_effect [OF ok lock']
  have alone: "\<not> writing (rc_pcs s u)" if "reading (rc_pcs s t) \<or> writing (rc_pcs s t)" "u \<noteq> t" for u
    using that one_writer [OF lock, of t u] writer_alone [OF lock, of u t] by auto
  have now: "w = rc_world s" if "reading (rc_pcs s t) \<or> writing (rc_pcs s t)" "\<And>q i. rc_pcs s t \<noteq> Storing q i"
  proof -
    have "rc_pcs s u \<noteq> Storing q i" for u q i
      using that(2) alone [OF that(1), of u] by (cases "u = t") auto
    then show ?thesis using w(3) by blast
  qed
  show ?thesis
  proof (cases "rc_pcs s t")
    case (Reading q)
    then have w': "w = rc_world s" and alone': "\<And>u. u \<noteq> t \<Longrightarrow> \<not> writing (rc_pcs s u)"
      using now alone by auto
    show ?thesis
    proof (cases "reg_lookup q (rc_reg s)")
      case None
      then show ?thesis using step Reading by (intro quiet [where t = t and pc = "ReadMiss q"]) (auto simp: reg_defs)
    next
      case (Some i)
      then show ?thesis
        using step Reading alone' w(1) w'
        by (intro takes [where t = t and q = q and x = "Inr i" and pc = "ReadHit q i" and w = w])
          (auto simp: reg_defs ask_locked getOrCreate_locked_def)
    qed
  next
    case (InLock q)
    then have w': "w = rc_world s" and alone': "\<And>u. u \<noteq> t \<Longrightarrow> \<not> writing (rc_pcs s u)"
      using now alone by auto
    show ?thesis
    proof (cases "reg_lookup q (rc_reg s)")
      case None
      let ?x = "Inl (maxInstrumentsError (rg_maxInstruments (rc_reg s)))"
      show ?thesis
      proof (cases "instrumentCount (rc_reg s) \<ge> rg_maxInstruments (rc_reg s)")
        case True
        then show ?thesis
          using step InLock alone' w(1) w' None
          by (intro takes [where t = t and q = q and x = ?x and pc = "Leaving q ?x" and w = w])
            (auto simp: reg_defs Let_def ask_locked getOrCreate_locked_def)
      next
        case False
        then show ?thesis
          using step InLock None by (intro quiet [where t = t and pc = "Creating q"]) (auto simp: reg_defs)
      qed
    next
      case (Some i)
      then show ?thesis
        using step InLock alone' w(1) w'
        by (intro takes [where t = t and q = q and x = "Inr i" and pc = "Leaving q (Inr i)" and w = w])
          (auto simp: reg_defs ask_locked getOrCreate_locked_def)
    qed
  next
    case (Creating q)
    then have w': "w = rc_world s" and alone': "\<And>u. u \<noteq> t \<Longrightarrow> \<not> writing (rc_pcs s u)"
      using now alone by auto
    obtain x w1 where made: "reg_create q (rc_reg s) (rc_world s) = (x, w1)" by fastforce
    show ?thesis
    proof (cases x)
      case (Inl err)
      then show ?thesis
        using step Creating alone' w(1) w' made here
        by (intro takes [where t = t and q = q and x = "Inl err" and pc = "Leaving q (Inl err)" and w = w])
          (auto simp: reg_defs ask_locked getOrCreate_locked_def)
    next
      case (Inr i)
      then have s': "s' = s\<lparr>rc_world := w1, rc_pcs := (rc_pcs s)(t := Storing q i)\<rparr>"
        using step Creating made by (simp add: reg_defs)
      have "rc_pcs s u \<noteq> Storing q' i'" if "u \<noteq> t" for u q' i' using alone' [OF that] by auto
      then show ?thesis
        using ok lock' w(1) w' made Inr here Creating
        by (auto simp: conc_wf_def s')
    qed
  next
    case (Storing q i)
    have alone': "\<And>u. u \<noteq> t \<Longrightarrow> \<not> writing (rc_pcs s u)" using alone Storing by simp
    have "reg_create q (rc_reg s) w = (Inr i, rc_world s)" using w(2) Storing by blast
    then show ?thesis
      using step Storing alone' w(1) here
      by (intro takes [where t = t and q = q and x = "Inr i" and pc = "Leaving q (Inr i)" and w = w])
        (auto simp: reg_defs ask_locked getOrCreate_locked_def)
  next
    case (WantRead q)
    then show ?thesis
      using step by (intro quiet [where t = t and pc = "Reading q"]) (auto simp: reg_defs split: if_splits)
  next
    case (ReadHit q i)
    then show ?thesis
      using step here by (intro quiet [where t = t and pc = "Answered q (Inr i)"]) (auto simp: reg_defs)
  next
    case (ReadMiss q)
    then show ?thesis
      using step by (intro quiet [where t = t and pc = "WantWrite q"]) (auto simp: reg_defs)
  next
    case (WantWrite q)
    then show ?thesis
      using step by (intro quiet [where t = t and pc = "InLock q"]) (auto simp: reg_defs split: if_splits)
  next
    case (Leaving q x)
    then show ?thesis
      using step here by (intro quiet [where t = t and pc = "Answered q x"]) (auto simp: reg_defs)
  qed (use step in \<open>simp_all add: reg_step_def\<close>)
qed

lemma conc_wf_exec: "conc_wf r0 w0 s \<Longrightarrow> reg_exec evs s = Some s' \<Longrightarrow> conc_wf r0 w0 s'"
proof (induction evs arbitrary: s)
  case (Cons ev evs)
  show ?case
  proof (cases ev)
    case (Request t q)
    then have rest: "reg_rest (rc_pcs s t)" and run: "reg_exec evs (reg_goto t (WantRead q) s) = Some s'"
      using Cons.prems(2) by (auto split: if_splits)
    have out: "\<not> reading (rc_pcs s t)" "\<not> writing (rc_pcs s t)" "\<And>q i. rc_pcs s t \<noteq> Storing q i"
      using rest by (cases "rc_pcs s t"; simp)+
    have "lock_ok (reg_goto t (WantRead q) s)"
      using Cons.prems(1) out by (auto simp: conc_wf_def lock_ok_def reg_goto_def)
    then have "conc_wf r0 w0 (reg_goto t (WantRead q) s)"
      using out by (intro conc_wf_quiet [OF Cons.prems(1), where t = t and pc = "WantRead q"])
        (auto simp: reg_goto_def)
    then show ?thesis using Cons.IH run by blast
  next
    case (Proceed t)
    then obtain s1 where "reg_step t s = Some s1" "reg_exec evs s1 = Some s'"
      using Cons.prems(2) by (auto split: option.splits)
    then show ?thesis using Cons.IH conc_wf_step [OF Cons.prems(1)] by blast
  qed
qed simp

lemma conc_wf_new: "conc_wf r w (new_conc r w)"
  by (simp add: conc_wf_def new_conc_def lock_ok_def)


section \<open>What requests get\<close>

lemma ask_serves: "snd (ask q r w) = serve_locked q (r, w)"
  by (cases q) (auto simp: Counter_get Histogram_get Gauge_get counters.get_locked hists.get_locked
      gauges.get_locked split: prod.split)

lemma reg_lookup_store:
  "reg_lookup q r = None \<Longrightarrow> reg_create q r w = (Inr i, w1) \<Longrightarrow> reg_lookup q (reg_store q i r) = Some i"
  by (cases q) (auto simp: counters.look_put hists.look_put gauges.look_put map_sum_def split: prod.splits sum.splits)

lemma reg_lookup_keeps:
  "reg_lookup q r = None \<Longrightarrow> reg_create q r w = (Inr i, w1) \<Longrightarrow> reg_lookup q' r = Some j \<Longrightarrow>
    reg_lookup q' (reg_store q i r) = Some j"
  by (cases q; cases q') (auto simp: put_defs update_conv' map_sum_def split: prod.splits sum.splits)

lemma ask_lookup:
  assumes "ask q r w = (x, r1, w1)"
  shows "x = Inr i \<Longrightarrow> reg_lookup q r1 = Some i" and "reg_lookup q' r = Some j \<Longrightarrow> reg_lookup q' r1 = Some j"
  using assms reg_lookup_store [of q r w] reg_lookup_keeps [of q r w]
  unfolding ask_locked getOrCreate_locked_def by (auto split: option.splits if_splits sum.splits prod.splits)

lemma replay_keeps:
  "replay h (r, w) = Some (r1, w1) \<Longrightarrow> reg_lookup q r = Some i \<Longrightarrow> reg_lookup q r1 = Some i"
proof (induction h arbitrary: r w)
  case (Cons e h)
  obtain t q' x r2 w2 where "e = (t, q', x)" "ask q' r w = (x, r2, w2)" "replay h (r2, w2) = Some (r1, w1)"
    using Cons.prems(1) by (cases e) (auto split: prod.splits if_splits)
  then show ?case using Cons.IH ask_lookup(2) Cons.prems(2) by blast
qed simp

lemma replay_lookup:
  "replay h (r, w) = Some (r1, w1) \<Longrightarrow> (t, q, Inr i) \<in> set h \<Longrightarrow> reg_lookup q r1 = Some i"
proof (induction h arbitrary: r w)
  case (Cons e h)
  obtain u q' x r2 w2 where e: "e = (u, q', x)" "ask q' r w = (x, r2, w2)" "replay h (r2, w2) = Some (r1, w1)"
    using Cons.prems(1) by (cases e) (auto split: prod.splits if_splits)
  show ?case
  proof (cases "(t, q, Inr i) \<in> set h")
    case True
    then show ?thesis using Cons.IH e(3) by blast
  next
    case False
    then have "q' = q" "x = Inr i" using Cons.prems(2) e(1) by auto
    then have "reg_lookup q r2 = Some i" using ask_lookup(1) [OF e(2)] by simp
    then show ?thesis using replay_keeps e(3) by blast
  qed
qed simp

lemma replay_serves: "replay h rw = Some rw1 \<Longrightarrow> fold serve_locked (map (fst \<circ> snd) h) rw = rw1"
proof (induction h arbitrary: rw)
  case (Cons e h)
  obtain r w where rw: "rw = (r, w)" by fastforce
  obtain t q x r2 w2 where "e = (t, q, x)" "ask q r w = (x, r2, w2)" "replay h (r2, w2) = Some rw1"
    using Cons.prems by (cases e) (auto simp: rw split: prod.splits if_splits)
  then show ?case using Cons.IH ask_serves [of q r w] by (simp add: rw)
qed simp

section \<open>Requests return\<close>

fun reg_left :: "('opt, 'inst, 'set) reg_pc \<Rightarrow> nat" where
  "reg_left (WantRead q) = 8"
| "reg_left (Reading q) = 7"
| "reg_left (ReadMiss q) = 6"
| "reg_left (WantWrite q) = 5"
| "reg_left (InLock q) = 4"
| "reg_left (Creating q) = 3"
| "reg_left (Storing q i) = 2"
| "reg_left (Leaving q x) = 1"
| "reg_left (ReadHit q i) = 1"
| "reg_left RegIdle = 0"
| "reg_left (Answered q x) = 0"

lemma reg_left_rest: "reg_left pc = 0 \<longleftrightarrow> reg_rest pc"
  by (cases pc) simp_all

lemma reg_step_left:
  assumes "reg_step t s = Some s'"
  obtains pc where "rc_pcs s' = (rc_pcs s)(t := pc)" "reg_left pc < reg_left (rc_pcs s t)"
  using assms
  by (cases "rc_pcs s t") (auto simp: reg_defs Let_def split: if_splits option.splits sum.splits prod.splits)

lemma reg_progress:
  assumes lock: "lock_ok s" and busy: "\<not> reg_rest (rc_pcs s t)"
  shows "\<exists>u s'. reg_step u s = Some s'"
proof (cases "\<exists>u. writing (rc_pcs s u) \<or> reading (rc_pcs s u)")
  case True
  then obtain u where u: "writing (rc_pcs s u) \<or> reading (rc_pcs s u)" by blast
  then have "reg_step u s \<noteq> None"
    by (cases "rc_pcs s u") (simp_all add: reg_step_def Let_def split: option.split sum.split prod.split)
  then show ?thesis by blast
next
  case False
  then have "rc_writer s = None" "rc_readers s = {}" "\<not> reading (rc_pcs s t)" "\<not> writing (rc_pcs s t)"
    using lock unfolding lock_ok_def by auto
  then have "reg_step t s \<noteq> None"
    using busy by (cases "rc_pcs s t") (simp_all add: reg_step_def)
  then show ?thesis by blast
qed

interpretation reg: interleaving "\<lambda>t e. reg_step t" "\<lambda>s t. reg_left (rc_pcs s t)" "conc_wf r0 w0" for r0 w0
proof unfold_locales
  fix s t s'
  assume ok: "conc_wf r0 w0 s"
  show "conc_wf r0 w0 s'" if "reg_step t s = Some s'" using ok that by (rule conc_wf_step)
  show "reg_left (rc_pcs s' t) < reg_left (rc_pcs s t) \<and>
      (\<forall>u. u \<noteq> t \<longrightarrow> reg_left (rc_pcs s' u) = reg_left (rc_pcs s u))"
    if "reg_step t s = Some s'" by (rule reg_step_left [OF that]) simp
  show "\<exists>u s'. reg_step u s = Some s'" if "0 < reg_left (rc_pcs s t)"
    using ok reg_progress [of s t] that reg_left_rest [of "rc_pcs s t"] unfolding conc_wf_def by simp
qed

lemma sched_reg: "sched (\<lambda>t e. reg_step t) (map (\<lambda>t. (t, ())) ts) s = reg_exec (map Proceed ts) s"
  by (induction ts arbitrary: s rule: list.induct) (auto split: option.split)

lemma requests_in_progress: "at_work (\<lambda>t. reg_left (rc_pcs s t)) = {t. \<not> reg_rest (rc_pcs s t)}"
  by (auto simp: at_work_def reg_left_rest [symmetric])

lemma reg_left_le: "reg_left pc \<le> 8"
  by (cases pc) simp_all

fun ev_goroutine :: "'opt reg_event \<Rightarrow> nat" where
  "ev_goroutine (Request t q) = t"
| "ev_goroutine (Proceed t) = t"

lemma reg_exec_idle: "reg_exec evs s = Some s' \<Longrightarrow> t \<notin> ev_goroutine ` set evs \<Longrightarrow> rc_pcs s' t = rc_pcs s t"
proof (induction evs arbitrary: s)
  case (Cons ev evs)
  then show ?case
  proof (cases ev)
    case (Proceed u)
    then obtain s1 where s1: "reg_step u s = Some s1" "reg_exec evs s1 = Some s'"
      using Cons.prems(1) by (auto split: option.splits)
    have "t \<noteq> u" using Cons.prems(2) Proceed by auto
    then have "rc_pcs s1 t = rc_pcs s t" using reg_step_left [OF s1(1)] by (metis fun_upd_other)
    then show ?thesis using Cons.IH [OF s1(2)] Cons.prems(2) by simp
  qed (auto simp: reg_goto_def split: if_splits)
qed simp


section \<open>The properties\<close>

text \<open>
  C6: Concurrent requests are as good as one at a time: whatever goroutines ask one registry, and
  however their lookups, limit checks, creations and stores interleave, the answers, the registry
  and the calls of the meter are those of the same requests served whole in some order, in which
  every answer a goroutine got is recorded; every instrument ever handed out for a kind and name is
  the one the registry now holds, so all of them are the same; and no map is read while a
  goroutine is in the section that writes.
\<close>

theorem concurrent_requests_linearize:
  assumes "reg_exec evs (new_conc r w) = Some s"
  shows "(\<exists>w1. replay (rc_hist s) (r, w) = Some (rc_reg s, w1) \<and> (rc_writer s = None \<longrightarrow> w1 = rc_world s)) \<and>
    (\<forall>t q x. rc_pcs s t = Answered q x \<longrightarrow> (t, q, x) \<in> set (rc_hist s)) \<and>
    (\<forall>t q i. (t, q, Inr i) \<in> set (rc_hist s) \<longrightarrow> reg_lookup q (rc_reg s) = Some i) \<and>
    (\<forall>t u. writing (rc_pcs s t) \<longrightarrow> \<not> reading (rc_pcs s u) \<and> (writing (rc_pcs s u) \<longrightarrow> u = t))"
proof -
  have wf: "conc_wf r w s" by (rule conc_wf_exec [OF conc_wf_new assms])
  then have lock: "lock_ok s" and answered: "\<forall>t q x. rc_pcs s t = Answered q x \<longrightarrow> (t, q, x) \<in> set (rc_hist s)"
    unfolding conc_wf_def by (blast, metis reg_pc_ok.simps(5))
  obtain w1 where w1: "replay (rc_hist s) (r, w) = Some (rc_reg s, w1)"
    "(\<forall>t q i. rc_pcs s t \<noteq> Storing q i) \<longrightarrow> w1 = rc_world s"
    using wf unfolding conc_wf_def by blast
  have "rc_pcs s t \<noteq> Storing q i" if "rc_writer s = None" for t q i
    using lock that unfolding lock_ok_def by (metis option.distinct(1) writing.simps(3))
  then have "\<exists>w1. replay (rc_hist s) (r, w) = Some (rc_reg s, w1) \<and> (rc_writer s = None \<longrightarrow> w1 = rc_world s)"
    using w1 by blast
  moreover have "\<forall>t q i. (t, q, Inr i) \<in> set (rc_hist s) \<longrightarrow> reg_lookup q (rc_reg s) = Some i"
    using replay_lookup [OF w1(1)] by blast
  moreover have "\<forall>t u. writing (rc_pcs s t) \<longrightarrow> \<not> reading (rc_pcs s u) \<and> (writing (rc_pcs s u) \<longrightarrow> u = t)"
    using one_writer [OF lock] writer_alone [OF lock] by blast
  ultimately show ?thesis using answered by blast
qed

text \<open>Two goroutines ask for the same counter and both miss it; the second finds it under the lock.\<close>

definition two_misses :: "string reg_event list" where
  "two_misses = [Request 0 (WantCounter ''a'' []), Request 1 (WantCounter ''a'' [])] @
     map Proceed [0, 1, 0, 1, 0, 1, 0, 0, 0, 0, 0, 1, 1, 1]"

definition empty_conc :: "(string, instKind \<times> string, keyValue list) reg_conc" where
  "empty_conc = new_conc (newRegistryWithCache echo_meter 0 None 0 10) (empty_world 2)"

lemma two_misses_run:
  "case reg_exec two_misses empty_conc of None \<Rightarrow> False
   | Some s \<Rightarrow> map fst (rc_hist s) = [0, 1] \<and> rc_writer s = None \<and>
       w_registered (rc_world s) = [(CounterKind, ''a'', True)] \<and> reg_rest (rc_pcs s 0) \<and> reg_rest (rc_pcs s 1)"
  by code_simp

theorem concurrent_requests_linearize_witness:
  "\<exists>s. reg_exec two_misses empty_conc = Some s \<and> map fst (rc_hist s) = [0, 1] \<and>
    replay (rc_hist s) (newRegistryWithCache echo_meter 0 None 0 10, empty_world 2) = Some (rc_reg s, rc_world s)"
proof -
  obtain s where s: "reg_exec two_misses empty_conc = Some s" "map fst (rc_hist s) = [0, 1]" "rc_writer s = None"
    using two_misses_run by (auto split: option.splits)
  have "reg_exec two_misses (new_conc (newRegistryWithCache echo_meter 0 None 0 10) (empty_world 2)) = Some s"
    using s(1) by (simp add: empty_conc_def)
  from concurrent_requests_linearize [OF this] show ?thesis using s by auto
qed

text \<open>
  C17: Concurrent requests return: from every state that requests on any goroutines can reach, every
  schedule is over within eight steps for each request in progress, and one that cannot go on has
  answered all of them; and some schedule gets there.
\<close>

theorem concurrent_requests_return:
  assumes "reg_exec evs (new_conc r w) = Some s"
  shows "finite {t. \<not> reg_rest (rc_pcs s t)} \<and>
    (\<forall>ts s'. reg_exec (map Proceed ts) s = Some s' \<longrightarrow> length ts \<le> 8 * card {t. \<not> reg_rest (rc_pcs s t)} \<and>
       ((\<forall>t. reg_step t s' = None) \<longrightarrow> (\<forall>t. reg_rest (rc_pcs s' t)))) \<and>
    (\<exists>ts s'. reg_exec (map Proceed ts) s = Some s' \<and> (\<forall>t. reg_rest (rc_pcs s' t)))"
proof -
  have "{t. \<not> reg_rest (rc_pcs s t)} \<subseteq> ev_goroutine ` set evs"
    using reg_exec_idle [OF assms] by (auto simp: new_conc_def) (metis reg_rest.simps(1))
  then have fin: "finite {t. \<not> reg_rest (rc_pcs s t)}" using finite_surj by blast
  have wf: "conc_wf r w s" by (rule conc_wf_exec [OF conc_wf_new assms])
  note work = fin [folded requests_in_progress]
  have "length ts \<le> 8 * card {t. \<not> reg_rest (rc_pcs s t)} \<and>
      ((\<forall>t. reg_step t s' = None) \<longrightarrow> (\<forall>t. reg_rest (rc_pcs s' t)))"
    if "reg_exec (map Proceed ts) s = Some s'" for ts s'
    using reg.schedules_end [OF wf work reg_left_le that [folded sched_reg]]
    by (simp add: requests_in_progress reg_left_rest)
  then show ?thesis
    using fin reg.drains [OF wf work, of "()"] by (auto simp: sched_reg reg_left_rest)
qed

theorem concurrent_requests_return_witness:
  "\<exists>s. reg_exec (take 5 two_misses) empty_conc = Some s \<and> \<not> reg_rest (rc_pcs s 0) \<and>
    (\<exists>ts s'. reg_exec (map Proceed ts) s = Some s' \<and> (\<forall>t. reg_rest (rc_pcs s' t)))"
proof -
  have "case reg_exec (take 5 two_misses) empty_conc of None \<Rightarrow> False | Some s \<Rightarrow> \<not> reg_rest (rc_pcs s 0)"
    by code_simp
  then obtain s where s: "reg_exec (take 5 two_misses) empty_conc = Some s" "\<not> reg_rest (rc_pcs s 0)"
    by (auto split: option.splits)
  then show ?thesis using concurrent_requests_return [OF s(1) [unfolded empty_conc_def]] by blast
qed


text \<open>
  C7: Whatever goroutines ask a new registry, and however their requests interleave, the meter creates
  each instrument at most once: when no goroutine is in the section that writes, no kind and name has
  been created twice, the instruments created are those the registry holds, and there are never
  more than the limit.
\<close>

theorem concurrent_requests_create_once:
  assumes "reg_exec evs (new_conc (newRegistryWithCache m cache epochPtr epoch maxInstruments) w) = Some s"
    and "created_names w = []" and "rc_writer s = None"
  shows "distinct (created_names (rc_world s)) \<and> set (created_names (rc_world s)) = registry_names (rc_reg s) \<and>
    int (length (created_names (rc_world s))) = instrumentCount (rc_reg s) \<and>
    instrumentCount (rc_reg s) \<le> (if maxInstruments \<le> 0 then 500 else maxInstruments)"
proof -
  let ?r = "newRegistryWithCache m cache epochPtr epoch maxInstruments"
  have wf: "conc_wf ?r w s" by (rule conc_wf_exec [OF conc_wf_new assms(1)])
  then have "rc_pcs s t \<noteq> Storing q i" for t q i
    using assms(3) unfolding conc_wf_def lock_ok_def by (metis option.distinct(1) writing.simps(3))
  then have "replay (rc_hist s) (?r, w) = Some (rc_reg s, rc_world s)"
    using wf unfolding conc_wf_def by blast
  then have served: "fold serve_locked (map (fst \<circ> snd) (rc_hist s)) (?r, w) = (rc_reg s, rc_world s)"
    by (rule replay_serves)
  have "registry_wf ?r w"
    using assms(2) by (simp add: registry_wf_def registry_names_def newRegistryWithCache_def
        instrumentCount_def defaultMaxInstruments_def)
  from serve_all_wf [OF this served] show ?thesis
    by (simp add: registry_wf_def newRegistryWithCache_def Let_def defaultMaxInstruments_def
        split: if_splits)
qed

theorem concurrent_requests_create_once_witness:
  "\<exists>s. reg_exec two_misses empty_conc = Some s \<and> w_registered (rc_world s) = [(CounterKind, ''a'', True)] \<and>
    distinct (created_names (rc_world s)) \<and> instrumentCount (rc_reg s) \<le> 10"
proof -
  obtain s where s: "reg_exec two_misses empty_conc = Some s" "rc_writer s = None"
    "w_registered (rc_world s) = [(CounterKind, ''a'', True)]"
    using two_misses_run by (auto split: option.splits)
  from concurrent_requests_create_once [OF s(1) [unfolded empty_conc_def] _ s(2)] show ?thesis
    using s(1,3) by simp
qed

end
