(* ===== verification/Trace_Headers.thy ===== *)
theory Trace_Headers
  imports Tel_Prelude
begin

text \<open>
  Header maps as carriers of the trace context (trace.go): the headerCarrier over a Go map of
  slices, with the slices' backing arrays in a store, since Set writes into the array a key's
  slice already has; the contract of a carrier, and InjectContext and ExtractContext over it. The
  propagator is a parameter: the fields it sets, and the context it makes from what Get answers.
\<close>

section \<open>Slices and header maps\<close>

record goSlice =
  sl_array :: addr
  sl_off :: nat
  sl_len :: nat
  sl_cap :: nat

type_synonym stringStore = "addr \<Rightarrow> string list"

type_synonym headers = "(string \<times> goSlice) list"

text \<open>The zero value of a slice has no capacity.\<close>

definition nil_slice :: goSlice where
  "nil_slice = \<lparr> sl_array = 0, sl_off = 0, sl_len = 0, sl_cap = 0 \<rparr>"

definition slice_of :: "headers \<Rightarrow> string \<Rightarrow> goSlice" where
  "slice_of c key = (case map_of c key of None \<Rightarrow> nil_slice | Some s \<Rightarrow> s)"

definition slice_values :: "stringStore \<Rightarrow> goSlice \<Rightarrow> string list" where
  "slice_values h s = take (sl_len s) (drop (sl_off s) (h (sl_array s)))"

text \<open>The state of a carrier: the store, the next free array, the map.\<close>

type_synonym carrier_state = "stringStore \<times> addr \<times> headers"

definition carrier_Get :: "carrier_state \<Rightarrow> string \<Rightarrow> string" where
  "carrier_Get st key =
     (case st of (h, nxt, c) \<Rightarrow>
        let vals = slice_of c key
        in if sl_len vals = 0 then [] else h (sl_array vals) ! sl_off vals)"

definition carrier_Set :: "string \<Rightarrow> string \<Rightarrow> carrier_state \<Rightarrow> carrier_state" where
  "carrier_Set key val st =
     (case st of (h, nxt, c) \<Rightarrow>
        let vals = slice_of c key
        in if sl_len vals = 1
           then (h(sl_array vals := (h (sl_array vals))[sl_off vals := val]), nxt, c)
           else if sl_cap vals \<ge> 1
           then (h(sl_array vals := (h (sl_array vals))[sl_off vals := val]), nxt,
                 AList.update key (vals\<lparr>sl_len := 1\<rparr>) c)
           else (h(nxt := [val]), nxt + 1,
                 AList.update key \<lparr> sl_array = nxt, sl_off = 0, sl_len = 1, sl_cap = 1 \<rparr> c))"

definition carrier_Keys :: "carrier_state \<Rightarrow> string list" where
  "carrier_Keys st = (case st of (h, nxt, c) \<Rightarrow> map fst c)"

section \<open>Well-formed header maps\<close>

text \<open>
  Keys are distinct, every slice lies in its array, the arrays exist, and no two keys share one:
  what a map built by its own Set calls or decoded from a message satisfies.
\<close>

definition slice_ok :: "stringStore \<Rightarrow> addr \<Rightarrow> goSlice \<Rightarrow> bool" where
  "slice_ok h nxt s \<longleftrightarrow> sl_len s \<le> sl_cap s \<and>
     (sl_cap s > 0 \<longrightarrow> sl_array s < nxt \<and> sl_off s + sl_cap s \<le> length (h (sl_array s)))"

definition headers_ok :: "carrier_state \<Rightarrow> bool" where
  "headers_ok st \<longleftrightarrow> (case st of (h, nxt, c) \<Rightarrow>
     distinct (map fst c) \<and> (\<forall>s \<in> snd ` set c. slice_ok h nxt s) \<and>
     (\<forall>k s k' s'. map_of c k = Some s \<and> map_of c k' = Some s' \<and> k \<noteq> k' \<and> sl_cap s > 0 \<and> sl_cap s' > 0 \<longrightarrow>
        sl_array s \<noteq> sl_array s'))"

definition header_values :: "carrier_state \<Rightarrow> string \<Rightarrow> string list option" where
  "header_values st k = (case st of (h, nxt, c) \<Rightarrow> map_option (slice_values h) (map_of c k))"

lemma carrier_Get_values:
  assumes "headers_ok st"
  shows "carrier_Get st k = (case header_values st k of Some (v # vs) \<Rightarrow> v | _ \<Rightarrow> [])"
proof -
  obtain h nxt c where st: "st = (h, nxt, c)" by (cases st)
  show ?thesis
  proof (cases "map_of c k")
    case (Some s)
    then have "slice_ok h nxt s"
      using assms by (force simp: headers_ok_def st dest: map_of_SomeD)
    then have len: "sl_len s = 0 \<or> sl_off s < length (h (sl_array s)) \<and> sl_len s > 0"
      by (auto simp: slice_ok_def)
    moreover have "\<exists>vs. slice_values h s = h (sl_array s) ! sl_off s # vs"
      if "sl_off s < length (h (sl_array s))" "sl_len s > 0"
      using that by (cases "sl_len s") (simp_all add: slice_values_def Cons_nth_drop_Suc [symmetric])
    ultimately show ?thesis
      using Some by (auto simp: carrier_Get_def st slice_of_def header_values_def slice_values_def Let_def)
  qed (simp add: carrier_Get_def st slice_of_def nil_slice_def header_values_def)
qed

lemma slice_values_set:
  assumes "slice_ok h nxt s" "sl_cap s \<ge> 1"
  shows "slice_values (h(sl_array s := (h (sl_array s))[sl_off s := v])) (s\<lparr>sl_len := 1\<rparr>) = [v]"
proof -
  have "sl_off s < length (h (sl_array s))" using assms by (auto simp: slice_ok_def)
  then show ?thesis by (simp add: slice_values_def take_Suc_conv_app_nth [of 0, simplified] hd_drop_conv_nth)
qed

lemma slice_ok_write:
  "slice_ok (h(a := (h a)[n := v])) nxt s = slice_ok h nxt s"
  by (simp add: slice_ok_def)

lemma slice_values_write:
  "sl_array s \<noteq> a \<or> sl_cap s = 0 \<Longrightarrow> sl_len s \<le> sl_cap s \<Longrightarrow>
    slice_values (h(a := xs)) s = slice_values h s"
  by (auto simp: slice_values_def)

lemma set_AList_update_snd:
  "x \<in> snd ` set (AList.update k v c) \<Longrightarrow> x = v \<or> x \<in> snd ` set c"
  by (induction c) (auto split: if_splits)

text \<open>Set writes into the key's own array, or takes a new one.\<close>

definition set_shape :: "carrier_state \<Rightarrow> string \<Rightarrow> string \<Rightarrow> carrier_state \<Rightarrow> goSlice \<Rightarrow> bool" where
  "set_shape st k v st' s \<longleftrightarrow> (case (st, st') of ((h, nxt, c), (h', nxt', c')) \<Rightarrow>
     map_of c' = (map_of c)(k \<mapsto> s) \<and> distinct (map fst c') \<and> snd ` set c' \<subseteq> insert s (snd ` set c) \<and>
     fst ` set c' = insert k (fst ` set c) \<and> slice_ok h' nxt' s \<and> slice_values h' s = [v] \<and> nxt \<le> nxt' \<and>
     sl_cap s > 0 \<and> (\<forall>a. a \<noteq> sl_array s \<longrightarrow> h' a = h a) \<and> (\<forall>a < nxt. length (h' a) = length (h a)) \<and>
     (sl_array s = nxt \<or> (\<exists>s0. map_of c k = Some s0 \<and> sl_cap s0 > 0 \<and> sl_array s0 = sl_array s)))"

lemma AList_update_shape:
  assumes "distinct (map fst c)"
  shows "map_of (AList.update k s c) = (map_of c)(k \<mapsto> s)" "distinct (map fst (AList.update k s c))"
    "snd ` set (AList.update k s c) \<subseteq> insert s (snd ` set c)"
    "fst ` set (AList.update k s c) = insert k (fst ` set c)"
  using assms set_AList_update_snd [of _ k s c]
  by (auto simp: update_conv' distinct_update set_AList_update_keys)

lemma carrier_Set_shape:
  assumes "headers_ok st"
  shows "\<exists>s. set_shape st k v (carrier_Set k v st) s"
proof -
  obtain h nxt c where st: "st = (h, nxt, c)" by (cases st)
  let ?vals = "slice_of c k"
  have d: "distinct (map fst c)" using assms by (simp add: headers_ok_def st)
  have ok: "slice_ok h nxt s0" if "map_of c k = Some s0" for s0
    using assms that by (force simp: headers_ok_def st dest: map_of_SomeD)
  show ?thesis
  proof (cases "sl_cap ?vals \<ge> 1")
    case True
    then obtain s0 where s0: "map_of c k = Some s0" "?vals = s0" "sl_cap s0 \<ge> 1"
      by (cases "map_of c k") (auto simp: slice_of_def nil_slice_def)
    let ?h = "h(sl_array s0 := (h (sl_array s0))[sl_off s0 := v])" and ?s = "s0\<lparr>sl_len := 1\<rparr>"
    have vals: "slice_values ?h ?s = [v]" by (rule slice_values_set [OF ok [OF s0(1)] s0(3)])
    have fits: "slice_ok ?h nxt ?s"
      using ok [OF s0(1)] s0(3) by (simp add: slice_ok_def)
    have mine: "\<exists>s1. map_of c k = Some s1 \<and> sl_cap s1 > 0 \<and> sl_array s1 = sl_array ?s"
      using s0 by simp
    show ?thesis
    proof (cases "sl_len s0 = 1")
      case True
      then have same: "?s = s0" by simp
      have "map_of c = (map_of c)(k \<mapsto> s0)" using s0(1) by (simp add: fun_upd_idem)
      moreover have "fst ` set c = insert k (fst ` set c)"
        using map_of_SomeD [OF s0(1)] by (metis fst_conv imageI insert_absorb)
      moreover have "carrier_Set k v st = (?h, nxt, c)"
        using True s0 by (simp add: carrier_Set_def st)
      ultimately show ?thesis
        using vals fits mine d s0(3) unfolding same set_shape_def st
        by (intro exI [where x = s0]) auto
    next
      case False
      then have "carrier_Set k v st = (?h, nxt, AList.update k ?s c)"
        using s0 by (simp add: carrier_Set_def st)
      then show ?thesis
        using vals fits mine s0(3) AList_update_shape [OF d, of k ?s] unfolding set_shape_def st
        by (intro exI [where x = ?s]) auto
    qed
  next
    case False
    then have short: "sl_len ?vals \<noteq> 1"
      using ok by (cases "map_of c k") (force simp: slice_of_def nil_slice_def slice_ok_def)+
    let ?s = "\<lparr> sl_array = nxt, sl_off = 0, sl_len = 1, sl_cap = 1 \<rparr>"
    have "carrier_Set k v st = (h(nxt := [v]), nxt + 1, AList.update k ?s c)"
      using False short by (simp add: carrier_Set_def st)
    then show ?thesis
      using AList_update_shape [OF d, of k ?s] unfolding set_shape_def st
      by (intro exI [where x = ?s]) (simp add: slice_ok_def slice_values_def)
  qed
qed

lemma carrier_Set_correct:
  assumes ok: "headers_ok st"
  shows "headers_ok (carrier_Set k v st)"
    and "header_values (carrier_Set k v st) = (header_values st)(k \<mapsto> [v])"
    and "set (carrier_Keys (carrier_Set k v st)) = insert k (set (carrier_Keys st))"
proof -
  obtain h nxt c where st: "st = (h, nxt, c)" by (cases st)
  obtain h' nxt' c' where set: "carrier_Set k v st = (h', nxt', c')" by (cases "carrier_Set k v st")
  obtain s where shape: "set_shape (h, nxt, c) k v (h', nxt', c') s"
    using carrier_Set_shape [OF ok, of k v] set st by auto
  have m: "map_of c' = (map_of c)(k \<mapsto> s)" "distinct (map fst c')" "snd ` set c' \<subseteq> insert s (snd ` set c)"
    and s: "slice_ok h' nxt' s" "slice_values h' s = [v]" "nxt \<le> nxt'" "fst ` set c' = insert k (fst ` set c)"
    and h: "\<forall>a. a \<noteq> sl_array s \<longrightarrow> h' a = h a" "\<forall>a < nxt. length (h' a) = length (h a)"
    and src: "sl_array s = nxt \<or> (\<exists>s0. map_of c k = Some s0 \<and> sl_cap s0 > 0 \<and> sl_array s0 = sl_array s)"
    and cap: "sl_cap s > 0"
    using shape unfolding set_shape_def by simp_all
  have old: "slice_ok h nxt s'" if "s' \<in> snd ` set c" for s'
    using ok that by (auto simp: headers_ok_def st)
  have old_map: "slice_ok h nxt s'" if "map_of c k' = Some s'" for k' s'
    using old that by (force dest: map_of_SomeD)
  have uniq: "sl_array s1 \<noteq> sl_array s2"
    if "map_of c k1 = Some s1" "map_of c k2 = Some s2" "k1 \<noteq> k2" "sl_cap s1 > 0" "sl_cap s2 > 0" for k1 s1 k2 s2
    using ok that unfolding headers_ok_def st prod.case by blast
  have apart: "sl_array s' \<noteq> sl_array s" if "map_of c k' = Some s'" "k' \<noteq> k" "sl_cap s' > 0" for k' s'
    using src
  proof
    assume "sl_array s = nxt"
    then show ?thesis using old_map [OF that(1)] that(3) by (auto simp: slice_ok_def)
  next
    assume "\<exists>s0. map_of c k = Some s0 \<and> sl_cap s0 > 0 \<and> sl_array s0 = sl_array s"
    then show ?thesis using uniq that by metis
  qed
  have keep: "slice_ok h' nxt' s'" if "s' \<in> snd ` set c" for s'
    using old [OF that] s(3) h(2) by (auto simp: slice_ok_def)
  show "headers_ok (carrier_Set k v st)"
    unfolding set headers_ok_def prod.case
  proof (intro conjI ballI allI impI)
    show "slice_ok h' nxt' s'" if "s' \<in> snd ` set c'" for s'
      using that m(3) keep s(1) by auto
    show "sl_array s1 \<noteq> sl_array s2"
      if "map_of c' k1 = Some s1 \<and> map_of c' k2 = Some s2 \<and> k1 \<noteq> k2 \<and> sl_cap s1 > 0 \<and> sl_cap s2 > 0"
      for k1 s1 k2 s2
    proof (cases "k1 = k \<or> k2 = k")
      case True
      then show ?thesis using that apart [of k1 s1] apart [of k2 s2] by (auto simp: m(1))
    next
      case False
      then show ?thesis using that uniq [of k1 s1 k2 s2] by (auto simp: m(1))
    qed
  qed (rule m(2))
  show "header_values (carrier_Set k v st) = (header_values st)(k \<mapsto> [v])"
  proof
    fix k'
    have "slice_values h' s' = slice_values h s'" if "map_of c k' = Some s'" "k' \<noteq> k" for s'
    proof (cases "sl_cap s' > 0")
      case True
      then show ?thesis using apart [OF that] h(1) by (simp add: slice_values_def)
    next
      case False
      then show ?thesis using old_map [OF that(1)] by (simp add: slice_values_def slice_ok_def)
    qed
    then show "header_values (carrier_Set k v st) k' = ((header_values st)(k \<mapsto> [v])) k'"
      unfolding st set [unfolded st] by (cases "map_of c k'") (auto simp: header_values_def m(1) s(2))
  qed
  show "set (carrier_Keys (carrier_Set k v st)) = insert k (set (carrier_Keys st))"
    unfolding st set [unfolded st] by (simp add: carrier_Keys_def s(4))
qed

section \<open>The contract of a carrier\<close>

text \<open>
  What a propagator relies on (propagation.TextMapCarrier): a value set is the value read back, and
  no other key changes.
\<close>

locale text_carrier =
  fixes get :: "'s \<Rightarrow> string \<Rightarrow> string" and put :: "string \<Rightarrow> string \<Rightarrow> 's \<Rightarrow> 's"
    and keys :: "'s \<Rightarrow> string list" and invar :: "'s \<Rightarrow> bool"
  assumes invar_put: "invar s \<Longrightarrow> invar (put k v s)"
    and get_put: "invar s \<Longrightarrow> get (put k v s) k' = (if k' = k then v else get s k')"
    and keys_put: "invar s \<Longrightarrow> set (keys (put k v s)) = insert k (set (keys s))"
begin

definition put_all :: "(string \<times> string) list \<Rightarrow> 's \<Rightarrow> 's" where
  "put_all kvs s = fold (\<lambda>kv. put (fst kv) (snd kv)) kvs s"

lemma invar_put_all: "invar s \<Longrightarrow> invar (put_all kvs s)"
  unfolding put_all_def by (induction kvs arbitrary: s) (simp_all add: invar_put)

lemma keys_put_all: "invar s \<Longrightarrow> set (keys (put_all kvs s)) = fst ` set kvs \<union> set (keys s)"
  unfolding put_all_def by (induction kvs arbitrary: s) (auto simp: invar_put keys_put)

lemma get_put_all:
  "invar s \<Longrightarrow> distinct (map fst kvs) \<Longrightarrow>
    get (put_all kvs s) k = (case map_of kvs k of Some v \<Rightarrow> v | None \<Rightarrow> get s k)"
  unfolding put_all_def
proof (induction kvs arbitrary: s)
  case (Cons kv kvs)
  have absent: "map_of kvs (fst kv) = None"
    using Cons.prems(2) by (simp add: map_of_eq_None_iff)
  have "get (fold (\<lambda>kv. put (fst kv) (snd kv)) kvs (put (fst kv) (snd kv) s)) k =
      (case map_of kvs k of Some v \<Rightarrow> v | None \<Rightarrow> get (put (fst kv) (snd kv) s) k)"
    using Cons.IH [OF invar_put [OF Cons.prems(1)]] Cons.prems(2) by simp
  also have "\<dots> = (case map_of (kv # kvs) k of Some v \<Rightarrow> v | None \<Rightarrow> get s k)"
    using absent by (cases kv) (auto simp: get_put [OF Cons.prems(1)] split: option.split)
  finally show ?case by simp
qed simp

end

interpretation header_map: text_carrier carrier_Get carrier_Set carrier_Keys headers_ok
proof
  fix st k v k'
  assume ok: "headers_ok st"
  show "headers_ok (carrier_Set k v st)" by (rule carrier_Set_correct(1) [OF ok])
  show "carrier_Get (carrier_Set k v st) k' = (if k' = k then v else carrier_Get st k')"
    by (simp add: carrier_Get_values carrier_Set_correct [OF ok] ok)
  show "set (carrier_Keys (carrier_Set k v st)) = insert k (set (carrier_Keys st))"
    by (rule carrier_Set_correct(3) [OF ok])
qed

section \<open>Inject and Extract\<close>

text \<open>
  Inject of the propagator calls Set for each field it has for a context, in order; Extract makes
  its context from what Get answers.
\<close>

record 'ctx propagator =
  pr_fields :: "'ctx \<Rightarrow> (string \<times> string) list"
  pr_extract :: "(string \<Rightarrow> string) \<Rightarrow> 'ctx \<Rightarrow> 'ctx"

definition Inject :: "'ctx propagator \<Rightarrow> 'ctx \<Rightarrow> (string \<Rightarrow> string \<Rightarrow> 's \<Rightarrow> 's) \<Rightarrow> 's \<Rightarrow> 's" where
  "Inject pr ctx put s = fold (\<lambda>kv. put (fst kv) (snd kv)) (pr_fields pr ctx) s"

definition Extract :: "'ctx propagator \<Rightarrow> 'ctx \<Rightarrow> (string \<Rightarrow> string) \<Rightarrow> 'ctx" where
  "Extract pr ctx get = pr_extract pr get ctx"

text \<open>The header map may be nil.\<close>

definition InjectContext ::
  "'ctx propagator \<Rightarrow> 'ctx \<Rightarrow> stringStore \<Rightarrow> addr \<Rightarrow> headers option \<Rightarrow> carrier_state" where
  "InjectContext pr ctx h nxt hdrs =
     (let c = (case hdrs of None \<Rightarrow> [] | Some c \<Rightarrow> c)
      in Inject pr ctx carrier_Set (h, nxt, c))"

definition ExtractContext :: "'ctx propagator \<Rightarrow> 'ctx \<Rightarrow> carrier_state \<Rightarrow> 'ctx" where
  "ExtractContext pr ctx st =
     (case st of (h, nxt, c) \<Rightarrow>
        if length c = 0 then ctx else Extract pr ctx (carrier_Get st))"

text \<open>
  C33: The trace context survives the headers: InjectContext into a nil map, or into any header map
  whose slices do not share arrays, yields a map whose every key reads back the value the
  propagator set for it, or what it held before where the propagator set none, although Set writes
  into the arrays of the existing slices; and ExtractContext hands the propagator exactly these
  values, or returns the context untouched when the map is empty.
\<close>

theorem inject_extract_roundtrip:
  assumes ok: "headers_ok (h, nxt, case hdrs of None \<Rightarrow> [] | Some c \<Rightarrow> c)"
    and distinct: "distinct (map fst (pr_fields pr ctx))"
  shows "headers_ok (InjectContext pr ctx h nxt hdrs) \<and>
    set (carrier_Keys (InjectContext pr ctx h nxt hdrs)) =
      fst ` set (pr_fields pr ctx) \<union> fst ` set (case hdrs of None \<Rightarrow> [] | Some c \<Rightarrow> c) \<and>
    ExtractContext pr ctx' (InjectContext pr ctx h nxt hdrs) =
      (if pr_fields pr ctx = [] \<and> (hdrs = None \<or> hdrs = Some []) then ctx'
       else pr_extract pr (\<lambda>k. case map_of (pr_fields pr ctx) k of
          Some v \<Rightarrow> v
        | None \<Rightarrow> carrier_Get (h, nxt, case hdrs of None \<Rightarrow> [] | Some c \<Rightarrow> c) k) ctx')"
proof -
  let ?c = "case hdrs of None \<Rightarrow> [] | Some c \<Rightarrow> c"
  have inj: "InjectContext pr ctx h nxt hdrs = header_map.put_all (pr_fields pr ctx) (h, nxt, ?c)"
    by (simp add: InjectContext_def Inject_def header_map.put_all_def Let_def)
  have keys: "set (carrier_Keys (InjectContext pr ctx h nxt hdrs)) =
      fst ` set (pr_fields pr ctx) \<union> fst ` set ?c"
    unfolding inj header_map.keys_put_all [OF ok] by (simp add: carrier_Keys_def)
  obtain h' nxt' c' where st': "InjectContext pr ctx h nxt hdrs = (h', nxt', c')"
    by (cases "InjectContext pr ctx h nxt hdrs")
  have empty: "c' = [] \<longleftrightarrow> pr_fields pr ctx = [] \<and> (hdrs = None \<or> hdrs = Some [])"
    using keys unfolding st' by (cases hdrs) (auto simp: carrier_Keys_def)
  have "carrier_Get (InjectContext pr ctx h nxt hdrs) = (\<lambda>k. case map_of (pr_fields pr ctx) k of
      Some v \<Rightarrow> v | None \<Rightarrow> carrier_Get (h, nxt, ?c) k)"
    unfolding inj using header_map.get_put_all [OF ok distinct] by blast
  then have "ExtractContext pr ctx' (InjectContext pr ctx h nxt hdrs) =
      (if c' = [] then ctx' else pr_extract pr (\<lambda>k. case map_of (pr_fields pr ctx) k of
          Some v \<Rightarrow> v | None \<Rightarrow> carrier_Get (h, nxt, ?c) k) ctx')"
    unfolding ExtractContext_def Extract_def st' by simp
  then show ?thesis
    using header_map.invar_put_all [OF ok] keys empty unfolding inj by simp
qed

text \<open>A propagator that keeps one header, and a map whose key already has two values.\<close>

definition demo_propagator :: "string propagator" where
  "demo_propagator = \<lparr> pr_fields = (\<lambda>ctx. [(''traceparent'', ctx)]),
     pr_extract = (\<lambda>get ctx. get ''traceparent'' @ get ''other'') \<rparr>"

definition demo_headers :: headers where
  "demo_headers = [(''traceparent'', \<lparr> sl_array = 0, sl_off = 0, sl_len = 2, sl_cap = 2 \<rparr>),
     (''other'', \<lparr> sl_array = 1, sl_off = 0, sl_len = 1, sl_cap = 1 \<rparr>)]"

definition demo_store :: stringStore where
  "demo_store a = (if a = 0 then [''old'', ''older''] else [''x''])"

theorem inject_extract_roundtrip_witness:
  "ExtractContext demo_propagator [] (InjectContext demo_propagator ''new'' demo_store 2 (Some demo_headers))
     = ''newx''"
proof -
  have "headers_ok (demo_store, 2, case Some demo_headers of None \<Rightarrow> [] | Some c \<Rightarrow> c)"
    by (auto simp: headers_ok_def demo_headers_def slice_ok_def demo_store_def split: if_splits)
  moreover have "distinct (map fst (pr_fields demo_propagator ''new''))"
    by (simp add: demo_propagator_def)
  ultimately show ?thesis
    using inject_extract_roundtrip [of demo_store 2 "Some demo_headers" demo_propagator "''new''" "[]"]
    by (simp add: demo_propagator_def carrier_Get_def slice_of_def demo_headers_def demo_store_def)
qed

text \<open>
  Two keys whose slices share an array, as after \<open>h["b"] = h["a"]\<close>: setting one changes the other.
\<close>

lemma shared_array_changes_both:
  "\<exists>st. carrier_Get st ''b'' = ''x'' \<and> carrier_Get (carrier_Set ''a'' ''y'' st) ''b'' = ''y''"
  by (intro exI [where x = "(\<lambda>a. [''x''], 1,
      [(''a'', \<lparr> sl_array = 0, sl_off = 0, sl_len = 1, sl_cap = 1 \<rparr>),
       (''b'', \<lparr> sl_array = 0, sl_off = 0, sl_len = 1, sl_cap = 1 \<rparr>)])"])
    (simp add: carrier_Get_def carrier_Set_def slice_of_def Let_def)

end
