(* ===== verification/Spans.thy ===== *)
theory Spans
  imports Logging Lifecycle Attr_Cache
begin

text \<open>
  Spans (trace.go, zlog_fields.go): the telemetry built on given providers, StartSpan, EndSpan,
  TraceFunc and the messaging attributes. A span is a number in the trace of what the library has
  called; the SDK's choice of the new span's context is the parameter \<open>sdk_span\<close>. A function of
  the application that is run inside a span returns, or panics.
\<close>

section \<open>Messaging attributes\<close>

datatype attrValue = AString string | AInt64 int

type_synonym spanAttr = "string \<times> attrValue"

definition MessagingSubject :: "string \<Rightarrow> spanAttr" where
  "MessagingSubject subject = (''messaging.destination'', AString subject)"
definition MessagingSystem :: spanAttr where
  "MessagingSystem = (''messaging.system'', AString ''nats'')"
definition MessagingOperationPublish :: spanAttr where
  "MessagingOperationPublish = (''messaging.operation'', AString ''publish'')"
definition MessagingOperationProcess :: spanAttr where
  "MessagingOperationProcess = (''messaging.operation'', AString ''process'')"
definition MessagingOperationRequest :: spanAttr where
  "MessagingOperationRequest = (''messaging.operation'', AString ''request'')"
definition MessagingOperationReply :: spanAttr where
  "MessagingOperationReply = (''messaging.operation'', AString ''reply'')"
definition MessagingStream :: "string \<Rightarrow> spanAttr" where
  "MessagingStream stream = (''messaging.nats.stream'', AString stream)"
definition MessagingConsumer :: "string \<Rightarrow> spanAttr" where
  "MessagingConsumer consumer = (''messaging.nats.consumer'', AString consumer)"
definition MessagingStreamSequence :: "int \<Rightarrow> spanAttr" where
  "MessagingStreamSequence sq = (''messaging.nats.stream_sequence'', AInt64 sq)"
definition MessagingDeliveryCount :: "int \<Rightarrow> spanAttr" where
  "MessagingDeliveryCount n = (''messaging.nats.delivery_count'', AInt64 n)"

section \<open>A telemetry on given providers\<close>

text \<open>
  The telemetry and, where a meter provider is given, the cache at address a for its registry.
\<close>

definition NewWithProviders ::
  "('opt, 'inst) meters \<Rightarrow> Config \<Rightarrow> addr \<Rightarrow> meterProvider option \<Rightarrow> tracerProvider option
     \<Rightarrow> ('opt, 'inst, 'set) telemetry" where
  "NewWithProviders meterOf cfg a mp tp =
     (let tel = newTelemetry meterOf cfg;
          tel1 = (case mp of
                    None \<Rightarrow> tel
                  | Some m \<Rightarrow> tel\<lparr>t_metricProvider := m,
                      t_registry := Some (newRegistryWithCache (meterOf m (cf_Service (t_cfg tel))) a (Some 0)
                        (t_epoch tel) (maxInstrumentsFromCfg (t_cfg tel)))\<rparr>);
          tel2 = (case tp of
                    None \<Rightarrow> tel1
                  | Some p \<Rightarrow> refreshTracerLocked NoopTracer (tel1\<lparr>t_traceProvider := Some p\<rparr>))
      in tel2\<lparr>t_started := True\<rparr>)"

definition NewWithTracerProvider ::
  "('opt, 'inst) meters \<Rightarrow> Config \<Rightarrow> addr \<Rightarrow> tracerProvider option \<Rightarrow> ('opt, 'inst, 'set) telemetry" where
  "NewWithTracerProvider meterOf cfg a provider = NewWithProviders meterOf cfg a None provider"

section \<open>Spans\<close>

type_synonym 'tel sdk_span = "tracerProvider \<times> string \<Rightarrow> string \<Rightarrow> nat \<Rightarrow> 'tel goContext \<Rightarrow> spanContext"

text \<open>
  StartSpan of the telemetry whose tracer is \<open>tr\<close>; every constructor sets one, so the nil tracer
  that the code guards against does not occur.
\<close>

definition StartSpan ::
  "'tel sdk_span \<Rightarrow> tracerProvider \<times> string \<Rightarrow> 'tel goContext \<Rightarrow> string \<Rightarrow> spanOption list
     \<Rightarrow> obs \<Rightarrow> 'tel goContext \<times> nat \<times> obs" where
  "StartSpan sdk_span tr ctx spanName opts w =
     (let n = ob_next w;
          w1 = emit (SpanStart n spanName opts) (w\<lparr>ob_next := n + 1\<rparr>);
          ctx1 = ctx\<lparr>cx_span := sdk_span tr spanName n ctx\<rparr>
      in (contextWithTraceLogger (ob_process w1) ctx1, n, w1))"

definition EndSpan :: "nat option \<Rightarrow> go_error option \<Rightarrow> obs \<Rightarrow> obs" where
  "EndSpan sp err w =
     (case sp of
        None \<Rightarrow> w
      | Some n \<Rightarrow>
          let w1 = (case err of
                      None \<Rightarrow> w
                    | Some e \<Rightarrow> emit (SpanSetError n e) (emit (SpanRecordError n e) w))
          in emit (SpanEnd n) w1)"

datatype 'r outcomeOf = Returns 'r | Panics string

text \<open>
  The tracer is that of the context's telemetry, or of the process-wide one, \<open>global\<close>; since is the
  time elapsed when the line is logged.
\<close>

definition TraceFunc ::
  "'tel sdk_span \<Rightarrow> (rat \<Rightarrow> float64) \<Rightarrow> ('tel \<Rightarrow> tracerProvider \<times> string) \<Rightarrow> 'tel \<Rightarrow> 'tel goContext \<Rightarrow> string
     \<Rightarrow> ('tel goContext \<Rightarrow> obs \<Rightarrow> go_error option outcomeOf \<times> obs) \<Rightarrow> int \<Rightarrow> obs
     \<Rightarrow> go_error option outcomeOf \<times> obs" where
  "TraceFunc sdk_span rnd tracerOf global ctx name fn since w =
     (case StartSpan sdk_span (tracerOf (FromCtx global ctx)) ctx name [] w of
        (ctx1, sp, w1) \<Rightarrow>
          (case fn ctx1 w1 of
             (Panics v, w2) \<Rightarrow> (Panics v, w2)
           | (Returns err, w2) \<Rightarrow>
               let w3 = EndSpan (Some sp) err w2;
                   event = (case err of None \<Rightarrow> InfoCtx w3 ctx1
                            | Some e \<Rightarrow> ev_Err (ErrorCtx w3 ctx1) (Some e))
               in (Returns err, ev_Msg (Duration rnd (Func event name) since) name w3)))"

lemma emit_simps [simp]:
  "ob_trace (emit a w) = ob_trace w @ [a]" "ob_next (emit a w) = ob_next w"
  "ob_process (emit a w) = ob_process w"
  by (simp_all add: emit_def)

fun end_acts :: "nat \<Rightarrow> go_error option \<Rightarrow> act list" where
  "end_acts n None = [SpanEnd n]"
| "end_acts n (Some e) = [SpanRecordError n e, SpanSetError n e, SpanEnd n]"

lemma EndSpan_trace [simp]:
  "ob_trace (EndSpan (Some n) err w) = ob_trace w @ end_acts n err"
  "ob_process (EndSpan (Some n) err w) = ob_process w" "ob_next (EndSpan (Some n) err w) = ob_next w"
  by (cases err; simp add: EndSpan_def Let_def)+

text \<open>The duration field of a completion line.\<close>

definition duration_field :: "(rat \<Rightarrow> float64) \<Rightarrow> int \<Rightarrow> string \<times> logValue" where
  "duration_field rnd d =
     (if d < second then (FieldDurationMs, LInt (duration_milliseconds d))
      else (FieldDurationS, LFloat (duration_seconds rnd d)))"

lemma Duration_fields [simp]:
  "ev_fields (Duration rnd e d) = ev_fields e @ [duration_field rnd d]"
  "ev_level (Duration rnd e d) = ev_level e" "ev_logger (Duration rnd e d) = ev_logger e"
  by (simp_all add: Duration_def ev_add_def duration_field_def)

text \<open>Below a second the milliseconds are between 0 and 999.\<close>

lemma duration_ms_range:
  assumes "0 \<le> d" "d < second"
  shows "0 \<le> duration_milliseconds d" "duration_milliseconds d < 1000"
proof -
  have "duration_milliseconds d = d div 1000000"
    using go_quot_nonneg [OF assms(1), of 1000000] by (simp add: duration_milliseconds_def millisecond_def)
  then show "0 \<le> duration_milliseconds d" "duration_milliseconds d < 1000"
    using assms by (auto simp: second_def pos_imp_zdiv_nonneg_iff)
qed

definition trace_func_event :: "(rat \<Rightarrow> float64) \<Rightarrow> logger \<Rightarrow> string \<Rightarrow> go_error option \<Rightarrow> int \<Rightarrow> event" where
  "trace_func_event rnd l name err since =
     \<lparr> ev_level = (if err = None then LvInfo else LvError), ev_logger = l, ev_skip = 0,
       ev_fields = (case err of None \<Rightarrow> [] | Some e \<Rightarrow> [(''error'', LErr e)]) @
         [(FieldFunction, LStr name), duration_field rnd since] \<rparr>"

text \<open>
  C35: TraceFunc brackets the function: when it returns, with what the function itself added to the
  trace in between, the span is started before it and ended once after it, with the error recorded
  and set as the status exactly when there is one; one line is logged after that, at error level
  for an error and info level otherwise, by the logger of the span's context, with the function's
  name and the duration, in milliseconds below a second and seconds from there; and the function's
  error is the result. When it panics, the span stays open and no line is logged.
\<close>

theorem TraceFunc_brackets:
  assumes start: "StartSpan sdk_span (tracerOf (FromCtx global ctx)) ctx name [] w = (ctx1, n, w1)"
    and run: "fn ctx1 w1 = (res, w2)" and adds: "ob_trace w2 = ob_trace w1 @ inner"
  shows "TraceFunc sdk_span rnd tracerOf global ctx name fn since w = (res, snd (TraceFunc sdk_span rnd tracerOf global ctx name fn since w)) \<and>
    ob_trace (snd (TraceFunc sdk_span rnd tracerOf global ctx name fn since w)) =
      ob_trace w @ [SpanStart (ob_next w) name []] @ inner @
      (case res of Panics v \<Rightarrow> []
       | Returns err \<Rightarrow> end_acts (ob_next w) err @
           [LogMsg (trace_func_event rnd (Ctx (ob_process w2) ctx1) name err since) name])"
proof -
  have w1: "ob_trace w1 = ob_trace w @ [SpanStart (ob_next w) name []]" and n: "n = ob_next w"
    using start by (auto simp: StartSpan_def Let_def)
  have event: "Duration rnd (Func (case err of None \<Rightarrow> InfoCtx w3 ctx1 | Some e \<Rightarrow> ev_Err (ErrorCtx w3 ctx1) (Some e)) name) since
      = trace_func_event rnd (Ctx (ob_process w3) ctx1) name err since" for err w3
    by (cases err) (simp_all add: Duration_def Func_def ev_add_def ev_Err_def InfoCtx_def ErrorCtx_def
        new_event_def trace_func_event_def duration_field_def)
  show ?thesis
  proof (cases res)
    case (Panics v)
    then show ?thesis using w1 by (simp add: TraceFunc_def start run adds)
  next
    case (Returns err)
    have "TraceFunc sdk_span rnd tracerOf global ctx name fn since w =
        (Returns err, ev_Msg (trace_func_event rnd (Ctx (ob_process w2) ctx1) name err since) name
          (EndSpan (Some n) err w2))"
      by (simp only: TraceFunc_def start run Returns prod.case outcomeOf.case Let_def event EndSpan_trace)
    then show ?thesis using w1 n by (simp add: Returns adds ev_Msg_def)
  qed
qed

definition demo_obs :: obs where
  "demo_obs = \<lparr> ob_process = newLogger JsonOut, ob_level = 1, ob_colors = False, ob_trace = [], ob_next = 0 \<rparr>"

definition demo_span :: "unit sdk_span" where
  "demo_span tr name n ctx = \<lparr> sc_TraceID = ''t'', sc_SpanID = ''s'', sc_valid = True \<rparr>"

theorem TraceFunc_brackets_witness:
  "map (\<lambda>a. case a of LogMsg e m \<Rightarrow> (ev_level e, m) | _ \<Rightarrow> (LvDebug, []))
     (ob_trace (snd (TraceFunc demo_span Fin (\<lambda>t. (NoopTracer, [])) () Background ''f''
       (\<lambda>c w. (Returns (Some ''bad''), w)) 5 demo_obs)))
   = [(LvDebug, []), (LvDebug, []), (LvDebug, []), (LvDebug, []), (LvError, ''f'')]"
proof -
  obtain ctx1 n w1 where start: "StartSpan demo_span ((\<lambda>t. (NoopTracer, [])) (FromCtx () Background)) Background ''f'' [] demo_obs = (ctx1, n, w1)"
    by (metis prod_cases3)
  have "ob_trace (snd (TraceFunc demo_span Fin (\<lambda>t. (NoopTracer, [])) () Background ''f''
      (\<lambda>c w. (Returns (Some ''bad''), w)) 5 demo_obs)) =
    ob_trace demo_obs @ [SpanStart (ob_next demo_obs) ''f'' []] @ [] @ end_acts (ob_next demo_obs) (Some ''bad'') @
      [LogMsg (trace_func_event Fin (Ctx (ob_process w1) ctx1) ''f'' (Some ''bad'') 5) ''f'']"
    using TraceFunc_brackets [where fn = "\<lambda>c w. (Returns (Some ''bad''), w)" and rnd = Fin and since = 5 and inner = "[]",
        OF start refl] by simp
  then show ?thesis by (simp add: demo_obs_def trace_func_event_def)
qed

end
