(* ===== verification/Http_Server.thy ===== *)
theory Http_Server
  imports Spans Trace_Headers
begin

text \<open>
  The fasthttp middleware (middleware/fasthttp): the Server wrapper, which extracts the trace
  context, opens a span and logs one completion line, the Recover wrapper, which answers a panic,
  and their composition. A request is what the wrappers read and write of fasthttp's RequestCtx;
  fasthttp's header lookup and the propagator are parameters. A handler changes the request and
  the observable state, and returns or panics.
\<close>

section \<open>Requests and handlers\<close>

record ('hdr, 'tel) request =
  rq_method :: string
  rq_path :: string
  rq_header :: 'hdr
  rq_base :: "'tel goContext"
  rq_ctx :: "'tel goContext option"
  rq_request_id :: string
  rq_status :: int
  rq_body :: string
  rq_ctype :: string

type_synonym ('hdr, 'tel) handler =
  "('hdr, 'tel) request \<Rightarrow> obs \<Rightarrow> unit outcomeOf \<times> ('hdr, 'tel) request \<times> obs"

record ('hdr, 'tel) http_api =
  ha_peek :: "'hdr \<Rightarrow> string \<Rightarrow> string"
  ha_set :: "string \<Rightarrow> string \<Rightarrow> 'hdr \<Rightarrow> 'hdr"
  ha_keys :: "'hdr \<Rightarrow> string list"
  ha_propagator :: "'tel goContext propagator"
  ha_sdk_span :: "'tel sdk_span"
  ha_tracerOf :: "'tel \<Rightarrow> tracerProvider \<times> string"
  ha_global :: 'tel
  ha_round :: "rat \<Rightarrow> float64"

section \<open>Configuration\<close>

record ('hdr, 'tel) http_config =
  hc_spanName :: "('hdr, 'tel) request \<Rightarrow> string"
  hc_component :: string
  hc_skip :: "string list"
  hc_logSuccess :: bool

type_synonym ('hdr, 'tel) server_option = "('hdr, 'tel) http_config \<Rightarrow> ('hdr, 'tel) http_config"

definition WithSpanName :: "(('hdr, 'tel) request \<Rightarrow> string) \<Rightarrow> ('hdr, 'tel) server_option" where
  "WithSpanName fn c = c\<lparr>hc_spanName := fn\<rparr>"

definition WithSkipPrefixes :: "string list \<Rightarrow> ('hdr, 'tel) server_option" where
  "WithSkipPrefixes ps c = c\<lparr>hc_skip := ps\<rparr>"

definition WithLogSuccess :: "bool \<Rightarrow> ('hdr, 'tel) server_option" where
  "WithLogSuccess v c = c\<lparr>hc_logSuccess := v\<rparr>"

definition methodString :: "string \<Rightarrow> string" where
  "methodString m =
     (if m = ''GET'' then ''GET''
      else if m = ''POST'' then ''POST''
      else if m = ''PUT'' then ''PUT''
      else if m = ''PATCH'' then ''PATCH''
      else if m = ''DELETE'' then ''DELETE''
      else if m = ''HEAD'' then ''HEAD''
      else if m = ''OPTIONS'' then ''OPTIONS''
      else m)"

definition server_config :: "('hdr, 'tel) server_option list \<Rightarrow> ('hdr, 'tel) http_config" where
  "server_config opts =
     fold (\<lambda>opt c. opt c) opts
       \<lparr> hc_spanName = (\<lambda>ctx. methodString (rq_method ctx)), hc_component = ''http'', hc_skip = [],
         hc_logSuccess = False \<rparr>"

section \<open>The header carrier\<close>

definition http_Get :: "('hdr, 'tel) http_api \<Rightarrow> 'hdr \<Rightarrow> string \<Rightarrow> string" where
  "http_Get ha h key =
     (if key = ''traceparent'' \<or> key = ''Traceparent'' then ha_peek ha h ''Traceparent''
      else if key = ''tracestate'' \<or> key = ''Tracestate'' then ha_peek ha h ''Tracestate''
      else if key = ''baggage'' \<or> key = ''Baggage'' then ha_peek ha h ''Baggage''
      else ha_peek ha h key)"

definition http_Set :: "('hdr, 'tel) http_api \<Rightarrow> string \<Rightarrow> string \<Rightarrow> 'hdr \<Rightarrow> 'hdr" where
  "http_Set ha key val h = ha_set ha key val h"

definition http_Keys :: "('hdr, 'tel) http_api \<Rightarrow> 'hdr \<Rightarrow> string list" where
  "http_Keys ha h = ha_keys ha h"

section \<open>The wrappers\<close>

definition http_Context :: "('hdr, 'tel) request \<Rightarrow> 'tel goContext" where
  "http_Context ctx = (case rq_ctx ctx of Some v \<Rightarrow> v | None \<Rightarrow> Background)"

definition SetContext :: "'tel goContext \<Rightarrow> ('hdr, 'tel) request \<Rightarrow> ('hdr, 'tel) request" where
  "SetContext c ctx = ctx\<lparr>rq_ctx := Some c\<rparr>"

definition errHTTPServerError :: go_error where
  "errHTTPServerError = ''http server error''"

text \<open>The completion line; \<open>path\<close> is the path before the handler ran.\<close>

definition completion_event ::
  "('hdr, 'tel) http_api \<Rightarrow> ('hdr, 'tel) http_config \<Rightarrow> ('hdr, 'tel) request \<Rightarrow> string \<Rightarrow> int \<Rightarrow> obs \<Rightarrow> event" where
  "completion_event ha cfg ctx path since w =
     (let reqCtx = http_Context ctx;
          status = rq_status ctx;
          event = (if status \<ge> 500 then WarnCtx w reqCtx else InfoCtx w reqCtx);
          e1 = ev_add ''status'' (LInt status)
                 (ev_add ''path'' (LStr path)
                   (ev_add ''method'' (LStr (rq_method ctx))
                     (ev_add ''component'' (LStr (hc_component cfg)) event)));
          rid = ha_peek ha (rq_header ctx) ''X-Request-Id'';
          e2 = (if rid \<noteq> [] then ev_add ''request_id'' (LStr rid) e1
                else if rq_request_id ctx \<noteq> [] then ev_add ''request_id'' (LStr (rq_request_id ctx)) e1
                else e1)
      in Duration (ha_round ha) e2 since)"

definition Server ::
  "('hdr, 'tel) http_api \<Rightarrow> ('hdr, 'tel) handler \<Rightarrow> ('hdr, 'tel) server_option list \<Rightarrow> int
     \<Rightarrow> ('hdr, 'tel) handler" where
  "Server ha nxt opts since ctx w =
     (let cfg = server_config opts; path = rq_path ctx
      in if list_ex (\<lambda>p. prefix p path) (hc_skip cfg) then nxt ctx w
         else
           let reqCtx = Extract (ha_propagator ha) (rq_base ctx) (http_Get ha (rq_header ctx));
               name = hc_spanName cfg ctx;
               m = methodString (rq_method ctx)
           in (case StartSpan (ha_sdk_span ha) (ha_tracerOf ha (FromCtx (ha_global ha) reqCtx)) reqCtx name
                      [SpanKindServer, SpanAttribute ''http.request.method'' m] w of
                 (reqCtx1, sp, w1) \<Rightarrow>
                   (case nxt (SetContext reqCtx1 ctx) w1 of
                      (Panics v, ctx2, w2) \<Rightarrow> (Panics v, ctx2, w2)
                    | (Returns u, ctx2, w2) \<Rightarrow>
                        let status = rq_status ctx2;
                            endErr = (if status \<ge> 500 then Some errHTTPServerError else None);
                            w3 = EndSpan (Some sp) endErr w2
                        in if \<not> hc_logSuccess cfg \<and> status < 500 then (Returns u, ctx2, w3)
                           else (Returns u, ctx2,
                                 ev_Msg (completion_event ha cfg ctx2 path since w3) ''request'' w3))))"

text \<open>The stack that is logged, debug.Stack(), is an argument.\<close>

definition Recover :: "string \<Rightarrow> ('hdr, 'tel) handler \<Rightarrow> ('hdr, 'tel) handler" where
  "Recover stack nxt ctx w =
     (case nxt ctx w of
        (Returns u, ctx1, w1) \<Rightarrow> (Returns u, ctx1, w1)
      | (Panics v, ctx1, w1) \<Rightarrow>
          let event = ev_add ''path'' (LStr (rq_path ctx1))
                (ev_add ''method'' (LStr (rq_method ctx1))
                  (ev_add ''stack'' (LStr stack)
                    (ev_add ''panic'' (LStr v)
                      (ev_add ''component'' (LStr ''http'') (log_Error w1)))));
              w2 = ev_Msg event ''http handler panic'' w1;
              ctx2 = ctx1\<lparr>rq_status := 500\<rparr>
          in if length (rq_body ctx2) = 0
             then (Returns (), ctx2\<lparr>rq_ctype := ''text/plain; charset=utf-8'', rq_body := ''internal error''\<rparr>, w2)
             else (Returns (), ctx2, w2))"

section \<open>What a request leaves behind\<close>

definition skipped :: "('hdr, 'tel) http_config \<Rightarrow> string \<Rightarrow> bool" where
  "skipped cfg path \<longleftrightarrow> (\<exists>p \<in> set (hc_skip cfg). prefix p path)"

definition server_options :: "('hdr, 'tel) request \<Rightarrow> spanOption list" where
  "server_options ctx = [SpanKindServer, SpanAttribute ''http.request.method'' (methodString (rq_method ctx))]"

definition server_span ::
  "('hdr, 'tel) http_api \<Rightarrow> ('hdr, 'tel) http_config \<Rightarrow> ('hdr, 'tel) request \<Rightarrow> obs
     \<Rightarrow> 'tel goContext \<times> nat \<times> obs" where
  "server_span ha cfg ctx w =
     (let reqCtx = Extract (ha_propagator ha) (rq_base ctx) (http_Get ha (rq_header ctx))
      in StartSpan (ha_sdk_span ha) (ha_tracerOf ha (FromCtx (ha_global ha) reqCtx)) reqCtx
           (hc_spanName cfg ctx) (server_options ctx) w)"

lemma Server_unfold:
  assumes "\<not> skipped (server_config opts) (rq_path ctx)"
    and "server_span ha (server_config opts) ctx w = (reqCtx, n, w1)"
  shows "Server ha nxt opts since ctx w =
    (case nxt (SetContext reqCtx ctx) w1 of
       (Panics v, ctx2, w2) \<Rightarrow> (Panics v, ctx2, w2)
     | (Returns u, ctx2, w2) \<Rightarrow>
         let status = rq_status ctx2;
             endErr = (if status \<ge> 500 then Some errHTTPServerError else None);
             w3 = EndSpan (Some n) endErr w2
         in if \<not> hc_logSuccess (server_config opts) \<and> status < 500 then (Returns u, ctx2, w3)
            else (Returns u, ctx2,
              ev_Msg (completion_event ha (server_config opts) ctx2 (rq_path ctx) since w3) ''request'' w3))"
  using assms unfolding Server_def Let_def server_span_def server_options_def
  by (simp add: skipped_def list_ex_iff)

lemma server_span_trace:
  "server_span ha cfg ctx w = (reqCtx, n, w1) \<Longrightarrow>
    n = ob_next w \<and> ob_trace w1 = ob_trace w @ [SpanStart (ob_next w) (hc_spanName cfg ctx) (server_options ctx)]"
  by (auto simp: server_span_def StartSpan_def Let_def)

lemma completion_level [simp]:
  "ev_level (completion_event ha cfg ctx path since w) = (if rq_status ctx \<ge> 500 then LvWarn else LvInfo)"
  by (simp add: completion_event_def Let_def ev_add_def WarnCtx_def InfoCtx_def new_event_def)

text \<open>The completion line of a server error is the more severe one.\<close>

lemma completion_severity:
  "rq_status ctx < 500 \<Longrightarrow> rq_status ctx' \<ge> 500 \<Longrightarrow>
    ev_level (completion_event ha cfg ctx path since w) < ev_level (completion_event ha cfg ctx' path' since' w')"
  by (simp add: less_logLevel_def)

text \<open>
  C32: The Server wrapper leaves a skipped path alone, and around any other request whose handler
  returns it opens one span before the handler and ends it once after, with the server error
  recorded exactly from status 500 on, and logs one completion line after that exactly when the
  status is at least 500 or successes are logged, at warning level from 500 on and info level
  below, and changes nothing else of the request the handler left.
\<close>

theorem server_one_span_one_line:
  assumes start: "server_span ha (server_config opts) ctx w = (reqCtx, n, w1)"
    and run: "nxt (SetContext reqCtx ctx) w1 = (Returns (), ctx2, w2)"
    and adds: "ob_trace w2 = ob_trace w1 @ inner"
  shows "if skipped (server_config opts) (rq_path ctx) then Server ha nxt opts since ctx w = nxt ctx w
    else \<exists>w' line. Server ha nxt opts since ctx w = (Returns (), ctx2, w') \<and>
      ob_trace w' = ob_trace w @ [SpanStart (ob_next w) (hc_spanName (server_config opts) ctx) (server_options ctx)] @ inner @
        end_acts (ob_next w) (if rq_status ctx2 \<ge> 500 then Some errHTTPServerError else None) @
        (if rq_status ctx2 \<ge> 500 \<or> hc_logSuccess (server_config opts) then [LogMsg line ''request''] else []) \<and>
      ev_level line = (if rq_status ctx2 \<ge> 500 then LvWarn else LvInfo)"
proof (cases "skipped (server_config opts) (rq_path ctx)")
  case True
  then show ?thesis by (simp add: Server_def skipped_def list_ex_iff Let_def)
next
  case False
  note trace = server_span_trace [OF start]
  let ?err = "if rq_status ctx2 \<ge> 500 then Some errHTTPServerError else None"
  let ?w3 = "EndSpan (Some n) ?err w2"
  let ?line = "completion_event ha (server_config opts) ctx2 (rq_path ctx) since ?w3"
  let ?logged = "rq_status ctx2 \<ge> 500 \<or> hc_logSuccess (server_config opts)"
  have "Server ha nxt opts since ctx w =
      (Returns (), ctx2, if ?logged then ev_Msg ?line ''request'' ?w3 else ?w3)"
    unfolding Server_unfold [OF False start] by (simp add: run Let_def not_less)
  moreover have "ob_trace (if ?logged then ev_Msg ?line ''request'' ?w3 else ?w3) =
      ob_trace w @ [SpanStart (ob_next w) (hc_spanName (server_config opts) ctx) (server_options ctx)] @ inner @
      end_acts (ob_next w) ?err @ (if ?logged then [LogMsg ?line ''request''] else [])"
    using trace adds by (simp add: ev_Msg_def)
  ultimately show ?thesis unfolding if_not_P [OF False] using completion_level by blast
qed

text \<open>
  C34: Recover around Server, the composition the documentation asks for, answers a panicking
  handler with status 500, the text "internal error" unless a body was already there, and one
  error line; but the span of the request is never ended and no completion line is logged, since
  Server ends its span only after a handler that returns.
\<close>

theorem recover_server_panic:
  assumes "\<not> skipped (server_config opts) (rq_path ctx)"
    and start: "server_span ha (server_config opts) ctx w = (reqCtx, n, w1)"
    and run: "nxt (SetContext reqCtx ctx) w1 = (Panics v, ctx2, w2)"
    and adds: "ob_trace w2 = ob_trace w1 @ inner"
  shows "\<exists>ctx3 w3 line. Recover stack (Server ha nxt opts since) ctx w = (Returns (), ctx3, w3) \<and>
    rq_status ctx3 = 500 \<and> rq_body ctx3 = (if rq_body ctx2 = [] then ''internal error'' else rq_body ctx2) \<and>
    ob_trace w3 = ob_trace w @ [SpanStart (ob_next w) (hc_spanName (server_config opts) ctx) (server_options ctx)] @ inner @
      [LogMsg line ''http handler panic''] \<and> ev_level line = LvError"
proof -
  have "Server ha nxt opts since ctx w = (Panics v, ctx2, w2)"
    unfolding Server_unfold [OF assms(1) start] by (simp add: run)
  then show ?thesis
    using server_span_trace [OF start] adds
    by (simp add: Recover_def Let_def ev_Msg_def ev_add_def log_Error_def new_event_def)
qed

section \<open>Instances\<close>

definition demo_http :: "(string \<Rightarrow> string, unit) http_api" where
  "demo_http = \<lparr> ha_peek = (\<lambda>h k. h k), ha_set = (\<lambda>k v h. h(k := v)), ha_keys = (\<lambda>h. []),
     ha_propagator = \<lparr> pr_fields = (\<lambda>ctx. []), pr_extract = (\<lambda>get ctx. ctx) \<rparr>,
     ha_sdk_span = demo_span, ha_tracerOf = (\<lambda>t. (NoopTracer, [])), ha_global = (), ha_round = Fin \<rparr>"

definition demo_request :: "(string \<Rightarrow> string, unit) request" where
  "demo_request = \<lparr> rq_method = ''GET'', rq_path = ''/api/x'', rq_header = (\<lambda>k. []), rq_base = Background,
     rq_ctx = None, rq_request_id = [], rq_status = 200, rq_body = [], rq_ctype = [] \<rparr>"

definition failing :: "(string \<Rightarrow> string, unit) handler" where
  "failing ctx w = (Returns (), ctx\<lparr>rq_status := 503\<rparr>, w)"

definition panicking :: "(string \<Rightarrow> string, unit) handler" where
  "panicking ctx w = (Panics ''boom'', ctx, w)"

lemma demo_path: "\<not> skipped (server_config [WithSkipPrefixes [''/health'']]) (rq_path demo_request)"
  by (simp add: skipped_def server_config_def WithSkipPrefixes_def demo_request_def)

theorem server_one_span_one_line_witness:
  "\<exists>w' line. Server demo_http failing [WithSkipPrefixes [''/health'']] 7 demo_request demo_obs =
      (Returns (), (SetContext (fst (server_span demo_http (server_config [WithSkipPrefixes [''/health'']]) demo_request demo_obs)) demo_request)\<lparr>rq_status := 503\<rparr>, w') \<and>
    ob_trace w' = [SpanStart 0 ''GET'' (server_options demo_request), SpanRecordError 0 errHTTPServerError,
      SpanSetError 0 errHTTPServerError, SpanEnd 0, LogMsg line ''request''] \<and> ev_level line = LvWarn"
proof -
  let ?opts = "[WithSkipPrefixes [''/health'']] :: (string \<Rightarrow> string, unit) server_option list"
  obtain c n w1 where start: "server_span demo_http (server_config ?opts) demo_request demo_obs = (c, n, w1)"
    by (cases "server_span demo_http (server_config ?opts) demo_request demo_obs")
  have facts: "ob_trace demo_obs = []" "ob_next demo_obs = 0" "hc_spanName (server_config ?opts) demo_request = ''GET''"
    by (simp_all add: demo_obs_def server_config_def WithSkipPrefixes_def demo_request_def methodString_def)
  have "ob_trace w1 = ob_trace w1 @ []" by simp
  from server_one_span_one_line [where nxt = failing and since = 7, OF start failing_def this]
  obtain w' line where "Server demo_http failing ?opts 7 demo_request demo_obs =
      (Returns (), (SetContext c demo_request)\<lparr>rq_status := 503\<rparr>, w')"
    "ev_level line = LvWarn" "ob_trace w' = [SpanStart 0 ''GET'' (server_options demo_request), SpanRecordError 0 errHTTPServerError,
      SpanSetError 0 errHTTPServerError, SpanEnd 0, LogMsg line ''request'']"
    unfolding if_not_P [OF demo_path] by (auto simp: facts)
  then show ?thesis using start by simp
qed

theorem recover_server_panic_witness:
  "\<exists>ctx3 w3 line. Recover ''s'' (Server demo_http panicking [WithSkipPrefixes [''/health'']] 7) demo_request demo_obs =
      (Returns (), ctx3, w3) \<and> rq_status ctx3 = 500 \<and>
    ob_trace w3 = [SpanStart 0 ''GET'' (server_options demo_request), LogMsg line ''http handler panic'']"
proof -
  let ?opts = "[WithSkipPrefixes [''/health'']] :: (string \<Rightarrow> string, unit) server_option list"
  obtain c n w1 where start: "server_span demo_http (server_config ?opts) demo_request demo_obs = (c, n, w1)"
    by (cases "server_span demo_http (server_config ?opts) demo_request demo_obs")
  have facts: "ob_trace demo_obs = []" "ob_next demo_obs = 0" "hc_spanName (server_config ?opts) demo_request = ''GET''"
    by (simp_all add: demo_obs_def server_config_def WithSkipPrefixes_def demo_request_def methodString_def)
  have "ob_trace w1 = ob_trace w1 @ []" by simp
  from recover_server_panic [where nxt = panicking and since = 7 and stack = "''s''",
      OF demo_path start panicking_def this]
  show ?thesis using facts by auto
qed

end
