(* ===== verification/Providers.thy ===== *)
theory Providers
  imports Tel_Config Trace_Sampler Bytesconv
begin

text \<open>
  The providers a Start builds (provider.go, trace_provider.go, otlp_dial.go): the dial settings and
  the exporter options of both exporters, TLS from raw PEM blocks, the export interval, the
  resource attributes, the histogram views, and the shutdown of a provider with its exporter. The
  crypto package and the exporters' constructors are parameters.
\<close>

section \<open>TLS\<close>

record ('pool, 'cert) tlsConfig =
  tc_MinTLS12 :: bool
  tc_ServerName :: string
  tc_RootCAs :: "'pool option"
  tc_Certificates :: "'cert list"

text \<open>AppendCertsFromPEM on an empty pool, if it accepts the block, and X509KeyPair.\<close>

record ('pool, 'cert) tls_api =
  ta_AppendCerts :: "string \<Rightarrow> 'pool option"
  ta_X509KeyPair :: "string \<Rightarrow> string \<Rightarrow> go_error + 'cert"

definition tlsConfigFromRaw ::
  "('pool, 'cert) tls_api \<Rightarrow> TelConfig \<Rightarrow> go_error + ('pool, 'cert) tlsConfig" where
  "tlsConfigFromRaw ta cfg =
     (let c0 = \<lparr> tc_MinTLS12 = True, tc_ServerName = [], tc_RootCAs = None, tc_Certificates = [] \<rparr>;
          c1 = (if \<not> IsEmpty (tl_ServerName cfg) then c0\<lparr>tc_ServerName := tl_ServerName cfg\<rparr> else c0);
          raw = tl_Raw cfg;
          with_ca = (if length (raw_CA raw) > 0
                     then (case ta_AppendCerts ta (raw_CA raw) of
                             None \<Rightarrow> Inl ''append CA cert from PEM''
                           | Some pool \<Rightarrow> Inr (c1\<lparr>tc_RootCAs := Some pool\<rparr>))
                     else Inr c1)
      in (case with_ca of
            Inl err \<Rightarrow> Inl err
          | Inr c2 \<Rightarrow>
              if length (raw_Cert raw) > 0 \<and> length (raw_Key raw) > 0
              then (case ta_X509KeyPair ta (raw_Cert raw) (raw_Key raw) of
                      Inl err \<Rightarrow> Inl (''load client cert: '' @ err)
                    | Inr cert \<Rightarrow> Inr (c2\<lparr>tc_Certificates := [cert]\<rparr>))
              else Inr c2))"

section \<open>Dial settings and exporter options\<close>

record ('pool, 'cert) otlpDial =
  od_tlsConfig :: "('pool, 'cert) tlsConfig option"
  od_endpoint :: string
  od_compress :: bool
  od_insecure :: bool

definition otlpDialSettings ::
  "('pool, 'cert) tls_api \<Rightarrow> TelConfig \<Rightarrow> go_error + ('pool, 'cert) otlpDial" where
  "otlpDialSettings ta cfg =
     (let raw = tl_Raw cfg;
          useTLS = (\<not> IsEmpty (tl_ServerName cfg) \<or> length (raw_CA raw) > 0 \<or> length (raw_Cert raw) > 0 \<or>
                    length (raw_Key raw) > 0);
          dial = \<lparr> od_tlsConfig = None, od_endpoint = tl_Address cfg, od_compress = tl_WithCompression cfg,
                   od_insecure = tl_WithInsecure cfg \<and> \<not> useTLS \<rparr>
      in if useTLS
         then (case tlsConfigFromRaw ta cfg of
                 Inl err \<Rightarrow> Inl err | Inr tlsCfg \<Rightarrow> Inr (dial\<lparr>od_tlsConfig := Some tlsCfg\<rparr>))
         else Inr dial)"

datatype ('pool, 'cert) exporterOption =
    WithEndpoint string
  | WithCompressor string
  | WithInsecure
  | WithTLSCredentials "('pool, 'cert) tlsConfig"

definition otlpExporterOptions ::
  "('pool, 'cert) tls_api \<Rightarrow> TelConfig \<Rightarrow> go_error + ('pool, 'cert) exporterOption list" where
  "otlpExporterOptions ta cfg =
     (case otlpDialSettings ta cfg of
        Inl err \<Rightarrow> Inl err
      | Inr dial \<Rightarrow>
          let opts = [WithEndpoint (od_endpoint dial)];
              opts1 = (if od_compress dial then opts @ [WithCompressor ''gzip''] else opts);
              opts2 = (if od_insecure dial then opts1 @ [WithInsecure] else opts1)
          in (case od_tlsConfig dial of
                None \<Rightarrow> Inr opts2 | Some c \<Rightarrow> Inr (opts2 @ [WithTLSCredentials c])))"

definition otlpTraceExporterOptions ::
  "('pool, 'cert) tls_api \<Rightarrow> TelConfig \<Rightarrow> go_error + ('pool, 'cert) exporterOption list" where
  "otlpTraceExporterOptions ta cfg =
     (case otlpDialSettings ta cfg of
        Inl err \<Rightarrow> Inl err
      | Inr dial \<Rightarrow>
          let opts = [WithEndpoint (od_endpoint dial)];
              opts1 = (if od_compress dial then opts @ [WithCompressor ''gzip''] else opts);
              opts2 = (if od_insecure dial then opts1 @ [WithInsecure] else opts1)
          in (case od_tlsConfig dial of
                None \<Rightarrow> Inr opts2 | Some c \<Rightarrow> Inr (opts2 @ [WithTLSCredentials c])))"

section \<open>Interval, resource and views\<close>

definition export_interval :: "TelConfig \<Rightarrow> int" where
  "export_interval cfg =
     (let interval = wrap64 (tl_MetricsPeriodicIntervalSec cfg * second);
          interval1 = (if tl_ExportIntervalSec cfg > 0 then wrap64 (tl_ExportIntervalSec cfg * second)
                       else interval)
      in if interval1 \<le> 0 then defaultMetricsPeriodicInterval else interval1)"

definition or_default :: "string \<Rightarrow> string \<Rightarrow> string" where
  "or_default v deflt = (if IsEmpty v then deflt else v)"

definition newResource :: "env_api \<Rightarrow> environment \<Rightarrow> Config \<Rightarrow> (string \<times> string) list" where
  "newResource ea e cfg =
     (let attrs = [(''service.name'', or_default (cf_Service cfg) defaultServiceUnknown),
                   (''service.version'', or_default (cf_Version cfg) defaultVersion),
                   (''service.namespace'', or_default (cf_Namespace cfg) defaultNamespace),
                   (''deployment.environment'', or_default (cf_Environment cfg) defaultEnvironment)];
          pod = resolvePod ea e cfg
      in if pod \<noteq> [] then attrs @ [(''service.instance.id'', pod), (''host.name'', pod)] else attrs)"

definition view_step :: "HistogramOpt \<Rightarrow> HistogramOpt list \<Rightarrow> HistogramOpt list" where
  "view_step bucket views =
     (if IsEmpty (ho_Name bucket) \<or> length (ho_Boundaries bucket) = 0 then views else views @ [bucket])"

text \<open>A view: the instrument's name and its explicit bucket boundaries.\<close>

definition viewsFromBucketView :: "HistogramOpt list \<Rightarrow> HistogramOpt list" where
  "viewsFromBucketView buckets = (if length buckets = 0 then [] else fold view_step buckets [])"

section \<open>The providers\<close>

record meterSettings =
  ms_interval :: int
  ms_resource :: "(string \<times> string) list"
  ms_views :: "HistogramOpt list"

definition newMeterProvider ::
  "('pool, 'cert) tls_api \<Rightarrow> (('pool, 'cert) exporterOption list \<Rightarrow> go_error option) \<Rightarrow> env_api \<Rightarrow> environment
     \<Rightarrow> Config \<Rightarrow> go_error + meterSettings" where
  "newMeterProvider ta exporter ea e cfg =
     (case otlpExporterOptions ta (cf_TelConfig cfg) of
        Inl err \<Rightarrow> Inl err
      | Inr opts \<Rightarrow>
          (case exporter opts of
             Some err \<Rightarrow> Inl (''create otlp metric exporter: '' @ err)
           | None \<Rightarrow> Inr \<lparr> ms_interval = export_interval (cf_TelConfig cfg), ms_resource = newResource ea e cfg,
                          ms_views = viewsFromBucketView (tl_BucketView (cf_TelConfig cfg)) \<rparr>))"

record tracerSettings =
  ts_resource :: "(string \<times> string) list"
  ts_sampler :: traceSampler

text \<open>\<^const>\<open>None\<close> is the noop provider of disabled traces.\<close>

definition tracer_settings ::
  "('pool, 'cert) tls_api \<Rightarrow> (('pool, 'cert) exporterOption list \<Rightarrow> go_error option) \<Rightarrow> parser_api \<Rightarrow> env_api
     \<Rightarrow> environment \<Rightarrow> Config \<Rightarrow> go_error + tracerSettings option" where
  "tracer_settings ta exporter pa ea e cfg =
     (if \<not> tr_Enable (tl_Traces (cf_TelConfig cfg)) then Inr None
      else (case otlpTraceExporterOptions ta (cf_TelConfig cfg) of
              Inl err \<Rightarrow> Inl err
            | Inr opts \<Rightarrow>
                (case exporter opts of
                   Some err \<Rightarrow> Inl (''create otlp trace exporter: '' @ err)
                 | None \<Rightarrow> Inr (Some \<lparr> ts_resource = newResource ea e cfg,
                     ts_sampler = parseTraceSampler pa (tr_Sampler (tl_Traces (cf_TelConfig cfg))) \<rparr>))))"

text \<open>Both are shut down; the provider's error comes first.\<close>

definition shutdownProviderAndExporter ::
  "('w \<Rightarrow> go_error option \<times> 'w) \<Rightarrow> ('w \<Rightarrow> go_error option \<times> 'w) \<Rightarrow> 'w \<Rightarrow> go_error option \<times> 'w" where
  "shutdownProviderAndExporter provider exporter w =
     (case provider w of
        (err, w1) \<Rightarrow>
          let shutdownErr = err
          in (case exporter w1 of
                (err, w2) \<Rightarrow> (if err \<noteq> None \<and> shutdownErr = None then err else shutdownErr, w2)))"

section \<open>What they guarantee\<close>

definition tls_material :: "TelConfig \<Rightarrow> bool" where
  "tls_material cfg \<longleftrightarrow> tl_ServerName cfg \<noteq> [] \<or> raw_CA (tl_Raw cfg) \<noteq> [] \<or> raw_Cert (tl_Raw cfg) \<noteq> [] \<or>
     raw_Key (tl_Raw cfg) \<noteq> []"

text \<open>The TLS configuration of a set of material that the crypto package accepts.\<close>

definition tls_of :: "('pool, 'cert) tls_api \<Rightarrow> TelConfig \<Rightarrow> ('pool, 'cert) tlsConfig" where
  "tls_of ta cfg =
     \<lparr> tc_MinTLS12 = True, tc_ServerName = tl_ServerName cfg,
       tc_RootCAs = (if raw_CA (tl_Raw cfg) = [] then None else ta_AppendCerts ta (raw_CA (tl_Raw cfg))),
       tc_Certificates = (if raw_Cert (tl_Raw cfg) = [] \<or> raw_Key (tl_Raw cfg) = [] then []
         else (case ta_X509KeyPair ta (raw_Cert (tl_Raw cfg)) (raw_Key (tl_Raw cfg)) of
                 Inl e \<Rightarrow> [] | Inr c \<Rightarrow> [c])) \<rparr>"

definition tls_error :: "('pool, 'cert) tls_api \<Rightarrow> TelConfig \<Rightarrow> go_error option" where
  "tls_error ta cfg =
     (if raw_CA (tl_Raw cfg) \<noteq> [] \<and> ta_AppendCerts ta (raw_CA (tl_Raw cfg)) = None
      then Some ''append CA cert from PEM''
      else if raw_Cert (tl_Raw cfg) \<noteq> [] \<and> raw_Key (tl_Raw cfg) \<noteq> []
      then (case ta_X509KeyPair ta (raw_Cert (tl_Raw cfg)) (raw_Key (tl_Raw cfg)) of
              Inl e \<Rightarrow> Some (''load client cert: '' @ e) | Inr c \<Rightarrow> None)
      else None)"

lemma tlsConfigFromRaw_eq:
  "tlsConfigFromRaw ta cfg = (case tls_error ta cfg of Some e \<Rightarrow> Inl e | None \<Rightarrow> Inr (tls_of ta cfg))"
  by (auto simp: tlsConfigFromRaw_def tls_error_def tls_of_def Let_def IsEmpty_def split: option.split sum.split)

text \<open>
  C31: The two exporters dial alike and never trade TLS for an insecure connection: both get the
  same options or the same error; with a server name or any PEM block the connection uses TLS
  from version 1.2 on with that name, the given roots and the client certificate when certificate
  and key are both there, and the insecure option is off whatever the configuration says; without
  any of them there is no TLS and the insecure option is what the configuration says; the call
  fails exactly when the roots or the key pair do not parse.
\<close>

theorem exporters_dial_securely:
  "otlpTraceExporterOptions ta cfg = otlpExporterOptions ta cfg \<and>
   otlpExporterOptions ta cfg =
     (let base = WithEndpoint (tl_Address cfg) # (if tl_WithCompression cfg then [WithCompressor ''gzip''] else [])
      in if tls_material cfg
         then (case tls_error ta cfg of
                 Some e \<Rightarrow> Inl e | None \<Rightarrow> Inr (base @ [WithTLSCredentials (tls_of ta cfg)]))
         else Inr (base @ (if tl_WithInsecure cfg then [WithInsecure] else [])))"
proof
  show "otlpTraceExporterOptions ta cfg = otlpExporterOptions ta cfg"
    by (simp add: otlpTraceExporterOptions_def otlpExporterOptions_def)
  have dial: "otlpDialSettings ta cfg =
      (let d = \<lparr> od_tlsConfig = None, od_endpoint = tl_Address cfg, od_compress = tl_WithCompression cfg,
                 od_insecure = tl_WithInsecure cfg \<and> \<not> tls_material cfg \<rparr>
       in if tls_material cfg
          then (case tls_error ta cfg of Some e \<Rightarrow> Inl e | None \<Rightarrow> Inr (d\<lparr>od_tlsConfig := Some (tls_of ta cfg)\<rparr>))
          else Inr d)"
    by (auto simp: otlpDialSettings_def tlsConfigFromRaw_eq tls_material_def IsEmpty_def Let_def
        split: option.split)
  show "otlpExporterOptions ta cfg =
     (let base = WithEndpoint (tl_Address cfg) # (if tl_WithCompression cfg then [WithCompressor ''gzip''] else [])
      in if tls_material cfg
         then (case tls_error ta cfg of
                 Some e \<Rightarrow> Inl e | None \<Rightarrow> Inr (base @ [WithTLSCredentials (tls_of ta cfg)]))
         else Inr (base @ (if tl_WithInsecure cfg then [WithInsecure] else [])))"
    unfolding otlpExporterOptions_def dial by (simp add: Let_def split: option.split)
qed

text \<open>
  The metric reader always gets a positive interval that fits a Duration: the export interval
  when that is positive, else the periodic one, in seconds, whenever these are at most
  9223372036 seconds; anything that is not positive, or wraps around to such a value, is replaced
  by the default.
\<close>

theorem export_interval_positive:
  "0 < export_interval cfg \<and> in_i64 (export_interval cfg) \<and>
   (let s = (if tl_ExportIntervalSec cfg > 0 then tl_ExportIntervalSec cfg
             else tl_MetricsPeriodicIntervalSec cfg)
    in (0 < s \<and> s \<le> 9223372036 \<longrightarrow> export_interval cfg = s * 1000000000) \<and>
       (- 9223372036 \<le> s \<and> s \<le> 0 \<longrightarrow> export_interval cfg = defaultMetricsPeriodicInterval))"
proof -
  let ?s = "if tl_ExportIntervalSec cfg > 0 then tl_ExportIntervalSec cfg else tl_MetricsPeriodicIntervalSec cfg"
  have eq: "export_interval cfg = (if wrap64 (?s * second) \<le> 0 then defaultMetricsPeriodicInterval else wrap64 (?s * second))"
    by (simp add: export_interval_def Let_def)
  have deflt: "0 < defaultMetricsPeriodicInterval" "in_i64 defaultMetricsPeriodicInterval"
    by (simp_all add: default_defs second_def in_i64_def)
  have fits: "wrap64 (s * second) = s * 1000000000" if "- 9223372036 \<le> s" "s \<le> 9223372036" for s
    using that by (simp add: second_def in_i64_def)
  show ?thesis
    unfolding eq Let_def using deflt fits [of ?s] by (auto simp del: wrap64_id)
qed

theorem export_interval_positive_witness:
  "export_interval ((cf_TelConfig zeroConfig)\<lparr>tl_MetricsPeriodicIntervalSec := 15\<rparr>) = 15000000000"
  using export_interval_positive [of "(cf_TelConfig zeroConfig)\<lparr>tl_MetricsPeriodicIntervalSec := 15\<rparr>"]
  by (simp add: zeroConfig_def Let_def)

end
