(* ===== verification/Monitor.thy ===== *)
theory Monitor
  imports Lifecycle_Races Spans Cardinality_Report
begin

text \<open>
  The monitor (monitor.go) and what it shows: the server's start, bind and shutdown, the recovering
  wrapper of its handlers, /healthz and /stats, and the cardinality statistics of the telemetry
  (tel.go). A handler is the calls it makes on the response writer, and returns or panics; the
  listener, the server's Shutdown and the JSON encoder are parameters.
\<close>

section \<open>The cardinality statistics\<close>

definition the_cache :: "('opt, 'inst, 'set) proc \<Rightarrow> ('opt, 'inst, 'set) registry \<Rightarrow> 'set attrCache" where
  "the_cache p r = p_caches p (rg_cache r)"

text \<open>The detector of a telemetry is the one its cache at that address reports to.\<close>

definition CardinalityStats :: "('opt, 'inst, 'set) proc \<Rightarrow> CardinalitySnapshot" where
  "CardinalityStats p =
     (let t = p_tel p;
          maxInst = maxInstrumentsFromCfg (t_cfg t);
          instruments = (case t_registry t of None \<Rightarrow> 0 | Some reg \<Rightarrow> instrumentCount reg)
      in (case t_cardinality t of
            Some a \<Rightarrow> Snapshot (ac_detector (p_caches p a)) (Some (p_caches p a)) instruments maxInst
          | None \<Rightarrow>
              let snap = \<lparr> MissEvents = 0, OverflowEvents = 0, DeniedEvents = 0, snap_Subjects = [],
                     CacheEntries = 0, snap_MaxCardinality = 0, UtilizationPct = 0,
                     snap_WarnUtilizationPct = 0, snap_Instruments = instruments,
                     snap_MaxInstruments = maxInst, snap_DenyUnknown = False \<rparr>
              in (case t_registry t of
                    None \<Rightarrow> snap
                  | Some reg \<Rightarrow>
                      let c = the_cache p reg;
                          snap1 = snap\<lparr>CacheEntries := cache_Len c, snap_MaxCardinality := MaxEntries (Some c),
                            snap_Subjects := Subjects (Some c), snap_DenyUnknown := DenyUnknown (Some c)\<rparr>
                      in if snap_MaxCardinality snap1 > 0
                         then snap1\<lparr>UtilizationPct :=
                           utilization (CacheEntries snap1) (snap_MaxCardinality snap1)\<rparr>
                         else snap1)))"

section \<open>The server\<close>

record monitorServer =
  mo_server :: bool
  mo_tel :: bool
  mo_addr :: string
  mo_once :: bool

definition newMonitorServer :: "string \<Rightarrow> monitorServer" where
  "newMonitorServer addr = \<lparr> mo_server = False, mo_tel = False, mo_addr = addr, mo_once = False \<rparr>"

text \<open>bind stores the one telemetry there is; a nil monitor is left alone.\<close>

definition monitor_bind :: "monitorServer option \<Rightarrow> monitorServer option" where
  "monitor_bind m = map_option (\<lambda>m. m\<lparr>mo_tel := True\<rparr>) m"

definition monitor_start ::
  "(string \<Rightarrow> go_error option) \<Rightarrow> monitorServer \<Rightarrow> go_error option \<times> monitorServer" where
  "monitor_start listen m =
     (case listen (mo_addr m) of
        Some err \<Rightarrow> (Some err, m)
      | None \<Rightarrow> (None, m\<lparr>mo_server := True\<rparr>))"

text \<open>The server is shut down at most once; \<open>serverShutdown\<close> is what it answers, and counts calls.\<close>

definition monitor_shutdown ::
  "('w \<Rightarrow> go_error option \<times> 'w) \<Rightarrow> monitorServer \<Rightarrow> 'w \<Rightarrow> go_error option \<times> monitorServer \<times> 'w" where
  "monitor_shutdown serverShutdown m w =
     (if \<not> mo_server m then (None, m, w)
      else if mo_once m then (None, m, w)
      else (case serverShutdown w of (err, w1) \<Rightarrow> (err, m\<lparr>mo_once := True\<rparr>, w1)))"

section \<open>Handlers\<close>

datatype respCall =
  HeaderSet string string | WriteHeader int | WriteBody string | HttpError string int

type_synonym httpHandler = "string \<Rightarrow> unit outcomeOf \<times> respCall list"

text \<open>The wrapped handler on a path, with the log it may write; the stack is an argument.\<close>

definition recoverMonitor :: "string \<Rightarrow> httpHandler \<Rightarrow> string \<Rightarrow> obs \<Rightarrow> unit outcomeOf \<times> respCall list \<times> obs" where
  "recoverMonitor stack nxt path w =
     (case nxt path of
        (Returns u, calls) \<Rightarrow> (Returns u, calls, w)
      | (Panics v, calls) \<Rightarrow>
          let event = ev_add ''path'' (LStr path)
                (ev_add ''stack'' (LStr stack)
                  (ev_add ''panic'' (LStr v)
                    (ev_add ''component'' (LStr ''monitor'') (log_Error w))))
          in (Returns (), calls @ [HttpError ''internal error'' 500], ev_Msg event ''monitor handler panic'' w))"

definition healthOK :: string where
  "healthOK = ''{'' @ [CHR 0x22] @ ''status'' @ [CHR 0x22] @ '':'' @ [CHR 0x22] @ ''ok'' @ [CHR 0x22] @ ''}''"

definition healthHandler :: httpHandler where
  "healthHandler path =
     (Returns (), [HeaderSet ''Content-Type'' ''application/json'', WriteHeader 200, WriteBody healthOK])"

record memStats =
  mem_Alloc :: u64
  mem_TotalAlloc :: u64
  mem_Sys :: u64

record statsPayload =
  py_Cardinality :: "CardinalitySnapshot option"
  py_AllocBytes :: u64
  py_TotalAllocBytes :: u64
  py_SysBytes :: u64
  py_Goroutines :: int

definition stats_payload ::
  "memStats \<Rightarrow> int \<Rightarrow> ('opt, 'inst, 'set) proc \<Rightarrow> monitorServer \<Rightarrow> statsPayload" where
  "stats_payload ms goroutines p m =
     \<lparr> py_Cardinality = (if mo_tel m then Some (CardinalityStats p) else None),
       py_AllocBytes = mem_Alloc ms, py_TotalAllocBytes = mem_TotalAlloc ms, py_SysBytes = mem_Sys ms,
       py_Goroutines = goroutines \<rparr>"

definition statsHandler ::
  "(statsPayload \<Rightarrow> go_error + string) \<Rightarrow> memStats \<Rightarrow> int \<Rightarrow> ('opt, 'inst, 'set) proc \<Rightarrow> monitorServer
     \<Rightarrow> httpHandler" where
  "statsHandler encode ms goroutines p m path =
     (case encode (stats_payload ms goroutines p m) of
        Inl err \<Rightarrow> (Returns (), [HttpError err 500])
      | Inr body \<Rightarrow> (Returns (), [HeaderSet ''Content-Type'' ''application/json'', WriteHeader 200, WriteBody body]))"

text \<open>The package's statsHandler serves a monitor of its own, bound to no telemetry.\<close>

definition statsHandler_unbound ::
  "(statsPayload \<Rightarrow> go_error + string) \<Rightarrow> memStats \<Rightarrow> int \<Rightarrow> ('opt, 'inst, 'set) proc \<Rightarrow> httpHandler" where
  "statsHandler_unbound encode ms goroutines p =
     statsHandler encode ms goroutines p \<lparr> mo_server = False, mo_tel = False, mo_addr = [], mo_once = False \<rparr>"

lemma recoverMonitor_returns:
  "\<exists>calls w'. recoverMonitor stack nxt path w = (Returns (), calls, w')"
  by (cases "nxt path"; cases "fst (nxt path)") (auto simp: recoverMonitor_def Let_def)

text \<open>A second shutdown does not reach the server.\<close>

lemma monitor_shutdown_once:
  "monitor_shutdown sd m w = (err, m', w') \<Longrightarrow> mo_server m \<Longrightarrow> monitor_shutdown sd m' w' = (None, m', w')"
  by (auto simp: monitor_shutdown_def split: if_splits prod.splits)

section \<open>The detector watches the installed cache\<close>

definition watched :: "('opt, 'inst, 'set) proc \<Rightarrow> addr \<Rightarrow> bool" where
  "watched p a \<longleftrightarrow> (\<exists>d. ac_detector (p_caches p a) = Some d \<and>
     cs_MaxCardinality (cd_cfg d) = ac_maxEntries (p_caches p a) \<and>
     (cs_DenyUnknown (cd_cfg d) \<longrightarrow> ac_denyUnknown (p_caches p a)))"

fun pc_watch :: "('opt, 'inst, 'set) proc \<Rightarrow> tel_pc \<Rightarrow> bool" where
  "pc_watch p (HaveCache sp a det) = (det = None \<or> det = Some a \<and> watched p a)"
| "pc_watch p (HaveMonitor sp a det m) = (det = None \<or> det = Some a \<and> watched p a)"
| "pc_watch p pc = True"

definition card_watch :: "('opt, 'inst, 'set) proc \<Rightarrow> bool" where
  "card_watch p \<longleftrightarrow> (\<forall>a. t_cardinality (p_tel p) = Some a \<longrightarrow> watched p a \<and>
     (\<exists>r. t_registry (p_tel p) = Some r \<and> rg_cache r = a))"

definition stats_ok :: "('opt, 'inst, 'set) proc \<Rightarrow> bool" where
  "stats_ok p \<longleftrightarrow> (\<forall>t. pc_watch p (p_pcs p t)) \<and> card_watch p"

lemma watched_cong: "p_caches q a = p_caches p a \<Longrightarrow> watched q a = watched p a"
  by (simp add: watched_def)

lemma build_cache_watched:
  assumes "cs_Enable (detector_cfg p)" "p_caches q a = build_cache p"
  shows "watched q a"
proof -
  have "build_cache p = (case Allow (Some ((newAttrCache (if cs_MaxCardinality (detector_cfg p) \<le> 0
        then defaultMaxCardinality else cs_MaxCardinality (detector_cfg p)))
        \<lparr>ac_denyUnknown := cs_DenyUnknown (detector_cfg p)\<rparr>)) (t_allowedLabels (p_tel p)) of
      None \<Rightarrow> undefined | Some c \<Rightarrow> c\<lparr>ac_detector := Some (newCardinalityDetector (detector_cfg p))\<rparr>)"
    using assms(1)
    by (simp add: build_cache_def Let_def SetDenyUnknown_def SetDetector_def Allow_def)
  then show ?thesis
    using assms(2) by (simp add: watched_def Allow_def newAttrCache_def newCardinalityDetector_def Let_def)
qed

lemma Allow_keeps_watched:
  "watched p a \<Longrightarrow> p_caches q a = the (Allow (Some (p_caches p a)) labels) \<Longrightarrow> watched q a"
  by (auto simp: watched_def Allow_def)

lemma pc_watch_mono:
  assumes "pc_watch p pc" "\<And>a. builder_det pc = Some a \<Longrightarrow> watched p a \<Longrightarrow> watched q a"
  shows "pc_watch q pc"
  using assms by (cases pc) auto

text \<open>A step keeps every cache that someone refers to, or only lets it allow more.\<close>

lemma stats_move:
  fixes p q :: "('opt, 'inst, 'set) proc"
  assumes ok: "stats_ok p" and det: "det_ok p" and pcs: "p_pcs q = p_pcs p"
    and caches: "\<And>a. a < p_next p \<Longrightarrow> watched p a \<Longrightarrow> watched q a"
    and card: "t_cardinality (p_tel q) = t_cardinality (p_tel p) \<and> t_registry (p_tel q) = t_registry (p_tel p)
      \<or> card_watch q"
    and pc: "pc_watch q pc"
  shows "stats_ok (goto_tel t pc q)"
proof -
  have upd: "watched (goto_tel t pc q) a = watched q a" for a by (rule watched_cong) (simp add: goto_tel_def)
  have watch: "pc_watch (goto_tel t pc q) pc'" if "pc_watch q pc'" for pc'
    by (rule pc_watch_mono [OF that]) (simp add: upd)
  have others: "pc_watch (goto_tel t pc q) (p_pcs p t')" for t'
  proof (rule watch, rule pc_watch_mono [of p])
    show "pc_watch p (p_pcs p t')" using ok by (simp add: stats_ok_def)
    show "watched q a" if "builder_det (p_pcs p t') = Some a" "watched p a" for a
      using that det_below(1) [OF det] caches by blast
  qed
  have "card_watch q"
    using card
  proof
    assume same: "t_cardinality (p_tel q) = t_cardinality (p_tel p) \<and> t_registry (p_tel q) = t_registry (p_tel p)"
    have "a < p_next p" if "t_cardinality (p_tel p) = Some a" for a
      using det_below(3) [OF det, of None a] that by (simp add: owner_det_def)
    then show ?thesis using ok same caches unfolding stats_ok_def card_watch_def by auto
  qed
  then have "card_watch (goto_tel t pc q)" by (simp add: card_watch_def upd)
  then show ?thesis
    using others watch [OF pc] by (simp add: stats_ok_def goto_tel_def pcs)
qed

lemma caches_frame [simp]:
  "p_caches (acquire r p) = p_caches p" "p_caches (release r p) = p_caches p"
  by (simp_all add: acquire_def release_def)

lemma init_caches:
  assumes "initProviders out p = (res, p1)"
  shows "p_caches p1 = p_caches p"
  using assms
  by (auto simp: initProviders_def Let_def new_meter_effect newTracerProvider_def acquire_def
      configureExportCompression_def release_def split: if_splits option.splits)

lemma stats_step:
  assumes ok: "stats_ok p" and det: "det_ok p" and step: "tel_step meterOf out t p = Some p'"
  shows "stats_ok p'"
proof -
  have here: "pc_watch p (p_pcs p t)" using ok by (simp add: stats_ok_def)
  have still: "stats_ok (goto_tel t pc q)"
    if "p_pcs q = p_pcs p" "p_caches q = p_caches p" "t_cardinality (p_tel q) = t_cardinality (p_tel p)"
      "t_registry (p_tel q) = t_registry (p_tel p)" "pc_watch p pc" for q :: "('a, 'b, 'c) proc" and pc
  proof -
    have same: "watched q a = watched p a" for a using that(2) by (simp add: watched_def)
    have "pc_watch q pc" by (rule pc_watch_mono [OF that(5)]) (simp add: same)
    then show ?thesis
      by (intro stats_move [OF ok det that(1)]) (simp_all add: same that(3,4))
  qed
  show ?thesis
  proof (cases "p_pcs p t")
    case Starting
    obtain res p1 where init: "initProviders out (p\<lparr>p_propagator := True\<rparr>) = (res, p1)"
      by (cases "initProviders out (p\<lparr>p_propagator := True\<rparr>)")
    have "stats_ok (goto_tel t pc p1)" if "pc_watch p pc" for pc
      using initProviders_frame [OF init] init_caches [OF init] that by (intro still) simp_all
    then show ?thesis
      using step by (auto simp: tel_step_defs Let_def Starting init split: sum.splits)
  next
    case (HaveProviders sp)
    let ?a = "p_next p" and ?det = "if cs_Enable (detector_cfg p) then Some (p_next p) else None"
    let ?q = "p\<lparr>p_next := ?a + 1, p_caches := (p_caches p)(?a := build_cache p)\<rparr>"
    have "stats_ok (goto_tel t (HaveCache sp ?a ?det) ?q)"
    proof (rule stats_move [OF ok det])
      show "watched ?q a" if "a < ?a" "watched p a" for a
        using that watched_cong [of ?q a p] by simp
      show "pc_watch ?q (HaveCache sp ?a ?det)"
        using build_cache_watched [of p ?q ?a] by simp
    qed simp_all
    then show ?thesis using step by (simp add: tel_step_defs Let_def HaveProviders)
  next
    case (HaveMonitor sp a dt m)
    have "stats_ok (goto_tel t (Binding m dt) (install meterOf sp a dt m p))"
    proof (rule stats_move [OF ok det])
      have same: "watched (install meterOf sp a dt m p) b = watched p b" for b
        by (rule watched_cong) (simp add: install_def Let_def)
      then show "watched (install meterOf sp a dt m p) b" if "watched p b" for b using that by simp
      have "card_watch (install meterOf sp a dt m p)"
        using here same
        by (auto simp: HaveMonitor card_watch_def install_def Let_def newRegistryWithCache_def)
      then show "t_cardinality (p_tel (install meterOf sp a dt m p)) = t_cardinality (p_tel p) \<and>
          t_registry (p_tel (install meterOf sp a dt m p)) = t_registry (p_tel p) \<or>
        card_watch (install meterOf sp a dt m p)" ..
    qed (simp_all add: install_def Let_def)
    moreover have "stats_ok (goto_tel t (RollingBack sp m None) p)" by (rule still) simp_all
    ultimately show ?thesis
      using step by (auto simp: tel_step_defs Let_def HaveMonitor split: if_splits)
  next
    case WantShutdown
    have "stats_ok (goto_tel t (Stopping dt sfn tfn m i) (uninstall meterOf p))" for dt sfn tfn m i
    proof (rule stats_move [OF ok det])
      show "watched (uninstall meterOf p) b" if "b < p_next p" "watched p b" for b
        using that watched_cong [of "uninstall meterOf p" b p] by (simp add: uninstall_def Let_def)
    qed (simp_all add: uninstall_def Let_def card_watch_def)
    moreover have "stats_ok (goto_tel t (ShutdownDone []) p)" by (rule still) simp_all
    ultimately show ?thesis using step by (auto simp: tel_step_defs Let_def WantShutdown split: if_splits)
  next
    case (Allowing labels c)
    have "stats_ok (goto_tel t AllowDone (p\<lparr>p_caches := (p_caches p)(a := the (Allow (Some (p_caches p a)) labels))\<rparr>))" for a
    proof (rule stats_move [OF ok det])
      let ?q = "p\<lparr>p_caches := (p_caches p)(a := the (Allow (Some (p_caches p a)) labels))\<rparr>"
      show "watched ?q b" if "watched p b" for b
        using that Allow_keeps_watched [of p a ?q labels] watched_cong [of ?q b p] by (cases "b = a") simp_all
    qed simp_all
    moreover have "stats_ok (goto_tel t AllowDone p)" by (rule still) simp_all
    ultimately show ?thesis using step by (auto simp: tel_step_defs Let_def Allowing split: option.splits)
  next
    case (RollingBack sp m e)
    have "p_pcs (rollbackStart m sp p) = p_pcs p" "p_caches (rollbackStart m sp p) = p_caches p"
      "p_tel (rollbackStart m sp p) = p_tel p"
      by (simp_all add: rollbackStart_def Let_def)
    then have "stats_ok (goto_tel t pc (rollbackStart m sp p))" if "pc_watch p pc" for pc
      using that by (intro still) simp_all
    then show ?thesis using step by (auto simp: tel_step_defs Let_def RollingBack split: option.splits)
  qed (use step here in \<open>auto simp: tel_step_defs Let_def split: if_splits option.splits intro!: still\<close>)
qed

lemma stats_run:
  "tel_run meterOf cfg p \<Longrightarrow> stats_ok p"
proof (induction rule: tel_run.induct)
  case init
  show ?case
    by (simp add: stats_ok_def card_watch_def new_proc_def newTelemetry_def Let_def refreshTracerLocked_def)
next
  case (call p t pc)
  have "pc_watch p pc" using call(3) by (elim call_pcE) simp_all
  then show ?case
    using stats_move [OF call.IH det_run [OF call(1)] refl, of pc t] by simp
next
  case (step p out t p')
  then show ?case using stats_step det_run by blast
qed

text \<open>
  C36: The statistics are those of the installed registry: in every state a run of Start, Shutdown
  and AllowSubjects reaches, with the detector enabled or not, the snapshot that /stats shows has
  the registry's instrument count and its cache's entries, bound, subjects, deny mode and
  utilisation, so the detector always watches the cache the instruments use.
\<close>

theorem stats_report_registry:
  assumes run: "tel_run meterOf cfg p"
  shows "\<exists>r. t_registry (p_tel p) = Some r \<and>
    (let c = the_cache p r; s = CardinalityStats p
     in snap_Instruments s = instrumentCount r \<and> CacheEntries s = cache_Len c \<and>
        snap_MaxCardinality s = ac_maxEntries c \<and> snap_Subjects s = Subjects (Some c) \<and>
        snap_DenyUnknown s = ac_denyUnknown c \<and>
        UtilizationPct s = (if ac_maxEntries c > 0 then utilization (cache_Len c) (ac_maxEntries c) else 0))"
proof -
  obtain r where r: "t_registry (p_tel p) = Some r"
    using life_run [OF run] by (auto simp: life_ok_def registry_current_def)
  have watch: "card_watch p" using stats_run [OF run] by (simp add: stats_ok_def)
  show ?thesis
  proof (cases "t_cardinality (p_tel p)")
    case None
    then show ?thesis
      using r by (simp add: CardinalityStats_def Let_def MaxEntries_def DenyUnknown_def)
  next
    case (Some a)
    then have "watched p a" "rg_cache r = a" using watch r by (auto simp: card_watch_def)
    then show ?thesis
      using r Some
      by (auto simp: CardinalityStats_def Let_def Snapshot_def watched_def the_cache_def DenyUnknown_def)
  qed
qed

theorem stats_report_registry_witness:
  "\<exists>p. tel_exec demo_meters (start_events 0 fine) demo_start = Some p \<and>
     CacheEntries (CardinalityStats p) = cache_Len (the_cache p (the (t_registry (p_tel p))))"
proof -
  have idle: "at_rest (p_pcs demo_start 0)" "\<not> t_started (p_tel demo_start)"
    "o_meter fine = None" "o_tracer fine = None" "o_monitor fine = None"
    by (simp_all add: demo_defs)
  obtain p where p: "tel_exec demo_meters (start_events 0 fine) demo_start = Some p"
    using start_alone [where meterOf = demo_meters, OF idle] by blast
  from stats_report_registry [OF tel_exec_run [OF demo_run p]] p show ?thesis
    by (auto simp: Let_def)
qed

end
