(* ===== verification/Tel_Init.thy ===== *)
theory Tel_Init
  imports Lifecycle_Races Logging Spans
begin

text \<open>
  Entry points (config_env.go, tel.go): the constructors, the process-wide telemetry, and Init and
  InitWithConfig, which configure the logger, create the telemetry, publish it and start it. Here a
  Start runs alone on its goroutine, so it is its steps one after the other.
\<close>

section \<open>Whole calls\<close>

function run_call ::
  "('opt, 'inst) meters \<Rightarrow> outcome \<Rightarrow> nat \<Rightarrow> ('opt, 'inst, 'set) proc \<Rightarrow> ('opt, 'inst, 'set) proc" where
  "run_call meterOf out t p =
     (case tel_step meterOf out t p of None \<Rightarrow> p | Some p' \<Rightarrow> run_call meterOf out t p')"
  by pat_completeness auto
termination
  by (relation "measure (\<lambda>(meterOf, out, t, p). steps_left (p_pcs p t))") (auto dest: tel_step_rank)

declare run_call.simps [simp del]

lemma rest_no_step: "at_rest (p_pcs p t) \<Longrightarrow> tel_step meterOf out t p = None"
  by (elim at_restE) (simp_all add: tel_step_defs)

lemma run_call_exec:
  "tel_exec meterOf (replicate k (Go t out)) p = Some p' \<Longrightarrow> at_rest (p_pcs p' t) \<Longrightarrow>
    run_call meterOf out t p = p'"
proof (induction k arbitrary: p)
  case 0
  then show ?case by (subst run_call.simps) (simp add: rest_no_step)
next
  case (Suc k)
  then obtain q where "tel_step meterOf out t p = Some q" "tel_exec meterOf (replicate k (Go t out)) q = Some p'"
    by (auto split: option.splits)
  then show ?case using Suc.IH Suc.prems(2) by (subst run_call.simps) simp
qed

definition tel_Start ::
  "('opt, 'inst) meters \<Rightarrow> outcome \<Rightarrow> nat \<Rightarrow> ('opt, 'inst, 'set) proc
     \<Rightarrow> go_error option \<times> ('opt, 'inst, 'set) proc" where
  "tel_Start meterOf out t p =
     (let p' = run_call meterOf out t (goto_tel t WantStart p)
      in (case p_pcs p' t of StartDone err \<Rightarrow> (err, p') | _ \<Rightarrow> (None, p')))"

section \<open>Constructors\<close>

definition NewWithConfig :: "('opt, 'inst) meters \<Rightarrow> Config \<Rightarrow> ('opt, 'inst, 'set) telemetry" where
  "NewWithConfig meterOf cfg = newTelemetry meterOf cfg"

definition New :: "('opt, 'inst) meters \<Rightarrow> env_api \<Rightarrow> ('opt, 'inst, 'set) telemetry" where
  "New meterOf ea = NewWithConfig meterOf (DefaultDebugConfig ea)"

definition tel_copy :: "('opt, 'inst) meters \<Rightarrow> ('opt, 'inst, 'set) telemetry \<Rightarrow> ('opt, 'inst, 'set) telemetry" where
  "tel_copy meterOf t = newTelemetry meterOf (t_cfg t)"

definition tel_Meter :: "('opt, 'inst) meters \<Rightarrow> ('opt, 'inst, 'set) telemetry \<Rightarrow> string \<Rightarrow> ('opt, 'inst) meter" where
  "tel_Meter meterOf t ins = meterOf (t_metricProvider t) ins"

text \<open>The telemetry that is process-wide before SetGlobal: a placeholder that exports nothing.\<close>

definition initial_global :: "('opt, 'inst) meters \<Rightarrow> env_api \<Rightarrow> ('opt, 'inst, 'set) telemetry" where
  "initial_global meterOf ea = newTelemetry meterOf (DefaultDebugConfig ea)"

definition tel_Config :: "('opt, 'inst, 'set) telemetry \<Rightarrow> Config" where
  "tel_Config t = t_cfg t"

lemma initial_global_silent:
  "\<not> t_started (initial_global meterOf ea)" "t_metricProvider (initial_global meterOf ea) = NoopMeter"
  "fst (t_tracer (initial_global meterOf ea)) = NoopTracer"
  "\<not> tl_Enable (cf_TelConfig (tel_Config (initial_global meterOf ea)))"
  by (simp_all add: initial_global_def newTelemetry_def refreshTracerLocked_def tel_Config_def
      DefaultDebugConfig_def set_tel_def set_monitor_def Let_def split: option.split)

section \<open>Init\<close>

text \<open>
  The observable state, the process with its telemetry, whether that telemetry is the process-wide
  one, and whether the caller was handed the telemetry and its Shutdown, or nil for both.
\<close>

record ('opt, 'inst, 'set) app =
  app_obs :: obs
  app_proc :: "('opt, 'inst, 'set) proc"
  app_global :: bool
  app_returned :: bool

record init_api =
  ia_levels :: level_api
  ia_info :: int
  ia_env :: env_api
  ia_exit :: "int \<Rightarrow> obs \<Rightarrow> obs"
  ia_text :: "configError \<Rightarrow> go_error"

text \<open>The new process state is that of a fresh telemetry; the goroutine of the call is t.\<close>

definition SetGlobal :: "('opt, 'inst, 'set) app \<Rightarrow> ('opt, 'inst, 'set) app" where
  "SetGlobal a = a\<lparr>app_global := True\<rparr>"

definition InitWithConfig ::
  "('opt, 'inst) meters \<Rightarrow> init_api \<Rightarrow> environment \<Rightarrow> outcome \<Rightarrow> nat \<Rightarrow> Config \<Rightarrow> obs
     \<Rightarrow> go_error option \<times> ('opt, 'inst, 'set) app" where
  "InitWithConfig meterOf ia e out t cfg w =
     (let w1 = ConfigureLogger (ia_levels ia) (ia_info ia) (ia_env ia) e cfg w;
          p = (new_proc meterOf cfg)\<lparr>p_tel := NewWithConfig meterOf cfg\<rparr>;
          a = SetGlobal \<lparr> app_obs = w1, app_proc = p, app_global = False, app_returned = False \<rparr>
      in (case tel_Start meterOf out t (app_proc a) of
            (Some err, p1) \<Rightarrow> (Some err, a\<lparr>app_proc := p1\<rparr>)
          | (None, p1) \<Rightarrow> (None, a\<lparr>app_proc := p1, app_returned := True\<rparr>)))"

text \<open>
  A failure is fatal: it is logged and the exit function called; if that returns, the code goes on,
  with the zero configuration after a configuration error.
\<close>

definition Init ::
  "('opt, 'inst) meters \<Rightarrow> init_api \<Rightarrow> outcome \<Rightarrow> nat \<Rightarrow> environment \<Rightarrow> obs
     \<Rightarrow> ('opt, 'inst, 'set) app \<times> environment" where
  "Init meterOf ia out t e w =
     (case GetConfigFromEnv (ia_env ia) e of
        (res, e1) \<Rightarrow>
          let (cfg, w1) = (case res of
                Inl err \<Rightarrow> (zeroConfig, Fatal_Msg (ia_exit ia)
                  (Fatal_Err (Fatal w) (Some (ia_text ia err))) ''tel: load config'' w)
              | Inr cfg \<Rightarrow> (cfg, w));
              (err, a) = InitWithConfig meterOf ia e1 out t cfg w1
          in (case err of
                None \<Rightarrow> (a, e1)
              | Some x \<Rightarrow>
                  (a\<lparr>app_obs := Fatal_Msg (ia_exit ia) (Fatal_Err (Fatal (app_obs a)) (Some x)) ''tel: start''
                     (app_obs a)\<rparr>, e1)))"

lemma start_seq:
  assumes "at_rest (p_pcs p t)" "tel_exec meterOf (Begin t WantStart # replicate k (Go t out)) p = Some p'"
    "p_pcs p' t = StartDone err"
  shows "tel_Start meterOf out t p = (err, p')"
proof -
  have "tel_exec meterOf (replicate k (Go t out)) (goto_tel t WantStart p) = Some p'"
    using assms(1,2) by simp
  then have "run_call meterOf out t (goto_tel t WantStart p) = p'"
    by (rule run_call_exec) (simp add: assms(3))
  then show ?thesis by (simp add: tel_Start_def assms(3))
qed

lemma new_proc_tel: "(new_proc meterOf cfg)\<lparr>p_tel := NewWithConfig meterOf cfg\<rparr> = new_proc meterOf cfg"
  by (simp add: new_proc_def NewWithConfig_def)

lemma new_proc_idle:
  "at_rest (p_pcs (new_proc meterOf cfg) t)" "\<not> t_started (p_tel (new_proc meterOf cfg))"
  "t_cfg (p_tel (new_proc meterOf cfg)) = cfg" "p_live (new_proc meterOf cfg) = {}"
  by (simp_all add: new_proc_def newTelemetry_def refreshTracerLocked_def Let_def split: option.split)

text \<open>What a start that nothing stops leaves.\<close>

lemma InitWithConfig_started:
  fixes meterOf :: "('opt, 'inst) meters"
  assumes "start_error cfg out = None"
  obtains p' :: "('opt, 'inst, 'set) proc" where
    "InitWithConfig meterOf ia e out t cfg w = (None, \<lparr> app_obs = applyLoggerFromConfig (ia_levels ia)
       (ia_info ia) (ia_env ia) e cfg w, app_proc = p', app_global = True, app_returned = True \<rparr>)"
    "p_pcs p' t = StartDone None" "t_started (p_tel p')" "p_live p' = start_res cfg 1"
    "tel_all_res (p_tel p') = start_res cfg 1" "tel_run meterOf cfg p'" "t_cfg (p_tel p') = cfg"
proof -
  let ?p = "new_proc meterOf cfg :: ('opt, 'inst, 'set) proc"
  have idle: "at_rest (p_pcs ?p t)" "\<not> t_started (p_tel ?p)" by (simp_all add: new_proc_idle)
  have ok: "start_error (t_cfg (p_tel ?p)) out = None" using assms by (simp add: new_proc_idle)
  obtain p' where p': "tel_exec meterOf (start_events t out) ?p = Some p'"
    "p_pcs p' = (p_pcs ?p)(t := StartDone None)" "t_started (p_tel p')"
    "p_live p' = p_live ?p \<union> start_res (t_cfg (p_tel ?p)) (p_next ?p)"
    "tel_all_res (p_tel p') = start_res (t_cfg (p_tel ?p)) (p_next ?p)" "t_cfg (p_tel p') = t_cfg (p_tel ?p)"
    using start_succeeds [where meterOf = meterOf, OF idle ok] by blast
  have "start_events t out = Begin t WantStart # replicate 6 (Go t out)"
    by (simp add: start_events_def eval_nat_numeral)
  then have start: "tel_Start meterOf out t ?p = (None, p')"
    using p' by (intro start_seq [OF idle(1)]) simp_all
  have next1: "p_next ?p = 1" "t_cfg (p_tel ?p) = cfg" "p_live ?p = {}"
    by (simp_all add: new_proc_idle) (simp add: new_proc_def)
  have run: "tel_run meterOf cfg p'" by (rule tel_exec_run [OF tel_run.init p'(1)])
  show ?thesis
    using p' next1 run
    by (intro that [of p'])
      (simp_all add: InitWithConfig_def SetGlobal_def ConfigureLogger_def Let_def new_proc_tel start)
qed

text \<open>InitWithConfig succeeds exactly when nothing the configuration asks for fails.\<close>

lemma InitWithConfig_effect:
  fixes meterOf :: "('opt, 'inst) meters"
  obtains a :: "('opt, 'inst, 'set) app" where
    "InitWithConfig meterOf ia e out t cfg w = (start_error cfg out, a)" "app_global a"
    "app_obs a = applyLoggerFromConfig (ia_levels ia) (ia_info ia) (ia_env ia) e cfg w"
    "t_started (p_tel (app_proc a)) \<longleftrightarrow> start_error cfg out = None"
    "p_live (app_proc a) = (if start_error cfg out = None then start_res cfg 1 else {})"
    "app_returned a \<longleftrightarrow> start_error cfg out = None"
proof (cases "start_error cfg out")
  case None
  obtain p' :: "('opt, 'inst, 'set) proc" where "InitWithConfig meterOf ia e out t cfg w =
      (None, \<lparr> app_obs = applyLoggerFromConfig (ia_levels ia) (ia_info ia) (ia_env ia) e cfg w,
         app_proc = p', app_global = True, app_returned = True \<rparr>)" "t_started (p_tel p')" "p_live p' = start_res cfg 1"
    using InitWithConfig_started [OF None] by metis
  then show ?thesis
    using None by (intro that [of "\<lparr> app_obs = applyLoggerFromConfig (ia_levels ia) (ia_info ia) (ia_env ia) e cfg w,
      app_proc = p', app_global = True, app_returned = True \<rparr>"]) simp_all
next
  case (Some x)
  let ?p = "new_proc meterOf cfg :: ('opt, 'inst, 'set) proc"
  have idle: "at_rest (p_pcs ?p t)" "\<not> t_started (p_tel ?p)" by (simp_all add: new_proc_idle)
  have "start_error (t_cfg (p_tel ?p)) out = Some x" using Some by (simp add: new_proc_idle)
  from failing_start [where meterOf = meterOf, OF tel_run.init idle this]
  obtain k p' where p': "tel_exec meterOf (Begin t WantStart # replicate k (Go t out)) ?p = Some p'"
    "p_pcs p' t = StartDone (Some x)" "p_live p' = p_live ?p" "p_tel p' = p_tel ?p"
    by blast
  let ?a = "\<lparr> app_obs = applyLoggerFromConfig (ia_levels ia) (ia_info ia) (ia_env ia) e cfg w,
    app_proc = p', app_global = True, app_returned = False \<rparr>"
  have "InitWithConfig meterOf ia e out t cfg w = (Some x, ?a)"
    by (simp add: InitWithConfig_def SetGlobal_def ConfigureLogger_def Let_def new_proc_tel start_seq [OF idle(1) p'(1,2)])
  then show ?thesis
    using p'(3,4) Some idle(2) by (intro that [of ?a]) (simp_all add: new_proc_idle)
qed

text \<open>The zero configuration asks for nothing.\<close>

lemma zero_start: "start_error zeroConfig out = None" "start_res zeroConfig n = {}"
  by (simp_all add: start_error_def start_res_def traces_on_def zeroConfig_def)

text \<open>
  What a fatal error comes to: one line at the fatal level with the error and the message, from the
  process logger and with the caller one frame up, and then the exit function with status 1.
\<close>

definition logs_and_exits :: "init_api \<Rightarrow> go_error \<Rightarrow> string \<Rightarrow> obs \<Rightarrow> obs" where
  "logs_and_exits ia err msg w =
     ia_exit ia 1 (w\<lparr>ob_trace := ob_trace w @
       [LogMsg \<lparr> ev_level = LvFatal, ev_logger = ob_process w, ev_skip = 1, ev_fields = [(''error'', LErr err)] \<rparr>
         msg]\<rparr>)"

lemma Fatal_logs_and_exits:
  "Fatal_Msg (ia_exit ia) (Fatal_Err (Fatal w) (Some err)) msg w = logs_and_exits ia err msg w"
  by (simp add: Fatal_Msg_def Fatal_Err_def Fatal_def ev_Err_def ev_add_def new_event_def ev_Msg_def emit_def
      logs_and_exits_def)

text \<open>
  C18: Init publishes a telemetry and starts it exactly when nothing fails: with a configuration, the
  process logger is configured first, then the telemetry becomes the process-wide one and is
  started with the resources the configuration enables and handed out, or, when an exporter or the
  listener reports an error, is left stopped with nothing live, one fatal line with the error is
  logged, the exit function is called with status 1, and, should that return, Init returns nil. An
  error of the configuration is logged and exits in the same way before anything else, and a
  process whose exit function returns goes on with the zero configuration, which starts nothing.
\<close>

theorem Init_starts_or_exits:
  fixes meterOf :: "('opt, 'inst) meters"
  shows "case (Init meterOf ia out t e w :: ('opt, 'inst, 'set) app \<times> environment) of (a, e1) \<Rightarrow>
     e1 = snd (GetConfigFromEnv (ia_env ia) e) \<and> app_global a \<and>
     (case fst (GetConfigFromEnv (ia_env ia) e) of
        Inr cfg \<Rightarrow>
          (let w1 = applyLoggerFromConfig (ia_levels ia) (ia_info ia) (ia_env ia) e1 cfg w
           in case start_error cfg out of
                None \<Rightarrow> t_started (p_tel (app_proc a)) \<and> p_live (app_proc a) = start_res cfg 1 \<and>
                  app_returned a \<and> app_obs a = w1
              | Some x \<Rightarrow> \<not> t_started (p_tel (app_proc a)) \<and> p_live (app_proc a) = {} \<and>
                  \<not> app_returned a \<and> app_obs a = logs_and_exits ia x ''tel: start'' w1)
      | Inl err \<Rightarrow>
          t_started (p_tel (app_proc a)) \<and> p_live (app_proc a) = {} \<and> app_returned a \<and>
          app_obs a = applyLoggerFromConfig (ia_levels ia) (ia_info ia) (ia_env ia) e1 zeroConfig
            (logs_and_exits ia (ia_text ia err) ''tel: load config'' w))"
proof -
  obtain res e1 where cfg: "GetConfigFromEnv (ia_env ia) e = (res, e1)" by fastforce
  show ?thesis
  proof (cases res)
    case (Inl err)
    let ?w = "logs_and_exits ia (ia_text ia err) ''tel: load config'' w"
    obtain a :: "('opt, 'inst, 'set) app" where "InitWithConfig meterOf ia e1 out t zeroConfig ?w = (None, a)"
      "app_global a" "app_obs a = applyLoggerFromConfig (ia_levels ia) (ia_info ia) (ia_env ia) e1 zeroConfig ?w"
      "t_started (p_tel (app_proc a))" "p_live (app_proc a) = {}" "app_returned a"
      using InitWithConfig_effect [of meterOf ia e1 out t zeroConfig ?w, where ?'set = 'set]
      by (metis zero_start)
    then show ?thesis by (simp add: Init_def cfg Inl Let_def Fatal_logs_and_exits)
  next
    case (Inr c)
    obtain a :: "('opt, 'inst, 'set) app" where
      "InitWithConfig meterOf ia e1 out t c w = (start_error c out, a)" "app_global a"
      "app_obs a = applyLoggerFromConfig (ia_levels ia) (ia_info ia) (ia_env ia) e1 c w"
      "t_started (p_tel (app_proc a)) \<longleftrightarrow> start_error c out = None"
      "p_live (app_proc a) = (if start_error c out = None then start_res c 1 else {})"
      "app_returned a \<longleftrightarrow> start_error c out = None"
      by (rule InitWithConfig_effect)
    then show ?thesis
      by (cases "start_error c out") (simp_all add: Init_def cfg Inr Let_def Fatal_logs_and_exits)
  qed
qed

end
