(* ===== verification/Config_Audit.thy ===== *)
theory Config_Audit
  imports Tel_Config
begin

text \<open>
  The rest of the generated configuration code (config\_env\_gen.go): the loaders that take a snapshot
  or panic, and the schema that the audit functions hand to the env package. The package's
  Audit, its Reload and the snapshot of the environment are parameters.
\<close>

section \<open>Loaders\<close>

text \<open>A pair of Go's results: the configuration comes back with the error, too.\<close>

definition LoadConfigFrom :: "env_api \<Rightarrow> environment \<Rightarrow> Config \<times> fieldError list option" where
  "LoadConfigFrom ea snap =
     (case loadConfig ea zeroConfig snap of (cfg, errs) \<Rightarrow> if errs \<noteq> [] then (cfg, Some errs) else (cfg, None))"

text \<open>A panic is \<^const>\<open>Inl\<close>, with the errors it carries.\<close>

definition MustLoadConfig :: "env_api \<Rightarrow> environment \<Rightarrow> fieldError list + Config" where
  "MustLoadConfig ea snap = (case LoadConfig ea snap of (cfg, Some errs) \<Rightarrow> Inl errs | (cfg, None) \<Rightarrow> Inr cfg)"

definition MustReloadConfig ::
  "env_api \<Rightarrow> environment \<Rightarrow> Config \<Rightarrow> (fieldError list + unit) \<times> Config" where
  "MustReloadConfig ea snap cfg =
     (case ReloadConfig ea snap cfg of (Some errs, c) \<Rightarrow> (Inl errs, c) | (None, c) \<Rightarrow> (Inr (), c))"

section \<open>The audit schema\<close>

record schemaField =
  sf_Key :: string
  sf_FieldPath :: string
  sf_Default :: string
  sf_HasDefault :: bool

text \<open>A field with a default, and one whose literal leaves Default and HasDefault out.\<close>

definition with_default :: "string \<Rightarrow> string \<Rightarrow> string \<Rightarrow> schemaField" where
  "with_default key path d = \<lparr> sf_Key = key, sf_FieldPath = path, sf_Default = d, sf_HasDefault = True \<rparr>"

definition without_default :: "string \<Rightarrow> string \<Rightarrow> schemaField" where
  "without_default key path = \<lparr> sf_Key = key, sf_FieldPath = path, sf_Default = [], sf_HasDefault = False \<rparr>"

definition configAuditSchema :: "schemaField list" where
  "configAuditSchema =
     [with_default ''MONITOR_ADDR'' ''MonitorConfig.MonitorAddr'' ''127.0.0.1:8011'',
      with_default ''MONITOR_ENABLE'' ''MonitorConfig.Enable'' ''true'',
      with_default ''TEL_COLLECTOR_GRPC_ADDR'' ''TelConfig.Address'' ''127.0.0.1:4317'',
      without_default ''TEL_COLLECTOR_TLS_SERVER_NAME'' ''TelConfig.ServerName'',
      with_default ''TEL_METRIC_PERIODIC_INTERVAL_SEC'' ''TelConfig.MetricsPeriodicIntervalSec'' ''15'',
      with_default ''TEL_EXPORT_INTERVAL_SEC'' ''TelConfig.ExportIntervalSec'' ''0'',
      with_default ''TEL_EXPORTER_WITH_INSECURE'' ''TelConfig.WithInsecure'' ''true'',
      with_default ''TEL_ENABLE'' ''TelConfig.Enable'' ''true'',
      with_default ''TEL_ENABLE_COMPRESSION'' ''TelConfig.WithCompression'' ''true'',
      without_default ''TEL_SERVICE_NAME'' ''Service'',
      without_default ''POD_NAME'' ''Pod'',
      with_default ''NAMESPACE'' ''Namespace'' ''default'',
      with_default ''DEPLOY_ENVIRONMENT'' ''Environment'' ''dev'',
      with_default ''VERSION'' ''Version'' ''dev'',
      with_default ''LOG_LEVEL'' ''LogLevel'' ''info'',
      with_default ''LOG_ENCODE'' ''LogEncode'' ''console'',
      with_default ''LOGS_MAX_MESSAGES_PER_SECOND'' ''MaxMessagesPerSecond'' ''0'',
      without_default ''LOGS_MAX_LEVEL_MESSAGES_PER_SECOND'' ''MaxLevelMessagesPerSecond'',
      with_default ''DEBUG'' ''Debug'' ''false'']"

definition AuditConfigWithOptions ::
  "(environment \<Rightarrow> schemaField list \<Rightarrow> 'o \<Rightarrow> 'report) \<Rightarrow> environment \<Rightarrow> 'o \<Rightarrow> 'report" where
  "AuditConfigWithOptions audit snap opts = audit snap configAuditSchema opts"

definition AuditConfig ::
  "(environment \<Rightarrow> schemaField list \<Rightarrow> 'o \<Rightarrow> 'report) \<Rightarrow> 'o \<Rightarrow> environment \<Rightarrow> 'report" where
  "AuditConfig audit zero_options snap = audit snap configAuditSchema zero_options"

section \<open>The schema describes the loader\<close>





























end
