(* ===== verification/System_Props.thy ===== *)
theory System_Props
  imports System_Correct
begin

text \<open>
  What the composed system promises, whatever the interleaving of lifecycle calls, requests and
  measurements: a measurement reaches only the provider that was installed, and live, when it
  began; every cache and every registry keeps the bound of the configuration.
\<close>

section \<open>The invariant of epochs\<close>

text \<open>An instrument seen at the epoch numbered K, while the provider mp was installed.\<close>

definition inst_ok :: "('opt, 'inst) meters \<Rightarrow> meterProvider \<Rightarrow> nat \<Rightarrow> ('inst, 'set) instrument \<Rightarrow> bool" where
  "inst_ok meterOf mp K i \<longleftrightarrow> inst_epochPtr i = Some 0 \<and>
     (\<exists>k \<le> K. inst_epoch i = of_nat k \<and> (k = K \<longrightarrow> (\<exists>svc. made_by (meterOf mp svc) i)))"

definition measuring_ok :: "('opt, 'inst) meters \<Rightarrow> nat \<Rightarrow> ('inst, 'set) measuring \<Rightarrow> bool" where
  "measuring_ok meterOf N m \<longleftrightarrow> me_alive m \<and>
     (\<exists>K \<le> N. me_epoch m = of_nat K \<and> inst_ok meterOf (me_provider m) K (me_inst m))"

definition hist_ok :: "('opt, 'inst) meters \<Rightarrow> ('opt, 'inst, 'set) system \<Rightarrow> bool" where
  "hist_ok meterOf s \<longleftrightarrow> (\<forall>(mp, alive, i, c) \<in> set (sy_hist s). alive \<and> call_on meterOf mp c) \<and>
     map (\<lambda>(mp, alive, i, c). c) (sy_hist s) = w_calls (sy_world s)"

definition old_ok :: "nat \<Rightarrow> ('opt, 'inst, 'set) registry \<Rightarrow> bool" where
  "old_ok N r \<longleftrightarrow> reg_ok r \<and> (\<exists>k < N. rg_epoch r = of_nat k)"

definition proc_ok :: "('opt, 'inst) meters \<Rightarrow> nat \<Rightarrow> ('opt, 'inst, 'set) proc \<Rightarrow> bool" where
  "proc_ok meterOf N p \<longleftrightarrow> life_ok p \<and> provider_owned p \<and> t_epoch (p_tel p) = of_nat N \<and>
     (\<exists>r svc. t_registry (p_tel p) = Some r \<and> reg_ok r \<and> rg_meter r = meterOf (t_metricProvider (p_tel p)) svc)"

definition clients_ok :: "('opt, 'inst) meters \<Rightarrow> nat \<Rightarrow> ('opt, 'inst, 'set) system \<Rightarrow> bool" where
  "clients_ok meterOf N s \<longleftrightarrow> (\<forall>r \<in> set (sy_old s). old_ok N r) \<and>
     (\<forall>i \<in> set (sy_insts s). inst_ok meterOf (t_metricProvider (p_tel (sy_proc s))) N i) \<and>
     (\<forall>t m. sy_measuring s t = Some m \<longrightarrow> measuring_ok meterOf N m)"

definition sys_ok :: "('opt, 'inst) meters \<Rightarrow> nat \<Rightarrow> ('opt, 'inst, 'set) system \<Rightarrow> bool" where
  "sys_ok meterOf N s \<longleftrightarrow> proc_ok meterOf N (sy_proc s) \<and> clients_ok meterOf N s \<and> hist_ok meterOf s"

lemma inst_ok_later: "inst_ok meterOf mp K i \<Longrightarrow> K < N \<Longrightarrow> inst_ok meterOf mp' N i"
  unfolding inst_ok_def by (metis leD less_imp_le order_trans)

lemma old_ok_later: "old_ok K r \<Longrightarrow> K \<le> N \<Longrightarrow> old_ok N r"
  unfolding old_ok_def by (meson less_le_trans)

lemma measuring_ok_later: "measuring_ok meterOf K m \<Longrightarrow> K \<le> N \<Longrightarrow> measuring_ok meterOf N m"
  unfolding measuring_ok_def by (meson order_trans)

lemma proc_provider_live:
  "proc_ok meterOf N p \<Longrightarrow> provider_live p (t_metricProvider (p_tel p))"
  by (simp add: proc_ok_def life_ok_def owned_provider_live)

lemma newRegistry_meter [simp]: "rg_meter (newRegistryWithCache m a p e n) = m"
  by (simp add: newRegistryWithCache_def)

section \<open>Lifecycle events\<close>

lemma tel_event_frame:
  assumes "tel_exec meterOf [ev] p = Some p'"
  shows "t_cfg (p_tel p') = t_cfg (p_tel p)"
    and "same_registry (p_tel p') (p_tel p) \<or> next_registry meterOf (p_tel p') (p_tel p)"
    and "p_caches p' a = p_caches p a \<or> p_caches p' a = build_cache p \<or>
      p_caches p' a = newAttrCache defaultMaxCardinality \<or>
      (\<exists>labels. p_caches p' a = the (Allow (Some (p_caches p a)) labels))"
proof -
  have "(\<exists>t pc. p' = goto_tel t pc p) \<or> (\<exists>t out. tel_step meterOf out t p = Some p')"
    using assms by (cases ev) (auto split: if_splits option.splits)
  then have "t_cfg (p_tel p') = t_cfg (p_tel p) \<and>
    (same_registry (p_tel p') (p_tel p) \<or> next_registry meterOf (p_tel p') (p_tel p)) \<and>
    (p_caches p' a = p_caches p a \<or> p_caches p' a = build_cache p \<or>
      p_caches p' a = newAttrCache defaultMaxCardinality \<or>
      (\<exists>labels. p_caches p' a = the (Allow (Some (p_caches p a)) labels)))"
  proof
    assume "\<exists>t out. tel_step meterOf out t p = Some p'"
    then obtain t out where step: "tel_step meterOf out t p = Some p'" by blast
    then show ?thesis using step_registry [OF step] step_caches [OF step, of a] by blast
  qed (auto simp: same_registry_def)
  then show "t_cfg (p_tel p') = t_cfg (p_tel p)"
    "same_registry (p_tel p') (p_tel p) \<or> next_registry meterOf (p_tel p') (p_tel p)"
    "p_caches p' a = p_caches p a \<or> p_caches p' a = build_cache p \<or>
      p_caches p' a = newAttrCache defaultMaxCardinality \<or>
      (\<exists>labels. p_caches p' a = the (Allow (Some (p_caches p a)) labels))" by blast+
qed

lemma tel_event_keeps:
  assumes "tel_exec meterOf [ev] p = Some p'" "life_ok p" "provider_owned p"
  shows "life_ok p' \<and> provider_owned p'"
proof (cases ev)
  case (Begin t pc)
  then have p': "p' = goto_tel t pc p" and rest: "at_rest (p_pcs p t)" "call_pc pc"
    using assms(1) by (simp_all split: if_splits)
  have "pc_meter pc" using rest(2) by (elim call_pcE) simp_all
  then show ?thesis
    using life_call [OF assms(2) rest] provider_owned_move [OF assms(3) refl]
      assms(3) by (simp add: p' provider_owned_def)
next
  case (Go t out)
  then have step: "tel_step meterOf out t p = Some p'" using assms(1) by (simp split: option.splits)
  show ?thesis using life_step [OF assms(2) step] provider_owned_step [OF assms(3) step] ..
qed

lemma lifecycle_keeps:
  assumes ok: "sys_ok meterOf N s" and step: "lifecycle_event meterOf ev s = Some s'"
  shows "\<exists>N'. N \<le> N' \<and> N' \<le> Suc N \<and> sys_ok meterOf N' s'"
proof -
  let ?p = "sy_proc s"
  obtain p where p: "tel_exec meterOf [ev] ?p = Some p"
    and s': "s' = s\<lparr>sy_proc := p, sy_old :=
          (if t_epoch (p_tel p) = now_epoch s then sy_old s
           else case t_registry (p_tel ?p) of None \<Rightarrow> sy_old s | Some r \<Rightarrow> r # sy_old s)\<rparr>"
    using step by (auto simp: lifecycle_event_def split: option.splits)
  have pok: "proc_ok meterOf N ?p" and cok: "clients_ok meterOf N s" and hok: "hist_ok meterOf s"
    using ok by (simp_all add: sys_ok_def)
  then have life: "life_ok ?p" "provider_owned ?p" "now_epoch s = of_nat N" by (simp_all add: proc_ok_def)
  note eff = tel_event_keeps [OF p life(1,2)] tel_event_frame(1,2) [OF p]
  have hist: "hist_ok meterOf s'" using hok by (simp add: hist_ok_def s')
  from eff consider (same) "same_registry (p_tel p) (p_tel ?p)" | (nxt) "next_registry meterOf (p_tel p) (p_tel ?p)"
    by blast
  then show ?thesis
  proof cases
    case same
    then have "sys_ok meterOf N s'"
      using eff pok cok hist by (simp add: sys_ok_def proc_ok_def clients_ok_def same_registry_def s')
    then show ?thesis by (intro exI [where x = N]) simp
  next
    case nxt
    then have e: "t_epoch (p_tel p) = of_nat (Suc N)" using life(3) by (simp add: next_registry_def)
    then have moved: "t_epoch (p_tel p) \<noteq> now_epoch s" using life(3) by simp
    obtain r where r: "t_registry (p_tel ?p) = Some r" "reg_ok r" "rg_epoch r = of_nat N"
      using pok by (auto simp: proc_ok_def life_ok_def registry_current_def)
    obtain svc a where reg: "t_registry (p_tel p) = Some (newRegistryWithCache
        (meterOf (t_metricProvider (p_tel p)) svc) a (Some 0) (t_epoch (p_tel p))
        (maxInstrumentsFromCfg (t_cfg (p_tel ?p))))"
      using nxt unfolding next_registry_def by blast
    have "proc_ok meterOf (Suc N) p"
      unfolding proc_ok_def using eff e reg reg_ok_new newRegistry_meter by blast
    moreover have "old_ok (Suc N) r" using r by (auto simp: old_ok_def intro!: exI [where x = N])
    moreover have "old_ok (Suc N) r'" if "r' \<in> set (sy_old s)" for r'
      using cok that old_ok_later [of N r' "Suc N"] by (simp add: clients_ok_def)
    moreover have "inst_ok meterOf (t_metricProvider (p_tel p)) (Suc N) i" if "i \<in> set (sy_insts s)" for i
      using cok that inst_ok_later [of meterOf "t_metricProvider (p_tel ?p)" N i "Suc N"]
      by (simp add: clients_ok_def)
    moreover have "measuring_ok meterOf (Suc N) m" if "sy_measuring s t = Some m" for t m
      using cok that measuring_ok_later [of meterOf N m "Suc N"] by (simp add: clients_ok_def)
    ultimately have "proc_ok meterOf (Suc N) p" "clients_ok meterOf (Suc N) s'"
      using moved r by (auto simp: clients_ok_def s')
    then have "sys_ok meterOf (Suc N) s'" using hist by (simp add: sys_ok_def s')
    then show ?thesis by (intro exI [where x = "Suc N"]) simp
  qed
qed

section \<open>Requests and measurements\<close>

lemma asked_inst_ok:
  assumes "asked r w (Inr i) r1 w1" "rg_epoch r = of_nat k" "k \<le> N"
    and "k = N \<Longrightarrow> \<exists>svc. rg_meter r = meterOf mp svc"
  shows "inst_ok meterOf mp N i"
proof -
  have "reg_ok r1" "same_frame r1 r" "i \<in> reg_insts r1" using assms(1) by (simp_all add: asked_def)
  then have "inst_epochPtr i = Some 0" "inst_epoch i = of_nat k" "made_by (rg_meter r) i"
    using assms(2) by (auto simp: reg_ok_def same_frame_def)
  then show ?thesis using assms(3,4) unfolding inst_ok_def by metis
qed

text \<open>Only the registry, the caches and the trace of the world have changed, and one instrument may be new.\<close>

lemma life_ok_registry:
  assumes "life_ok p" "t_registry (p_tel p) = Some r" "same_frame r1 r"
  shows "life_ok (p\<lparr>p_tel := (p_tel p)\<lparr>t_registry := Some r1\<rparr>, p_caches := cs\<rparr>)" (is "life_ok ?q")
proof -
  have held: "held ?q h = held p h" for h by (cases h) (simp_all add: held_def tel_res_def)
  have "live_ext ?q = live_ext p" "released_ext ?q = released_ext p"
    by (simp_all add: live_ext_def released_ext_def)
  then show ?thesis
    using assms held by (auto simp: life_ok_def typed_def owned_ok_def registry_current_def same_frame_def)
qed

lemma provider_owned_registry:
  "provider_owned p \<Longrightarrow> provider_owned (p\<lparr>p_tel := (p_tel p)\<lparr>t_registry := x\<rparr>, p_caches := cs\<rparr>)"
  by (simp add: provider_owned_def)

lemma proc_ok_caches: "proc_ok meterOf N p \<Longrightarrow> proc_ok meterOf N (p\<lparr>p_caches := cs\<rparr>)"
proof -
  assume ok: "proc_ok meterOf N p"
  obtain r where r: "t_registry (p_tel p) = Some r" using ok by (auto simp: proc_ok_def)
  have same: "(p_tel p)\<lparr>t_registry := Some r\<rparr> = p_tel p" using r by simp
  show ?thesis
    using ok life_ok_registry [of p r r cs] provider_owned_registry [of p cs "Some r"] r
    unfolding same by (simp add: proc_ok_def same_frame_def)
qed

definition hand_out :: "go_error + ('inst, 'set) instrument \<Rightarrow> ('opt, 'inst, 'set) system \<Rightarrow> ('opt, 'inst, 'set) system" where
  "hand_out x s = (case x of Inl err \<Rightarrow> s | Inr i \<Rightarrow> s\<lparr>sy_insts := i # sy_insts s\<rparr>)"

lemma hand_out_frame [simp]:
  "sy_proc (hand_out x s) = sy_proc s" "sy_old (hand_out x s) = sy_old s"
  "sy_measuring (hand_out x s) = sy_measuring s" "sy_hist (hand_out x s) = sy_hist s"
  "sy_world (hand_out x s) = sy_world s"
  "set (sy_insts (hand_out x s)) = (case x of Inl err \<Rightarrow> {} | Inr i \<Rightarrow> {i}) \<union> set (sy_insts s)"
  by (simp_all add: hand_out_def split: sum.split)

lemma put_world_frame [simp]:
  "sy_old (put_world w s) = sy_old s" "sy_measuring (put_world w s) = sy_measuring s"
  "sy_hist (put_world w s) = sy_hist s" "sy_insts (put_world w s) = sy_insts s"
  "sy_proc (put_world w s) = (sy_proc s)\<lparr>p_caches := w_caches w\<rparr>" "sy_world (put_world w s) = w"
  by (simp_all add: put_world_def)

lemma world_at_frame [simp]:
  "w_calls (world_at e s) = w_calls (sy_world s)" "w_caches (world_at e s) = p_caches (sy_proc s)"
  "w_epochs (world_at e s) a = e"
  by (simp_all add: world_at_def)

lemma ask_keeps:
  assumes ok: "sys_ok meterOf N s" and step: "ask_event which q s = Some s'"
  shows "sys_ok meterOf N s'"
proof -
  let ?p = "sy_proc s" and ?mp = "t_metricProvider (p_tel (sy_proc s))"
  have pok: "proc_ok meterOf N ?p" and cok: "clients_ok meterOf N s" and hok: "hist_ok meterOf s"
    using ok by (simp_all add: sys_ok_def)
  obtain r svc where r: "t_registry (p_tel ?p) = Some r" "reg_ok r" "rg_meter r = meterOf ?mp svc"
      "rg_epoch r = of_nat N"
    using pok by (auto simp: proc_ok_def life_ok_def registry_current_def)
  show ?thesis
  proof (cases which)
    case None
    obtain x r1 w1 where a: "ask q r (world_at (now_epoch s) s) = (x, r1, w1)" by (metis prod_cases3)
    then have s': "s' = hand_out x (put_world w1 (s\<lparr>sy_proc := ?p\<lparr>p_tel := (p_tel ?p)\<lparr>t_registry := Some r1\<rparr>\<rparr>\<rparr>))"
      using step r by (simp add: ask_event_def None hand_out_def)
    have as: "asked r (world_at (now_epoch s) s) x r1 w1" by (rule ask_asked [OF r(2) a])
    then have "proc_ok meterOf N (sy_proc s')"
      using pok r life_ok_registry [OF _ r(1), of r1 "w_caches w1"]
        provider_owned_registry [of ?p "w_caches w1" "Some r1"]
      by (simp add: s' proc_ok_def asked_def same_frame_def)
    moreover have "x = Inr i \<Longrightarrow> inst_ok meterOf ?mp N i" for i
      using asked_inst_ok [where k = N] as r by blast
    then have "clients_ok meterOf N s'" using cok by (auto simp: clients_ok_def s' split: sum.split)
    moreover have "hist_ok meterOf s'" using hok as by (simp add: hist_ok_def s' asked_def)
    ultimately show ?thesis by (simp add: sys_ok_def)
  next
    case (Some j)
    let ?r = "sy_old s ! j"
    have j: "j < length (sy_old s)" using step by (auto simp: ask_event_def Some Let_def split: if_splits)
    then obtain k where k: "reg_ok ?r" "k < N" "rg_epoch ?r = of_nat k"
      using cok nth_mem unfolding clients_ok_def old_ok_def by blast
    obtain x r1 w1 where a: "ask q ?r (world_at (now_epoch s) s) = (x, r1, w1)" by (metis prod_cases3)
    then have s': "s' = hand_out x (put_world w1 (s\<lparr>sy_old := (sy_old s)[j := r1]\<rparr>))"
      using step j by (simp add: ask_event_def Some hand_out_def)
    have as: "asked ?r (world_at (now_epoch s) s) x r1 w1" by (rule ask_asked [OF k(1) a])
    have "proc_ok meterOf N (sy_proc s')" using proc_ok_caches [OF pok] by (simp add: s')
    moreover have "x = Inr i \<Longrightarrow> inst_ok meterOf ?mp N i" for i
      using asked_inst_ok [OF _ k(3) less_imp_le [OF k(2)], of _ i r1 w1 meterOf ?mp] as k(2) by blast
    moreover have "old_ok N r1" using as k by (auto simp: asked_def same_frame_def old_ok_def)
    then have "\<forall>r' \<in> set ((sy_old s)[j := r1]). old_ok N r'"
      using cok set_update_subset_insert [of "sy_old s" j r1] unfolding clients_ok_def by blast
    ultimately show ?thesis
      using cok hok as by (auto simp: sys_ok_def clients_ok_def hist_ok_def s' asked_def split: sum.split)
  qed
qed

lemma with_attrs_frame [simp]:
  "inst_epochPtr (with_attrs api i a) = inst_epochPtr i" "inst_epoch (with_attrs api i a) = inst_epoch i"
  "made_by m (with_attrs api i a) = made_by m i"
  by (cases i; simp add: Counter_WithAttrs_def Histogram_WithAttrs_def Gauge_WithAttrs_def)+

lemma inst_ok_with_attrs: "inst_ok meterOf mp N i \<Longrightarrow> inst_ok meterOf mp N (with_attrs api i a)"
  by (simp add: inst_ok_def)

lemma u64_of_nat_eq:
  "m < 2 ^ 64 \<Longrightarrow> n < 2 ^ 64 \<Longrightarrow> (of_nat m :: u64) = of_nat n \<longleftrightarrow> m = n"
  by (simp add: word_of_nat_eq_iff take_bit_nat_eq_self)

text \<open>A measurement calls only the provider at whose epoch it began.\<close>

lemma measuring_calls:
  assumes ok: "measuring_ok meterOf N m" and N: "N < 2 ^ 64"
    and e: "w_epochs w 0 = me_epoch m \<or> w_epochs w 0 = of_nat N"
  shows "\<exists>cs. w_calls (measure_on api (me_inst m) n x k w) = w_calls w @ cs \<and>
    (\<forall>c \<in> set cs. call_on meterOf (me_provider m) c)"
proof (cases "inst_live w (me_inst m)")
  case True
  obtain K j where K: "K \<le> N" "me_epoch m = of_nat K" and j: "j \<le> K" "inst_epoch (me_inst m) = of_nat j"
    and made: "j = K \<longrightarrow> (\<exists>svc. made_by (meterOf (me_provider m) svc) (me_inst m))"
    and ptr: "inst_epochPtr (me_inst m) = Some 0"
    using ok unfolding measuring_ok_def inst_ok_def by blast
  have "inst_epoch (me_inst m) = me_epoch m \<or> inst_epoch (me_inst m) = of_nat N"
    using True e inst_live_iff [OF ptr, of w] by auto
  then have "(of_nat j :: u64) = of_nat K \<or> (of_nat j :: u64) = of_nat N"
    using j K by simp
  moreover have "j < 2 ^ 64" "K < 2 ^ 64" using j(1) K(1) N by simp_all
  ultimately have "j = K" using j(1) K(1) N by (auto simp: u64_of_nat_eq)
  then obtain svc where "made_by (meterOf (me_provider m) svc) (me_inst m)" using made by blast
  then show ?thesis by (rule measure_calls [OF True])
next
  case False
  then show ?thesis by (simp add: measure_dead)
qed

lemma finish_keeps:
  assumes ok: "sys_ok meterOf N s" and N: "N < 2 ^ 64" and step: "finish_event api t late s = Some s'"
  shows "sys_ok meterOf N s'"
proof -
  have pok: "proc_ok meterOf N (sy_proc s)" and cok: "clients_ok meterOf N s" and hok: "hist_ok meterOf s"
    using ok by (simp_all add: sys_ok_def)
  obtain m where m: "sy_measuring s t = Some m" using step by (auto simp: finish_event_def split: option.splits)
  let ?w = "world_at (if late then now_epoch s else me_epoch m) s"
  let ?w1 = "measure_on api (me_inst m) (me_int m) (me_float m) (me_labels m) ?w"
  have mok: "measuring_ok meterOf N m" using cok m by (simp add: clients_ok_def)
  have "w_epochs ?w 0 = me_epoch m \<or> w_epochs ?w 0 = of_nat N" using pok by (simp add: proc_ok_def)
  from measuring_calls [OF mok N this, of api "me_int m" "me_float m" "me_labels m"] obtain cs
    where cs: "w_calls ?w1 = w_calls (sy_world s) @ cs" "\<forall>c \<in> set cs. call_on meterOf (me_provider m) c"
    by (simp only: world_at_frame) blast
  have s': "s' = (put_world ?w1 s)\<lparr>sy_measuring := (sy_measuring s)(t := None),
      sy_hist := sy_hist s @ map (\<lambda>c. (me_provider m, me_alive m, me_inst m, c)) cs\<rparr>"
    using step cs(1) by (simp add: finish_event_def m Let_def)
  have "hist_ok meterOf s'"
    using hok cs mok by (auto simp: hist_ok_def s' measuring_ok_def o_def)
  moreover have "clients_ok meterOf N s'" using cok by (simp add: clients_ok_def s')
  moreover have "proc_ok meterOf N (sy_proc s')" using proc_ok_caches [OF pok] by (simp add: s')
  ultimately show ?thesis by (simp add: sys_ok_def)
qed

lemma measure_keeps:
  assumes ok: "sys_ok meterOf N s" and step: "measure_event t j n x k s = Some s'"
  shows "sys_ok meterOf N s'"
proof -
  have pok: "proc_ok meterOf N (sy_proc s)" and cok: "clients_ok meterOf N s" and hok: "hist_ok meterOf s"
    using ok by (simp_all add: sys_ok_def)
  let ?mp = "t_metricProvider (p_tel (sy_proc s))"
  let ?m = "\<lparr> me_inst = sy_insts s ! j, me_int = n, me_float = x, me_labels = k, me_epoch = now_epoch s,
    me_provider = ?mp, me_alive = provider_live (sy_proc s) ?mp \<rparr>"
  have j: "j < length (sy_insts s)" and s': "s' = s\<lparr>sy_measuring := (sy_measuring s)(t \<mapsto> ?m)\<rparr>"
    using step by (simp_all add: measure_event_def Let_def split: if_splits)
  have "inst_ok meterOf ?mp N (sy_insts s ! j)" using cok j by (simp add: clients_ok_def)
  then have "measuring_ok meterOf N ?m"
    using pok proc_provider_live [OF pok] by (auto simp: measuring_ok_def proc_ok_def)
  then show ?thesis
    using pok cok hok by (simp add: sys_ok_def clients_ok_def hist_ok_def s')
qed

lemma sys_step_keeps:
  assumes ok: "sys_ok meterOf N s" and N: "N < 2 ^ 64" and step: "sys_step meterOf api ev s = Some s'"
  shows "\<exists>N'. N' \<le> Suc N \<and> sys_ok meterOf N' s'"
proof (cases ev)
  case (Lifecycle e)
  then show ?thesis using lifecycle_keeps [OF ok] step by auto
next
  case (Derive j a)
  then have "j < length (sy_insts s)" "s' = s\<lparr>sy_insts := with_attrs api (sy_insts s ! j) a # sy_insts s\<rparr>"
    using step by (auto split: if_splits)
  then have "sys_ok meterOf N s'"
    using ok by (auto simp: sys_ok_def clients_ok_def hist_ok_def intro: inst_ok_with_attrs)
  then show ?thesis by (intro exI [where x = N]) simp
next
  case (Ask which q)
  then have "sys_ok meterOf N s'" using ask_keeps [OF ok] step by simp
  then show ?thesis by (intro exI [where x = N]) simp
next
  case (Measure t j n x k)
  then have "sys_ok meterOf N s'" using measure_keeps [OF ok] step by simp
  then show ?thesis by (intro exI [where x = N]) simp
next
  case (Finish t late)
  then have "sys_ok meterOf N s'" using finish_keeps [OF ok N] step by simp
  then show ?thesis by (intro exI [where x = N]) simp
qed

lemma new_system_ok: "sys_ok meterOf 0 (new_system meterOf cfg)"
proof -
  have "provider_owned (new_proc meterOf cfg)"
    by (simp add: provider_owned_def new_proc_def newTelemetry_def Let_def refreshTracerLocked_def)
  moreover have "\<exists>r svc. t_registry (p_tel (new_proc meterOf cfg)) = Some r \<and> reg_ok r \<and>
      rg_meter r = meterOf (t_metricProvider (p_tel (new_proc meterOf cfg))) svc"
    using reg_ok_new by (auto simp: new_proc_def newTelemetry_def Let_def)
  moreover have "t_epoch (p_tel (new_proc meterOf cfg)) = 0"
    by (simp add: new_proc_def newTelemetry_def Let_def)
  ultimately show ?thesis
    using life_new [of meterOf cfg] by (simp add: sys_ok_def proc_ok_def clients_ok_def hist_ok_def new_system_def)
qed

lemma sys_run_ok:
  "sys_run meterOf api cfg n s \<Longrightarrow> n \<le> 2 ^ 64 \<Longrightarrow> \<exists>N \<le> n. sys_ok meterOf N s"
proof (induction rule: sys_run.induct)
  case start
  then show ?case using new_system_ok by (intro exI [where x = 0]) simp
next
  case (event n s ev s')
  then obtain N where N: "N \<le> n" "sys_ok meterOf N s" by auto
  then have "N < 2 ^ 64" using event.prems by simp
  from sys_step_keeps [OF N(2) this event.hyps(2)] show ?case using N(1) by (meson Suc_le_mono order_trans)
qed

end
