(* ===== verification/System_Bounds.thy ===== *)
theory System_Bounds
  imports System_Props Lifecycle_Races
begin

text \<open>
  The bounds of the composed system: every cache keeps its invariant and the bound of its
  construction, and every registry, installed or replaced, the instrument limit. Then the two
  properties of the system and a run that they speak of.
\<close>

section \<open>Caches\<close>

definition cache_bound :: "Config \<Rightarrow> int" where
  "cache_bound cfg =
     (let n = cs_MaxCardinality (mx_CardinalityDetector (tl_Metrics (cf_TelConfig cfg)))
      in if n \<le> 0 then defaultMaxCardinality else n)"

definition cache_good :: "'set attr_api \<Rightarrow> Config \<Rightarrow> 'set attrCache \<Rightarrow> bool" where
  "cache_good api cfg c \<longleftrightarrow> cache_wf api c \<and>
     (ac_maxEntries c = defaultMaxCardinality \<or> ac_maxEntries c = cache_bound cfg)"

lemma Allow_good: "cache_good api cfg c \<Longrightarrow> cache_good api cfg (the (Allow (Some c) labels))"
  by (auto simp: Allow_def cache_good_def cache_wf_def)

lemma new_good: "cache_good api cfg (newAttrCache defaultMaxCardinality)"
  using cache_wf_new [of defaultMaxCardinality api]
  by (simp add: cache_good_def newAttrCache_def Let_def defaultMaxCardinality_def in_i64_def)

lemma bound_of_new: "ac_maxEntries (newAttrCache (cache_bound cfg)) = cache_bound cfg"
  by (simp add: newAttrCache_def Let_def cache_bound_def defaultMaxCardinality_def)

lemma good_upd:
  "cache_good api cfg (c\<lparr>ac_denyUnknown := d\<rparr>) = cache_good api cfg c"
  "cache_good api cfg (c\<lparr>ac_detector := x\<rparr>) = cache_good api cfg c"
  "cache_good api cfg (c\<lparr>ac_allowed := y\<rparr>) = cache_good api cfg c"
  by (simp_all add: cache_good_def cache_wf_def)

lemma built_good:
  assumes "t_cfg (p_tel p) = cfg" and "in_i64 (cache_bound cfg)"
  shows "cache_good api cfg (build_cache p)"
proof -
  have "cache_wf api (newAttrCache (cache_bound cfg))" by (rule cache_wf_new [OF assms(2)])
  then have good: "cache_good api cfg (newAttrCache (cache_bound cfg))"
    by (simp add: cache_good_def bound_of_new)
  have "detector_cfg p = mx_CardinalityDetector (tl_Metrics (cf_TelConfig cfg))"
    using assms(1) by (simp add: detector_cfg_def)
  then show ?thesis
    using good by (simp add: build_cache_def Let_def cache_bound_def SetDenyUnknown_def SetDetector_def good_upd
        Allow_def split: if_splits)
qed

lemma emit_good:
  "\<forall>a. cache_good api cfg (w_caches w a) \<Longrightarrow> cache_good api cfg (w_caches (measure_on api i n x k w) a)"
proof (cases "inst_live w i")
  case True
  assume good: "\<forall>a. cache_good api cfg (w_caches w a)"
  have find: "cache_good api cfg (snd (find_labels api c k))" if "cache_good api cfg c" for c
  proof -
    have "ac_maxEntries (snd (find_labels api c k)) = ac_maxEntries c"
      by (auto simp: find_labels_def lookup_labels_eq intern_labels_config dest: noteDenied_frame
          split: prod.splits)
    then show ?thesis using that cache_lookup.find_inv [of api c k] by (simp add: cache_good_def)
  qed
  show ?thesis
  proof (cases i)
    case (ICounter c)
    then show ?thesis using True good find by (simp add: fast_counter.emit_cache)
  next
    case (IHistogram h)
    then show ?thesis using True good find by (simp add: fast_hist.emit_cache)
  next
    case (IGauge g)
    then show ?thesis using True good find by (simp add: fast_gauge.emit_cache)
  qed
qed (simp add: measure_dead)

section \<open>Registries\<close>

definition reg_good :: "Config \<Rightarrow> ('opt, 'inst, 'set) registry \<Rightarrow> bool" where
  "reg_good cfg r \<longleftrightarrow> reg_ok r \<and> rg_maxInstruments r = maxInstrumentsFromCfg cfg"

lemma new_registry_limit:
  "rg_maxInstruments (newRegistryWithCache m a p e (maxInstrumentsFromCfg cfg)) = maxInstrumentsFromCfg cfg"
  by (simp add: newRegistryWithCache_def Let_def maxInstrumentsFromCfg_def defaultMaxInstruments_def)

lemma new_registry_good: "reg_good cfg (newRegistryWithCache m a (Some 0) e (maxInstrumentsFromCfg cfg))"
  by (simp only: reg_good_def reg_ok_new new_registry_limit simp_thms)

lemma ask_good: "reg_good cfg r \<Longrightarrow> ask q r w = (x, r1, w1) \<Longrightarrow> reg_good cfg r1 \<and> w_caches w1 = w_caches w"
  using ask_asked [of r q w x r1 w1] by (simp add: reg_good_def asked_def same_frame_def)

definition bounded :: "'set attr_api \<Rightarrow> Config \<Rightarrow> ('opt, 'inst, 'set) system \<Rightarrow> bool" where
  "bounded api cfg s \<longleftrightarrow> t_cfg (p_tel (sy_proc s)) = cfg \<and>
     (\<forall>a. cache_good api cfg (p_caches (sy_proc s) a)) \<and>
     (\<forall>r. t_registry (p_tel (sy_proc s)) = Some r \<or> r \<in> set (sy_old s) \<longrightarrow> reg_good cfg r)"

lemma lifecycle_bounded:
  assumes ok: "bounded api cfg s" and bound: "in_i64 (cache_bound cfg)"
    and step: "lifecycle_event meterOf ev s = Some s'"
  shows "bounded api cfg s'"
proof -
  let ?p = "sy_proc s"
  obtain p where p: "tel_exec meterOf [ev] ?p = Some p" and s'_def: "s' = s\<lparr>sy_proc := p, sy_old :=
      (if t_epoch (p_tel p) = now_epoch s then sy_old s
       else case t_registry (p_tel ?p) of None \<Rightarrow> sy_old s | Some r \<Rightarrow> r # sy_old s)\<rparr>"
    using step by (auto simp: lifecycle_event_def split: option.splits)
  have s': "sy_proc s' = p" "set (sy_old s') \<subseteq> set (sy_old s) \<union> set_option (t_registry (p_tel ?p))"
    unfolding s'_def by (auto split: option.split)
  note frame = tel_event_frame [OF p]
  have cfg: "t_cfg (p_tel p) = cfg" using frame(1) ok by (simp add: bounded_def)
  have here: "t_cfg (p_tel ?p) = cfg" "cache_good api cfg (p_caches ?p a)" for a
    using ok by (simp_all add: bounded_def)
  have "cache_good api cfg (p_caches p a)" for a
    using frame(3) [of a] here new_good [of api cfg] built_good [OF here(1) bound, of api]
      Allow_good [OF here(2)] by metis
  moreover have "reg_good cfg r" if "t_registry (p_tel p) = Some r" for r
    using frame(2)
  proof
    assume "same_registry (p_tel p) (p_tel ?p)"
    then show ?thesis using ok that by (simp add: same_registry_def bounded_def)
  next
    assume "next_registry meterOf (p_tel p) (p_tel ?p)"
    then show ?thesis using ok that new_registry_good by (auto simp: next_registry_def bounded_def)
  qed
  moreover have "reg_good cfg r" if "r \<in> set (sy_old s')" for r
    using that s'(2) ok by (auto simp: bounded_def)
  ultimately show ?thesis using cfg by (auto simp: bounded_def s'(1))
qed

lemma ask_bounded:
  assumes ok: "bounded api cfg s" and step: "ask_event which q s = Some s'"
  shows "bounded api cfg s'"
proof (cases which)
  case None
  obtain r where r: "t_registry (p_tel (sy_proc s)) = Some r"
    using step by (auto simp: ask_event_def None Let_def split: option.splits)
  obtain x r1 w1 where a: "ask q r (world_at (now_epoch s) s) = (x, r1, w1)" by (metis prod_cases3)
  then have s': "sy_proc s' = (sy_proc s)\<lparr>p_tel := (p_tel (sy_proc s))\<lparr>t_registry := Some r1\<rparr>,
      p_caches := w_caches w1\<rparr>" "sy_old s' = sy_old s"
    using step r by (auto simp: ask_event_def None Let_def split: sum.splits)
  have "reg_good cfg r1 \<and> w_caches w1 = p_caches (sy_proc s)"
    using ask_good [of cfg, OF _ a] ok r by (simp add: bounded_def)
  then show ?thesis using ok by (auto simp: bounded_def s')
next
  case (Some j)
  have j: "j < length (sy_old s)" using step by (auto simp: ask_event_def Some Let_def split: if_splits)
  obtain x r1 w1 where a: "ask q (sy_old s ! j) (world_at (now_epoch s) s) = (x, r1, w1)"
    by (metis prod_cases3)
  then have s': "sy_proc s' = (sy_proc s)\<lparr>p_caches := w_caches w1\<rparr>" "sy_old s' = (sy_old s)[j := r1]"
    using step j by (auto simp: ask_event_def Some Let_def split: sum.splits)
  have "reg_good cfg r1 \<and> w_caches w1 = p_caches (sy_proc s)"
    using ask_good [of cfg, OF _ a] ok nth_mem [OF j] by (simp add: bounded_def)
  then show ?thesis
    using ok set_update_subset_insert [of "sy_old s" j r1] by (auto simp: bounded_def s')
qed

lemma finish_bounded:
  assumes ok: "bounded api cfg s" and step: "finish_event api t late s = Some s'"
  shows "bounded api cfg s'"
proof -
  obtain m where "sy_measuring s t = Some m" using step by (auto simp: finish_event_def split: option.splits)
  then have s': "sy_old s' = sy_old s" "sy_proc s' = (sy_proc s)\<lparr>p_caches := w_caches (measure_on api (me_inst m)
      (me_int m) (me_float m) (me_labels m) (world_at (if late then now_epoch s else me_epoch m) s))\<rparr>"
    using step by (auto simp: finish_event_def Let_def)
  show ?thesis using ok by (auto simp: bounded_def s' intro!: emit_good)
qed

lemma sys_run_bounded:
  assumes "sys_run meterOf api cfg n s" and bound: "in_i64 (cache_bound cfg)"
  shows "bounded api cfg s"
  using assms(1)
proof (induction rule: sys_run.induct)
  case start
  show ?case
    using new_good [of api cfg] new_registry_good [of cfg]
    by (auto simp: bounded_def new_system_def new_proc_def newTelemetry_def Let_def refreshTracerLocked_def
        split: option.split)
next
  case (event n s ev s')
  show ?case
  proof (cases ev)
    case (Lifecycle e)
    then show ?thesis using lifecycle_bounded [OF event.IH bound] event.hyps(2) by simp
  next
    case (Ask which q)
    then show ?thesis using ask_bounded [OF event.IH] event.hyps(2) by simp
  next
    case (Finish t late)
    then show ?thesis using finish_bounded [OF event.IH] event.hyps(2) by simp
  qed (use event in \<open>auto simp: bounded_def measure_event_def Let_def split: if_splits\<close>)
qed

section \<open>A run\<close>

text \<open>
  A run: a counter of the started telemetry begins a measurement, Shutdown releases the provider, and
  only then the measurement calls it; a second measurement of the same counter calls nothing.
\<close>

definition prov_meters :: "(string, meterProvider \<times> string) meters" where
  "prov_meters mp service = \<lparr> Int64Counter = (\<lambda>n os. Inr (mp, n)),
     Float64Histogram = (\<lambda>n os. Inr (mp, n)), Int64Gauge = (\<lambda>n os. Inr (mp, n)) \<rparr>"

definition late_call :: "(string, meterProvider \<times> string, keyValue list) sys_event list" where
  "late_call = map Lifecycle (start_events 0 fine) @
     [Ask None (WantCounter ''c'' []), Measure 7 0 5 (Fin 0) (One [])] @
     map Lifecycle (Begin 1 WantShutdown # replicate 4 (Go 1 fine)) @
     [Finish 7 False, Measure 7 0 6 (Fin 0) (One []), Finish 7 False]"

lemma late_call_run:
  "case sys_exec prov_meters list_api late_call (new_system prov_meters demo_config) of
     None \<Rightarrow> False
   | Some s \<Rightarrow> map (\<lambda>(mp, alive, i, c). (mp, alive, c)) (sy_hist s) =
       [(SdkMeter 1, True, CounterAdd (SdkMeter 1, ''c'') 5 [])] \<and> p_live (sy_proc s) = {}"
  by code_simp


lemma late_call_reached:
  "\<exists>s. sys_run prov_meters list_api demo_config (length late_call) s \<and> sy_hist s \<noteq> [] \<and>
    sys_exec prov_meters list_api late_call (new_system prov_meters demo_config) = Some s"
proof -
  obtain s where s: "sys_exec prov_meters list_api late_call (new_system prov_meters demo_config) = Some s"
    "sy_hist s \<noteq> []"
    using late_call_run by (auto split: option.splits)
  then show ?thesis using sys_exec_run [OF sys_run.start s(1)] by auto
qed

section \<open>The properties\<close>

text \<open>
  C9: A measurement reaches only the provider that was installed, and not yet shut down, when the
  measurement began: under any interleaving of Start, Shutdown, AllowSubjects, requests to current
  and replaced registries, derived instruments and measurements, with fewer than \<open>2 ^ 64\<close> events,
  every call of the SDK was made on an instrument of the metric provider that the telemetry had at
  that moment, and this provider, when it was not the noop one, was live.
\<close>

theorem measurements_follow_provider:
  assumes "sys_run meterOf api cfg n s" and "n < 2 ^ 64"
  shows "map (\<lambda>(mp, alive, i, c). c) (sy_hist s) = w_calls (sy_world s) \<and>
    (\<forall>(mp, alive, i, c) \<in> set (sy_hist s). alive \<and> call_on meterOf mp c)"
  using sys_run_ok [OF assms(1)] assms(2) by (auto simp: sys_ok_def hist_ok_def)

theorem measurements_follow_provider_witness:
  "\<exists>s. sys_exec prov_meters list_api late_call (new_system prov_meters demo_config) = Some s \<and>
     sy_hist s \<noteq> [] \<and> (\<forall>(mp, alive, i, c) \<in> set (sy_hist s). alive \<and> call_on prov_meters mp c)"
proof -
  obtain s where s: "sys_run prov_meters list_api demo_config (length late_call) s" "sy_hist s \<noteq> []"
    "sys_exec prov_meters list_api late_call (new_system prov_meters demo_config) = Some s"
    using late_call_reached by blast
  have "length late_call < 2 ^ 64" by (simp add: late_call_def start_events_def)
  from measurements_follow_provider [OF s(1) this] s(2,3) show ?thesis by blast
qed

text \<open>
  C10: The system keeps its types and its bounds: in every reachable state each cache the process
  has ever built satisfies the cache invariant with the bound of the configuration or the default
  one, never exceeding it, and each registry, installed or replaced, holds at most the configured
  number of instruments, all of them stamped with the registry's epoch.
\<close>

theorem system_bounded:
  assumes "sys_run meterOf api cfg n s" and "in_i64 (cache_bound cfg)"
  shows "(\<forall>a. cache_wf api (p_caches (sy_proc s) a) \<and>
      ac_size (p_caches (sy_proc s) a) \<le> max 100 (cache_bound cfg)) \<and>
    (\<forall>r. t_registry (p_tel (sy_proc s)) = Some r \<or> r \<in> set (sy_old s) \<longrightarrow>
      instrumentCount r \<le> maxInstrumentsFromCfg cfg \<and> (\<forall>i \<in> reg_insts r. inst_epoch i = rg_epoch r))"
proof -
  have b: "bounded api cfg s" by (rule sys_run_bounded [OF assms])
  have "ac_size c \<le> max 100 (cache_bound cfg)" if "cache_good api cfg c" for c
    using that cache_wf_size [of api c] by (auto simp: cache_good_def defaultMaxCardinality_def)
  then have "\<forall>a. cache_wf api (p_caches (sy_proc s) a) \<and>
      ac_size (p_caches (sy_proc s) a) \<le> max 100 (cache_bound cfg)"
    using b by (simp add: bounded_def cache_good_def)
  moreover have "\<forall>r. t_registry (p_tel (sy_proc s)) = Some r \<or> r \<in> set (sy_old s) \<longrightarrow>
      instrumentCount r \<le> maxInstrumentsFromCfg cfg \<and> (\<forall>i \<in> reg_insts r. inst_epoch i = rg_epoch r)"
    using b unfolding bounded_def reg_good_def reg_ok_def by metis
  ultimately show ?thesis ..
qed

theorem system_bounded_witness:
  "\<exists>s. sys_exec prov_meters list_api late_call (new_system prov_meters demo_config) = Some s \<and>
     (\<forall>a. ac_size (p_caches (sy_proc s) a) \<le> 100)"
proof -
  obtain s where s: "sys_run prov_meters list_api demo_config (length late_call) s"
    "sys_exec prov_meters list_api late_call (new_system prov_meters demo_config) = Some s"
    using late_call_reached by blast
  have "cache_bound demo_config = 100"
    by (simp add: cache_bound_def demo_config_def zeroConfig_def defaultMaxCardinality_def)
  then have "in_i64 (cache_bound demo_config)" "max 100 (cache_bound demo_config) = 100"
    by (simp_all add: in_i64_def)
  then show ?thesis using system_bounded [OF s(1)] s(2) by metis
qed

end
