(* ===== verification/System_Cardinality.thy ===== *)
theory System_Cardinality
  imports System_Bounds Registry_Conc
begin

text \<open>
  The cardinality guard of the whole process. An attribute cache is shared by every instrument of a
  registry, and several goroutines measure on them while others start and stop the telemetry; still
  the SDK sees, from all the instruments that share a cache and the same own options, at most the
  cache's bound and two more distinct option lists. It rests on the ownership of the caches: an
  address that has been given out is never built on again.
\<close>

section \<open>Caches only grow\<close>

fun inst_cache :: "('inst, 'set) instrument \<Rightarrow> addr" where
  "inst_cache (ICounter c) = fc_cache c"
| "inst_cache (IHistogram h) = fh_cache h"
| "inst_cache (IGauge g) = fg_cache g"

fun inst_opts :: "('inst, 'set) instrument \<Rightarrow> 'set metricOption list" where
  "inst_opts (ICounter c) = fc_opts c"
| "inst_opts (IHistogram h) = fh_recordOpts h"
| "inst_opts (IGauge g) = fg_recordOpts g"

fun call_opts :: "('inst, 'set) sdkCall \<Rightarrow> 'set metricOption list" where
  "call_opts (CounterAdd i n os) = os"
| "call_opts (HistogramRecord i x os) = os"
| "call_opts (GaugeRecord i n os) = os"

definition grows :: "'set attrCache \<Rightarrow> 'set attrCache \<Rightarrow> bool" where
  "grows c c' \<longleftrightarrow> dom (cache_view c) \<subseteq> dom (cache_view c')"

lemma grows_refl [simp]: "grows c c"
  by (simp add: grows_def)

lemma grows_Allow [simp]: "grows c (the (Allow (Some c) labels))"
  by (simp add: grows_def Allow_def cache_view_def [abs_def])

text \<open>The option lists that an instrument with options os can use with a cache.\<close>

definition emitted_opts :: "'set attr_api \<Rightarrow> 'set metricOption list \<Rightarrow> 'set attrCache \<Rightarrow> 'set metricOption list set" where
  "emitted_opts api os c = insert os (insert (os @ se_addOpts (overflow_for api))
     ((\<lambda>k. os @ se_addOpts (entry_for api k)) ` dom (cache_view c)))"

lemma emitted_opts_grow: "grows c c' \<Longrightarrow> emitted_opts api os c \<subseteq> emitted_opts api os c'"
  by (auto simp: grows_def emitted_opts_def)

lemma record_opts [simp]:
  "se_recordOpts (entry_for api k) = se_addOpts (entry_for api k)"
  "se_recordOpts (overflow_for api) = se_addOpts (overflow_for api)"
  by (simp_all add: entry_for_def overflow_for_def newSubjectEntry_def)

lemma emitted_known:
  "fast_counter.known_opts api c (cache_view m) = emitted_opts api (fc_opts c) m"
  "fast_hist.known_opts api h (cache_view m) = emitted_opts api (fh_recordOpts h) m"
  "fast_gauge.known_opts api g (cache_view m) = emitted_opts api (fg_recordOpts g) m"
  by (simp_all add: emitted_opts_def fast_counter.known_opts_def fast_hist.known_opts_def
      fast_gauge.known_opts_def)

lemma emitted_opts_card:
  assumes "cache_wf api c"
  shows "finite (emitted_opts api os c)" and "int (card (emitted_opts api os c)) \<le> ac_maxEntries c + 2"
proof -
  let ?f = "\<lparr> fc_counter = (), fc_cache = 0, fc_epochPtr = None, fc_opts = os, fc_epoch = 0 \<rparr>"
  have fin: "finite (dom (cache_view c))" by (rule cache_wf_finite [OF assms])
  have k: "emitted_opts api os c = fast_counter.known_opts api ?f (cache_view c)"
    by (simp add: emitted_known)
  show "finite (emitted_opts api os c)" unfolding k by (rule fast_counter.known_opts_card(1) [OF fin])
  show "int (card (emitted_opts api os c)) \<le> ac_maxEntries c + 2"
    using fast_counter.known_opts_card(2) [OF fin, of api ?f] card_cache_view [OF assms] cache_wf_size [OF assms]
    unfolding k by linarith
qed

text \<open>A measurement changes only its instrument's cache, which grows, and its calls use what is in it.\<close>

lemma measure_emits:
  assumes wf: "cache_wf api (w_caches w (inst_cache i))"
  shows "a \<noteq> inst_cache i \<Longrightarrow> w_caches (measure_on api i n x k w) a = w_caches w a"
    and "grows (w_caches w (inst_cache i)) (w_caches (measure_on api i n x k w) (inst_cache i))"
    and "\<exists>cs. w_calls (measure_on api i n x k w) = w_calls w @ cs \<and> (\<forall>c \<in> set cs. call_opts c \<in>
      emitted_opts api (inst_opts i) (w_caches (measure_on api i n x k w) (inst_cache i)))"
proof -
  have frame: "w_caches (measure_on api i n x k w) =
      (if inst_live w i \<and> \<not> all_empty k
       then (w_caches w)(inst_cache i := snd (find_labels api (w_caches w (inst_cache i)) k)) else w_caches w)"
  proof (cases "inst_live w i")
    case True
    then show ?thesis
      by (cases i) (simp_all add: fast_counter.emit_cache fast_hist.emit_cache fast_gauge.emit_cache fun_eq_iff)
  qed (simp add: measure_dead)
  then show "a \<noteq> inst_cache i \<Longrightarrow> w_caches (measure_on api i n x k w) a = w_caches w a" by simp
  show "grows (w_caches w (inst_cache i)) (w_caches (measure_on api i n x k w) (inst_cache i))"
    unfolding frame grows_def using cache_lookup.find_keeps [OF wf] by (auto split: if_splits)
  show "\<exists>cs. w_calls (measure_on api i n x k w) = w_calls w @ cs \<and> (\<forall>c \<in> set cs. call_opts c \<in>
      emitted_opts api (inst_opts i) (w_caches (measure_on api i n x k w) (inst_cache i)))"
  proof (cases i)
    case (ICounter c)
    then show ?thesis using fast_counter.emit_known(4) [of api w c n k] wf by (fastforce simp: emitted_known)
  next
    case (IHistogram h)
    then show ?thesis using fast_hist.emit_known(4) [of api w h x k] wf by (fastforce simp: emitted_known)
  next
    case (IGauge g)
    then show ?thesis using fast_gauge.emit_known(4) [of api w g n k] wf by (fastforce simp: emitted_known)
  qed
qed

section \<open>Addresses\<close>

text \<open>Every cache in use is at an address that has been given out.\<close>

fun pc_alloc :: "nat \<Rightarrow> tel_pc \<Rightarrow> bool" where
  "pc_alloc n (HaveCache sp a det) = (a < n)"
| "pc_alloc n (HaveMonitor sp a det m) = (a < n)"
| "pc_alloc n pc = True"

definition alloc_ok :: "('opt, 'inst, 'set) proc \<Rightarrow> bool" where
  "alloc_ok p \<longleftrightarrow> (\<forall>r. t_registry (p_tel p) = Some r \<longrightarrow> rg_cache r < p_next p) \<and>
     (\<forall>t. pc_alloc (p_next p) (p_pcs p t))"

lemma pc_alloc_mono: "pc_alloc n pc \<Longrightarrow> n \<le> m \<Longrightarrow> pc_alloc m pc"
  by (cases pc) simp_all

lemma alloc_goto:
  assumes "alloc_ok p" "p_pcs q = p_pcs p" "p_next p \<le> p_next q" "pc_alloc (p_next q) pc"
    and "t_registry (p_tel q) = t_registry (p_tel p) \<or>
      (\<exists>r. t_registry (p_tel q) = Some r \<and> rg_cache r < p_next q)"
  shows "alloc_ok (goto_tel t pc q)"
proof -
  have "pc_alloc (p_next q) (p_pcs p u)" for u
    using assms(1) pc_alloc_mono [OF _ assms(3)] by (simp add: alloc_ok_def)
  moreover have "rg_cache r < p_next q" if "t_registry (p_tel q) = Some r" for r
    using assms(5)
  proof
    assume "t_registry (p_tel q) = t_registry (p_tel p)"
    then have "rg_cache r < p_next p" using assms(1) that by (simp add: alloc_ok_def)
    then show ?thesis using assms(3) by simp
  qed (use that in auto)
  ultimately show ?thesis using assms(2,4) by (simp add: alloc_ok_def)
qed

text \<open>What a step does to the caches that are already in use.\<close>

definition caches_kept :: "('opt, 'inst, 'set) proc \<Rightarrow> ('opt, 'inst, 'set) proc \<Rightarrow> bool" where
  "caches_kept p p' \<longleftrightarrow> p_next p \<le> p_next p' \<and> (\<forall>a < p_next p. grows (p_caches p a) (p_caches p' a))"

lemma caches_kept_same: "p_next p \<le> p_next p' \<Longrightarrow> p_caches p' = p_caches p \<Longrightarrow> caches_kept p p'"
  by (simp add: caches_kept_def)

lemma init_next: "initProviders out p = (res, p1) \<Longrightarrow> p_next p \<le> p_next p1"
  by (auto simp: initProviders_def Let_def new_meter_effect newTracerProvider_def acquire_def
      configureExportCompression_def release_def split: if_splits option.splits)


lemma init_kept:
  assumes "initProviders out p = (res, p1)" "p_caches p = p_caches p0" "p_next p = p_next p0"
  shows "caches_kept p0 p1"
  using init_next [OF assms(1)] init_keeps_caches [OF assms(1)] assms(2,3) by (simp add: caches_kept_same)

lemma alloc_step:
  assumes ok: "alloc_ok p" and step: "tel_step meterOf out t p = Some p'"
  shows "alloc_ok p' \<and> caches_kept p p'"
proof -
  note go = alloc_goto [OF ok]
  show ?thesis
  proof (cases "p_pcs p t")
    case Starting
    obtain res p1 where init: "initProviders out (p\<lparr>p_propagator := True\<rparr>) = (res, p1)"
      by (cases "initProviders out (p\<lparr>p_propagator := True\<rparr>)")
    have kept: "caches_kept p p1" using init_kept [OF init] by simp
    have frame: "p_pcs p1 = p_pcs p" "p_tel p1 = p_tel p" using initProviders_frame [OF init] by simp_all
    have "p_next p \<le> p_next p1" using kept by (simp add: caches_kept_def)
    moreover have "\<exists>pc. p' = goto_tel t pc p1 \<and> pc_alloc (p_next p1) pc"
      using step init by (auto simp: tel_step_defs Let_def Starting split: sum.splits)
    ultimately show ?thesis using kept frame go [of p1] by (auto simp: caches_kept_def)
  next
    case (HaveProviders sp)
    then show ?thesis
      using step by (auto simp: tel_step_defs Let_def HaveProviders caches_kept_def intro!: go)
  next
    case (RollingBack sp m e)
    have "p_pcs (rollbackStart m sp p) = p_pcs p" "p_tel (rollbackStart m sp p) = p_tel p"
      "p_next (rollbackStart m sp p) = p_next p" "p_caches (rollbackStart m sp p) = p_caches p"
      by (simp_all add: rollbackStart_def Let_def)
    then show ?thesis
      using step by (auto simp: tel_step_defs Let_def RollingBack caches_kept_def split: option.splits intro!: go)
  next
    case (HaveMonitor sp a det m)
    have "a < p_next p" using ok HaveMonitor by (auto simp: alloc_ok_def dest: spec [where x = t])
    then show ?thesis
      using step by (auto simp: tel_step_defs Let_def HaveMonitor install_def newRegistryWithCache_def
          caches_kept_def split: if_splits intro!: go)
  next
    case WantShutdown
    then show ?thesis
      using step by (auto simp: tel_step_defs Let_def uninstall_def newRegistryWithCache_def caches_kept_def
          split: if_splits intro!: go)
  next
    case (HaveCache sp a det)
    have "a < p_next p" using ok HaveCache by (auto simp: alloc_ok_def dest: spec [where x = t])
    then show ?thesis
      using step by (auto simp: tel_step_defs Let_def HaveCache acquire_def caches_kept_def
          split: if_splits option.splits intro!: go)
  qed (use step in \<open>auto simp: tel_step_defs Let_def acquire_def release_def caches_kept_def
      split: if_splits option.splits intro!: go\<close>)
qed

lemma alloc_event:
  assumes "alloc_ok p" "tel_exec meterOf [ev] p = Some p'"
  shows "alloc_ok p' \<and> caches_kept p p'"
proof (cases ev)
  case (Begin t pc)
  then have p': "p' = goto_tel t pc p" and "call_pc pc" using assms(2) by (simp_all split: if_splits)
  then have "pc_alloc n pc" for n by (elim call_pcE) simp_all
  then show ?thesis using alloc_goto [OF assms(1), of p pc] p' by (simp add: caches_kept_def)
next
  case (Go t out)
  then show ?thesis using assms alloc_step [OF assms(1)] by (auto split: option.splits)
qed


section \<open>The registries' instruments\<close>

definition reg_cached :: "('opt, 'inst, 'set) registry \<Rightarrow> bool" where
  "reg_cached r \<longleftrightarrow> (\<forall>i \<in> reg_insts r. inst_cache i = rg_cache r)"

lemma create_cache: "reg_create q r w = (Inr i, w1) \<Longrightarrow> inst_cache i = rg_cache r"
  by (cases q) (auto simp: createCounter_def createHistogram_def createGauge_def split: sum.splits)

lemma reg_store_frame:
  "reg_insts (reg_store q i r) \<subseteq> insert i (reg_insts r)" "rg_cache (reg_store q i r) = rg_cache r"
proof -
  show "reg_insts (reg_store q i r) \<subseteq> insert i (reg_insts r)"
    by (cases q; cases i) (simp_all add: reg_insts_put subset_insertI)
  show "rg_cache (reg_store q i r) = rg_cache r" by (cases q; cases i) (simp_all add: put_defs)
qed

lemma ask_cached:
  assumes "reg_cached r" "ask q r w = (x, r1, w1)"
  shows "reg_cached r1 \<and> rg_cache r1 = rg_cache r"
proof -
  have "r1 = r \<or> (\<exists>i. inst_cache i = rg_cache r \<and> r1 = reg_store q i r)"
    using assms(2) create_cache [of q r w]
    by (auto simp: ask_locked getOrCreate_locked_def split: option.splits if_splits sum.splits prod.splits)
  then show ?thesis
  proof
    assume "\<exists>i. inst_cache i = rg_cache r \<and> r1 = reg_store q i r"
    then obtain i where "inst_cache i = rg_cache r" "r1 = reg_store q i r" by blast
    then show ?thesis using assms(1) reg_store_frame [of q i r] unfolding reg_cached_def by auto
  qed (simp add: assms(1))
qed

section \<open>The invariant of the system\<close>

text \<open>A registry whose cache is in use.\<close>

definition reg_alloc :: "nat \<Rightarrow> ('opt, 'inst, 'set) registry \<Rightarrow> bool" where
  "reg_alloc n r \<longleftrightarrow> rg_cache r < n \<and> reg_cached r"

text \<open>A call of the SDK made with what the instrument's cache holds.\<close>

definition from_cache :: "'set attr_api \<Rightarrow> ('opt, 'inst, 'set) proc \<Rightarrow> ('inst, 'set) instrument \<Rightarrow> ('inst, 'set) sdkCall \<Rightarrow> bool" where
  "from_cache api p i c \<longleftrightarrow> inst_cache i < p_next p \<and>
     call_opts c \<in> emitted_opts api (inst_opts i) (p_caches p (inst_cache i))"

definition guarded :: "'set attr_api \<Rightarrow> ('opt, 'inst, 'set) system \<Rightarrow> bool" where
  "guarded api s \<longleftrightarrow> alloc_ok (sy_proc s) \<and>
     (\<forall>r. t_registry (p_tel (sy_proc s)) = Some r \<or> r \<in> set (sy_old s) \<longrightarrow> reg_alloc (p_next (sy_proc s)) r) \<and>
     (\<forall>i \<in> set (sy_insts s). inst_cache i < p_next (sy_proc s)) \<and>
     (\<forall>t m. sy_measuring s t = Some m \<longrightarrow> inst_cache (me_inst m) < p_next (sy_proc s)) \<and>
     (\<forall>(mp, alive, i, c) \<in> set (sy_hist s). from_cache api (sy_proc s) i c)"

lemma from_cache_later: "from_cache api p i c \<Longrightarrow> caches_kept p p' \<Longrightarrow> from_cache api p' i c"
  unfolding from_cache_def caches_kept_def using emitted_opts_grow by (meson less_le_trans subsetD)

lemma reg_alloc_later: "reg_alloc n r \<Longrightarrow> n \<le> m \<Longrightarrow> reg_alloc m r"
  by (simp add: reg_alloc_def)

lemma guardedD:
  assumes "guarded api s"
  shows "alloc_ok (sy_proc s)"
    and "t_registry (p_tel (sy_proc s)) = Some r \<or> r \<in> set (sy_old s) \<Longrightarrow> reg_alloc (p_next (sy_proc s)) r"
    and "i \<in> set (sy_insts s) \<Longrightarrow> inst_cache i < p_next (sy_proc s)"
    and "sy_measuring s t = Some m \<Longrightarrow> inst_cache (me_inst m) < p_next (sy_proc s)"
    and "(mp, alive, i, c) \<in> set (sy_hist s) \<Longrightarrow> from_cache api (sy_proc s) i c"
  using assms unfolding guarded_def by blast+

text \<open>A step that keeps the caches and only adds clients whose caches are in use.\<close>

lemma guarded_later:
  assumes ok: "guarded api s" and kept: "caches_kept (sy_proc s) (sy_proc s')" and alloc: "alloc_ok (sy_proc s')"
    and regs: "\<And>r. t_registry (p_tel (sy_proc s')) = Some r \<or> r \<in> set (sy_old s') \<Longrightarrow>
      (t_registry (p_tel (sy_proc s)) = Some r \<or> r \<in> set (sy_old s)) \<or> reg_alloc (p_next (sy_proc s')) r"
    and insts: "\<And>i. i \<in> set (sy_insts s') \<Longrightarrow> i \<in> set (sy_insts s) \<or> inst_cache i < p_next (sy_proc s')"
    and meas: "\<And>t m. sy_measuring s' t = Some m \<Longrightarrow> sy_measuring s t = Some m \<or> me_inst m \<in> set (sy_insts s)"
    and hist: "\<And>mp alive i c. (mp, alive, i, c) \<in> set (sy_hist s') \<Longrightarrow>
      (mp, alive, i, c) \<in> set (sy_hist s) \<or> from_cache api (sy_proc s') i c"
  shows "guarded api s'"
proof -
  have le: "p_next (sy_proc s) \<le> p_next (sy_proc s')" using kept by (simp add: caches_kept_def)
  note D = guardedD [OF ok]
  have "reg_alloc (p_next (sy_proc s')) r" if "t_registry (p_tel (sy_proc s')) = Some r \<or> r \<in> set (sy_old s')" for r
    using regs [OF that] D(2) reg_alloc_later [OF _ le] by blast
  moreover have "inst_cache i < p_next (sy_proc s')" if "i \<in> set (sy_insts s')" for i
    using insts [OF that] D(3) [of i] le by auto
  moreover have "inst_cache (me_inst m) < p_next (sy_proc s')" if "sy_measuring s' t = Some m" for t m
    using meas [OF that] D(3) [of "me_inst m"] D(4) [of t m] le by auto
  moreover have "from_cache api (sy_proc s') i c" if "(mp, alive, i, c) \<in> set (sy_hist s')" for mp alive i c
    using hist [OF that] D(5) from_cache_later [OF _ kept] by blast
  ultimately show ?thesis using alloc unfolding guarded_def by blast
qed


section \<open>Its steps\<close>

lemma lifecycle_guarded:
  assumes ok: "guarded api s" and step: "lifecycle_event meterOf ev s = Some s'"
  shows "guarded api s'"
proof -
  let ?p = "sy_proc s"
  obtain p where p: "tel_exec meterOf [ev] ?p = Some p" and s'_def: "s' = s\<lparr>sy_proc := p, sy_old :=
      (if t_epoch (p_tel p) = now_epoch s then sy_old s
       else case t_registry (p_tel ?p) of None \<Rightarrow> sy_old s | Some r \<Rightarrow> r # sy_old s)\<rparr>"
    using step by (auto simp: lifecycle_event_def split: option.splits)
  have s': "sy_proc s' = p" "sy_insts s' = sy_insts s" "sy_measuring s' = sy_measuring s" "sy_hist s' = sy_hist s"
    "set (sy_old s') \<subseteq> set (sy_old s) \<union> set_option (t_registry (p_tel ?p))"
    unfolding s'_def by (auto split: option.split)
  have eff: "alloc_ok p" "caches_kept ?p p" using alloc_event [OF guardedD(1) [OF ok] p] by simp_all
  show ?thesis
  proof (rule guarded_later [OF ok])
    fix r assume r: "t_registry (p_tel (sy_proc s')) = Some r \<or> r \<in> set (sy_old s')"
    show "(t_registry (p_tel ?p) = Some r \<or> r \<in> set (sy_old s)) \<or> reg_alloc (p_next (sy_proc s')) r"
    proof (cases "r \<in> set (sy_old s')")
      case True
      then show ?thesis using s'(5) by auto
    next
      case False
      then have inst: "t_registry (p_tel p) = Some r" using r s'(1) by simp
      have "rg_cache r < p_next p" using eff(1) inst by (simp add: alloc_ok_def)
      moreover have "reg_cached r" if "next_registry meterOf (p_tel p) (p_tel ?p)"
        using that inst by (auto simp: next_registry_def reg_cached_def reg_insts_def newRegistryWithCache_def)
      ultimately show ?thesis
        using tel_event_frame(2) [OF p] inst by (auto simp: same_registry_def reg_alloc_def s'(1))
    qed
  qed (use eff in \<open>simp_all add: s'\<close>)
qed

lemma asked_inst_cache:
  assumes "reg_ok r" "ask q r w = (Inr i, r1, w1)" "reg_cached r1"
  shows "inst_cache i = rg_cache r1"
  using ask_asked [OF assms(1,2)] assms(3) by (simp add: asked_def reg_cached_def)

lemma ask_guarded:
  assumes ok: "guarded api s" and sys: "sys_ok meterOf N s" and step: "ask_event which q s = Some s'"
  shows "guarded api s'"
proof -
  let ?p = "sy_proc s" and ?w = "world_at (now_epoch s) s"
  note D = guardedD [OF ok]
  obtain r x r1 w1 where a: "ask q r ?w = (x, r1, w1)" and r: "t_registry (p_tel ?p) = Some r \<or> r \<in> set (sy_old s)"
    and p': "p_next (sy_proc s') = p_next ?p" "p_pcs (sy_proc s') = p_pcs ?p" "p_caches (sy_proc s') = w_caches w1"
    and regs: "t_registry (p_tel (sy_proc s')) = t_registry (p_tel ?p) \<or> t_registry (p_tel (sy_proc s')) = Some r1"
      "set (sy_old s') \<subseteq> insert r1 (set (sy_old s))"
    and rest: "sy_measuring s' = sy_measuring s" "sy_hist s' = sy_hist s"
      "set (sy_insts s') = (case x of Inl e \<Rightarrow> {} | Inr i \<Rightarrow> {i}) \<union> set (sy_insts s)"
  proof (cases which)
    case None
    obtain r where r: "t_registry (p_tel ?p) = Some r"
      using step by (auto simp: ask_event_def None Let_def split: option.splits)
    obtain x r1 w1 where a: "ask q r ?w = (x, r1, w1)" by (metis prod_cases3)
    then have "s' = hand_out x (put_world w1 (s\<lparr>sy_proc := ?p\<lparr>p_tel := (p_tel ?p)\<lparr>t_registry := Some r1\<rparr>\<rparr>\<rparr>))"
      using step r by (simp add: ask_event_def None hand_out_def)
    then show ?thesis using a r by (intro that [of r x r1 w1]) auto
  next
    case (Some j)
    have j: "j < length (sy_old s)" using step by (auto simp: ask_event_def Some Let_def split: if_splits)
    obtain x r1 w1 where a: "ask q (sy_old s ! j) ?w = (x, r1, w1)" by (metis prod_cases3)
    then have "s' = hand_out x (put_world w1 (s\<lparr>sy_old := (sy_old s)[j := r1]\<rparr>))"
      using step j by (simp add: ask_event_def Some hand_out_def)
    then show ?thesis
      using a j set_update_subset_insert [of "sy_old s" j r1] by (intro that [of "sy_old s ! j" x r1 w1]) auto
  qed
  have alloc: "reg_alloc (p_next ?p) r" using D(2) r by blast
  have new: "reg_cached r1" "rg_cache r1 = rg_cache r" using ask_cached [OF _ a] alloc by (simp_all add: reg_alloc_def)
  have rok: "reg_ok r" using sys r unfolding sys_ok_def proc_ok_def clients_ok_def old_ok_def by auto
  have caches: "w_caches w1 = p_caches ?p" using ask_asked [OF rok a] by (simp add: asked_def)
  show ?thesis
  proof (rule guarded_later [OF ok])
    show "caches_kept ?p (sy_proc s')" using p' caches by (simp add: caches_kept_def)
    show "alloc_ok (sy_proc s')"
      using D(1) p' regs(1) new(2) alloc unfolding alloc_ok_def reg_alloc_def by auto
    show "i \<in> set (sy_insts s') \<Longrightarrow> i \<in> set (sy_insts s) \<or> inst_cache i < p_next (sy_proc s')" for i
      using rest(3) asked_inst_cache [OF rok _ new(1)] a new(2) alloc
      by (auto simp: reg_alloc_def p'(1) split: sum.splits)
    show "t_registry (p_tel (sy_proc s')) = Some r' \<or> r' \<in> set (sy_old s') \<Longrightarrow>
        (t_registry (p_tel ?p) = Some r' \<or> r' \<in> set (sy_old s)) \<or> reg_alloc (p_next (sy_proc s')) r'" for r'
      using regs new alloc by (auto simp: reg_alloc_def p'(1))
  qed (use rest in auto)
qed

lemma finish_guarded:
  assumes ok: "guarded api s" and wf: "\<And>a. cache_wf api (p_caches (sy_proc s) a)"
    and step: "finish_event api t late s = Some s'"
  shows "guarded api s'"
proof -
  note D = guardedD [OF ok]
  obtain m where m: "sy_measuring s t = Some m" using step by (auto simp: finish_event_def split: option.splits)
  let ?i = "me_inst m" and ?w = "world_at (if late then now_epoch s else me_epoch m) s"
  let ?w1 = "measure_on api ?i (me_int m) (me_float m) (me_labels m) ?w"
  have wfw: "cache_wf api (w_caches ?w (inst_cache ?i))" using wf by simp
  note E = measure_emits [OF wfw, where n = "me_int m" and x = "me_float m" and k = "me_labels m"]
  obtain cs where cs: "w_calls ?w1 = w_calls ?w @ cs"
    "\<forall>c \<in> set cs. call_opts c \<in> emitted_opts api (inst_opts ?i) (w_caches ?w1 (inst_cache ?i))"
    using E(3) by blast
  have s': "s' = (put_world ?w1 s)\<lparr>sy_measuring := (sy_measuring s)(t := None),
      sy_hist := sy_hist s @ map (\<lambda>c. (me_provider m, me_alive m, ?i, c)) cs\<rparr>"
    using step cs(1) by (simp add: finish_event_def m Let_def)
  have "grows (p_caches (sy_proc s) a) (w_caches ?w1 a)" for a
    using E(1) [of a] E(2) by (cases "a = inst_cache ?i") simp_all
  then have kept: "caches_kept (sy_proc s) (sy_proc s')" by (simp add: caches_kept_def s')
  have "from_cache api (sy_proc s') ?i c" if "c \<in> set cs" for c
    using that cs(2) D(4) [OF m] by (simp add: from_cache_def s')
  then show ?thesis
    using D(1) by (intro guarded_later [OF ok kept]) (auto simp: s' alloc_ok_def split: if_splits)
qed

lemma sys_run_guarded:
  assumes "sys_run meterOf api cfg n s" "n \<le> 2 ^ 64" "in_i64 (cache_bound cfg)"
  shows "guarded api s"
  using assms(1,2)
proof (induction rule: sys_run.induct)
  case start
  show ?case
    by (auto simp: guarded_def new_system_def new_proc_def newTelemetry_def Let_def refreshTracerLocked_def
        alloc_ok_def reg_alloc_def reg_cached_def reg_insts_def newRegistryWithCache_def split: option.split)
next
  case (event n s ev s')
  have ok: "guarded api s" using event by simp
  obtain N where sys: "sys_ok meterOf N s" using sys_run_ok [OF event.hyps(1)] event.prems by auto
  have wf: "cache_wf api (p_caches (sy_proc s) a)" for a
    using sys_run_bounded [OF event.hyps(1) assms(3)] by (simp add: bounded_def cache_good_def)
  have kept: "caches_kept (sy_proc s) (sy_proc s)" by (simp add: caches_kept_def)
  note D = guardedD [OF ok]
  show ?case
  proof (cases ev)
    case (Lifecycle e)
    then show ?thesis using lifecycle_guarded [OF ok] event.hyps(2) by simp
  next
    case (Ask which q)
    then show ?thesis using ask_guarded [OF ok sys] event.hyps(2) by simp
  next
    case (Finish t late)
    then show ?thesis using finish_guarded [OF ok wf] event.hyps(2) by simp
  next
    case (Measure t j n x k)
    then show ?thesis
      using event.hyps(2) D(1) by (intro guarded_later [OF ok]) (auto simp: measure_event_def Let_def kept split: if_splits)
  next
    case (Derive j a)
    then have "j < length (sy_insts s)" "s' = s\<lparr>sy_insts := with_attrs api (sy_insts s ! j) a # sy_insts s\<rparr>"
      using event.hyps(2) by (auto split: if_splits)
    moreover have "inst_cache (with_attrs api i a) = inst_cache i" for i :: "('b, 'c) instrument"
      by (cases i) (simp_all add: Counter_WithAttrs_def Histogram_WithAttrs_def Gauge_WithAttrs_def)
    ultimately show ?thesis
      using D(1) D(3) nth_mem by (intro guarded_later [OF ok]) (auto simp: kept)
  qed
qed


section \<open>The property\<close>

definition used_opts :: "addr \<Rightarrow> 'set metricOption list \<Rightarrow> ('opt, 'inst, 'set) system \<Rightarrow> 'set metricOption list set" where
  "used_opts a os s = (\<lambda>(mp, alive, i, c). call_opts c) `
     {e \<in> set (sy_hist s). case e of (mp, alive, i, c) \<Rightarrow> inst_cache i = a \<and> inst_opts i = os}"

text \<open>
  C5: The cardinality guard holds for the whole process: under any interleaving of Start, Shutdown,
  AllowSubjects, requests for instruments, derived instruments and measurements of any goroutines
  with any labels, the calls of the SDK ever made by all the counters, histograms and gauges that
  share one attribute cache and the same own options carry at most the cache's bound and two more
  distinct option lists, the bound being the configured one or the default of 100.
\<close>

theorem system_cardinality_bounded:
  assumes "sys_run meterOf api cfg n s" and "n \<le> 2 ^ 64" and "in_i64 (cache_bound cfg)"
  shows "finite (used_opts a os s) \<and> int (card (used_opts a os s)) \<le> ac_maxEntries (p_caches (sy_proc s) a) + 2 \<and>
    ac_maxEntries (p_caches (sy_proc s) a) \<in> {100, cache_bound cfg}"
proof -
  let ?c = "p_caches (sy_proc s) a"
  have good: "cache_good api cfg ?c" using sys_run_bounded [OF assms(1,3)] by (simp add: bounded_def)
  then have wf: "cache_wf api ?c" by (simp add: cache_good_def)
  have "used_opts a os s \<subseteq> emitted_opts api os ?c"
    using guardedD(5) [OF sys_run_guarded [OF assms]] unfolding used_opts_def from_cache_def by fastforce
  then have "finite (used_opts a os s)" "card (used_opts a os s) \<le> card (emitted_opts api os ?c)"
    using emitted_opts_card(1) [OF wf, of os] by (auto intro: finite_subset card_mono)
  moreover have "ac_maxEntries ?c \<in> {100, cache_bound cfg}"
    using good by (auto simp: cache_good_def defaultMaxCardinality_def)
  ultimately show ?thesis using emitted_opts_card(2) [OF wf, of os] by linarith
qed

text \<open>
  A telemetry whose caches hold one entry: a counter and a gauge measure with the label that takes it,
  and with two others, which share the overflow entry.
\<close>

definition one_entry :: Config where
  "one_entry = zeroConfig\<lparr>cf_TelConfig := (cf_TelConfig zeroConfig)\<lparr>tl_Enable := True,
     tl_Metrics := (tl_Metrics (cf_TelConfig zeroConfig))\<lparr>mx_CardinalityDetector :=
       (mx_CardinalityDetector (tl_Metrics (cf_TelConfig zeroConfig)))\<lparr>cs_MaxCardinality := 1\<rparr>\<rparr>\<rparr>\<rparr>"

definition shared_cache :: "(string, meterProvider \<times> string, keyValue list) sys_event list" where
  "shared_cache = map Lifecycle (start_events 0 fine) @
     [Ask None (WantCounter ''c'' []), Ask None (WantGauge ''g'' []),
      Measure 7 0 5 (Fin 0) (One ''a''), Measure 8 1 6 (Fin 0) (One ''a''), Finish 8 False, Finish 7 True,
      Measure 7 1 6 (Fin 0) (One ''b''), Finish 7 False, Measure 7 0 6 (Fin 0) (One ''c''), Finish 7 False]"

lemma shared_cache_run:
  "case sys_exec prov_meters list_api shared_cache (new_system prov_meters one_entry) of
     None \<Rightarrow> False
   | Some s \<Rightarrow> map (\<lambda>(mp, alive, i, c). (inst_cache i, inst_opts i)) (sy_hist s) = replicate 4 (2, []) \<and>
       length (remdups (map (\<lambda>(mp, alive, i, c). call_opts c) (sy_hist s))) = 2 \<and>
       ac_maxEntries (p_caches (sy_proc s) 2) = 1"
  by code_simp

theorem system_cardinality_bounded_witness:
  "\<exists>s. sys_exec prov_meters list_api shared_cache (new_system prov_meters one_entry) = Some s \<and>
     length (sy_hist s) = 4 \<and> card (used_opts 2 [] s) \<le> 3"
proof -
  obtain s where s: "sys_exec prov_meters list_api shared_cache (new_system prov_meters one_entry) = Some s"
    "map (\<lambda>(mp, alive, i, c). (inst_cache i, inst_opts i)) (sy_hist s) = replicate 4 (2, [])"
    "ac_maxEntries (p_caches (sy_proc s) 2) = 1"
    using shared_cache_run by (auto split: option.splits)
  have run: "sys_run prov_meters list_api one_entry (0 + length shared_cache) s"
    by (rule sys_exec_run [OF sys_run.start s(1)])
  have "0 + length shared_cache \<le> 2 ^ 64" by (simp add: shared_cache_def start_events_def)
  moreover have "in_i64 (cache_bound one_entry)"
    by (simp add: cache_bound_def one_entry_def in_i64_def)
  ultimately have "int (card (used_opts 2 [] s)) \<le> ac_maxEntries (p_caches (sy_proc s) 2) + 2"
    using system_cardinality_bounded [OF run] by blast
  moreover have "length (sy_hist s) = 4" using arg_cong [OF s(2), of length] by simp
  ultimately show ?thesis using s(1,3) by auto
qed

end
