(* ===== verification/Example_Basic.thy ===== *)
theory Example_Basic
  imports Tel_Init System_Correct
begin

text \<open>
  The example program (examples/basic/main.go), which uses the library as a client does: it prepares
  the environment, initialises the telemetry, creates a counter and a histogram, and measures on
  each tick of a ticker until its context is cancelled, by a signal or by itself after ten ticks;
  on the way out it shuts the telemetry down. What its select receives, and the clock, are the
  list of inputs it is given; \<open>os.Exit\<close>, after a fatal error, ends the process.
\<close>

section \<open>The program's state\<close>

text \<open>
  The environment, the observable state, the process with its telemetry, the instruments' world,
  the tick counter, whether the context is done, and the lines printed.
\<close>

record ('opt, 'inst, 'set) example =
  ex_env :: environment
  ex_obs :: obs
  ex_proc :: "('opt, 'inst, 'set) proc"
  ex_world :: "('inst, 'set) world"
  ex_i :: int
  ex_done :: bool
  ex_out :: "string list"

text \<open>A tick with the clock at the timer's start and stop, and the time the traced function takes.\<close>

record tick =
  tk_start :: int
  tk_stop :: int
  tk_since :: int

datatype received = Signalled | Ticked tick | CtxDone

datatype 'a ending = Running 'a | Returned 'a | Exited 'a

text \<open>
  The program's surroundings: what Init needs, the SDK's meters, attribute sets and spans, the
  rounding of floats, and what the exporters answer to Start and Shutdown.
\<close>

record ('opt, 'inst, 'set) surroundings =
  su_init :: init_api
  su_meters :: "('opt, 'inst) meters"
  su_attrs :: "'set attr_api"
  su_span :: "unit sdk_span"
  su_rnd :: "rat \<Rightarrow> float64"
  su_start :: outcome
  su_shutdown :: outcome

text \<open>os.Exit as the library's exit function: it is called, and nothing follows.\<close>

definition os_exit :: "int \<Rightarrow> obs \<Rightarrow> obs" where
  "os_exit code w = emit (ExitCalled code) w"

definition exited :: "obs \<Rightarrow> bool" where
  "exited w \<longleftrightarrow> list_ex (\<lambda>a. case a of ExitCalled c \<Rightarrow> True | _ \<Rightarrow> False) (ob_trace w)"

section \<open>Its steps\<close>

definition example_env :: "environment \<Rightarrow> environment" where
  "example_env e =
     (let e1 = e(''TEL_SERVICE_NAME'' \<mapsto> ''tel-example'', ''MONITOR_ENABLE'' \<mapsto> ''false'',
           ''LOG_ENCODE'' \<mapsto> ''console'')
      in if getenv e1 ''TEL_ENABLE'' = [] then e1(''TEL_ENABLE'' \<mapsto> ''false'') else e1)"

text \<open>The world the instruments see, and what a measurement leaves in the caches.\<close>

definition ex_view :: "('opt, 'inst, 'set) example \<Rightarrow> ('inst, 'set) world" where
  "ex_view s = (ex_world s)\<lparr>w_caches := p_caches (ex_proc s), w_epochs := (\<lambda>a. t_epoch (p_tel (ex_proc s)))\<rparr>"

definition ex_measured :: "('inst, 'set) world \<Rightarrow> ('opt, 'inst, 'set) example \<Rightarrow> ('opt, 'inst, 'set) example" where
  "ex_measured w s = s\<lparr>ex_world := w, ex_proc := (ex_proc s)\<lparr>p_caches := w_caches w\<rparr>\<rparr>"

text \<open>The context: the telemetry, of which there is one, and the component field.\<close>

definition example_ctx :: "unit goContext" where
  "example_ctx = WithFields (WrapContext Background ()) [StrField ''component'' ''example'']"

definition example_subject :: "int \<Rightarrow> string" where
  "example_subject i = ''demo.'' @ itoa (i mod 3)"

definition example_line :: "int \<Rightarrow> string" where
  "example_line i = ''recorded subject='' @ example_subject i @ '' n='' @ itoa i @ [CHR 0x0A]"

text \<open>
  A tick: the timer, the span around the sleep and the measurement, the timer's stop and the line.
  The traced function touches only the counter and TraceFunc only spans and logs.
\<close>

definition example_tick ::
  "('opt, 'inst, 'set) surroundings \<Rightarrow> ('inst, 'set) fastCounter \<Rightarrow> ('inst, 'set) fastHistogram \<Rightarrow> tick
     \<Rightarrow> ('opt, 'inst, 'set) example \<Rightarrow> ('opt, 'inst, 'set) example" where
  "example_tick su processed latency tk s =
     (let i = ex_i s + 1;
          timer = Timer_Start (tk_start tk) (NewTimer (Some latency));
          subject = example_subject i;
          (res, w1) = TraceFunc (su_span su) (su_rnd su) (\<lambda>t. t_tracer (p_tel (ex_proc s))) () example_ctx
             ''example.tick'' (\<lambda>ctx w. (Returns None, w)) (tk_since tk) (ex_obs s);
          w2 = (case res of
                  Returns (Some e) \<Rightarrow> ev_Msg (ev_Err (ErrorCtx w1 example_ctx) (Some e)) ''tick failed'' w1
                | _ \<Rightarrow> w1);
          m1 = Counter_AddWith (su_attrs su) processed 1 subject (ex_view s);
          m2 = snd (Timer_StopWith (su_attrs su) (su_rnd su) (tk_stop tk) timer subject m1);
          s1 = ex_measured m2 (s\<lparr>ex_i := i, ex_obs := w2, ex_out := ex_out s @ [example_line i]\<rparr>)
      in if i \<ge> 10 then s1\<lparr>ex_done := True\<rparr> else s1)"

text \<open>Shutdown as a whole call, and errors.Join.\<close>

definition tel_Shutdown ::
  "('opt, 'inst) meters \<Rightarrow> outcome \<Rightarrow> nat \<Rightarrow> ('opt, 'inst, 'set) proc
     \<Rightarrow> go_error list \<times> ('opt, 'inst, 'set) proc" where
  "tel_Shutdown meterOf out t p =
     (let p' = run_call meterOf out t (goto_tel t WantShutdown p)
      in (case p_pcs p' t of ShutdownDone errs \<Rightarrow> (errs, p') | _ \<Rightarrow> ([], p')))"

fun joined :: "go_error list \<Rightarrow> go_error option" where
  "joined [] = None"
| "joined (e # errs) = Some (case joined errs of None \<Rightarrow> e | Some r \<Rightarrow> e @ [CHR 0x0A] @ r)"

text \<open>The deferred function.\<close>

definition example_shutdown ::
  "('opt, 'inst, 'set) surroundings \<Rightarrow> ('opt, 'inst, 'set) example \<Rightarrow> ('opt, 'inst, 'set) example" where
  "example_shutdown su s =
     (case tel_Shutdown (su_meters su) (su_shutdown su) 0 (ex_proc s) of
        (errs, p) \<Rightarrow>
          let s1 = s\<lparr>ex_proc := p\<rparr>
          in (case joined errs of
                None \<Rightarrow> s1
              | Some e \<Rightarrow> s1\<lparr>ex_obs := ev_Msg (ev_Err (log_Error (ex_obs s1)) (Some e)) ''tel shutdown'' (ex_obs s1)\<rparr>))"

text \<open>
  The loop. When the context is done and a tick is due as well, select may take either; CtxDone
  when the context is not done is no input the program can receive, and leaves it waiting.
\<close>

fun example_loop ::
  "('opt, 'inst, 'set) surroundings \<Rightarrow> ('inst, 'set) fastCounter \<Rightarrow> ('inst, 'set) fastHistogram \<Rightarrow> received list
     \<Rightarrow> ('opt, 'inst, 'set) example \<Rightarrow> ('opt, 'inst, 'set) example ending" where
  "example_loop su processed latency [] s = Running s"
| "example_loop su processed latency (Signalled # rs) s =
     example_loop su processed latency rs (s\<lparr>ex_done := True\<rparr>)"
| "example_loop su processed latency (Ticked tk # rs) s =
     example_loop su processed latency rs (example_tick su processed latency tk s)"
| "example_loop su processed latency (CtxDone # rs) s =
     (if ex_done s
      then Returned (example_shutdown su (s\<lparr>ex_out := ex_out s @ [''shutting down'' @ [CHR 0x0A]], ex_done := True\<rparr>))
      else Running s)"

text \<open>
  main: from the environment to the loop. Of a process that has exited only what precedes the call of
  os.Exit has happened.
\<close>

definition example_main ::
  "('opt, 'inst, 'set) surroundings \<Rightarrow> environment \<Rightarrow> obs \<Rightarrow> received list \<Rightarrow> ('opt, 'inst, 'set) example ending" where
  "example_main su e w rs =
     (case Init (su_meters su) ((su_init su)\<lparr>ia_exit := os_exit\<rparr>) (su_start su) 0 (example_env e) w of
        (a, e1) \<Rightarrow>
          let p = app_proc a;
              s = \<lparr> ex_env = e1, ex_obs = app_obs a, ex_proc = p,
                   ex_world = \<lparr> w_caches = p_caches p, w_epochs = (\<lambda>x. 0), w_calls = [], w_logs = [],
                      w_registered = [] \<rparr>,
                   ex_i = 0, ex_done = False, ex_out = [] \<rparr>;
              fatal = (\<lambda>err msg. Exited (s\<lparr>ex_obs :=
                 Fatal_Msg os_exit (Fatal_Err (Fatal (ex_obs s)) (Some err)) msg (ex_obs s)\<rparr>));
              registry = tel_Registry (su_meters su) (p_next p) (p_tel p)
          in if exited (ex_obs s) then Exited s
             else (case Counter registry ''example.processed'' [] (ex_view s) of
                     (Inl err, r1, m1) \<Rightarrow> fatal err ''create counter''
                   | (Inr processed, r1, m1) \<Rightarrow>
                       (case Histogram r1 ''example.latency_seconds'' [] m1 of
                          (Inl err, r2, m2) \<Rightarrow> fatal err ''create histogram''
                        | (Inr latency, r2, m2) \<Rightarrow>
                            example_loop su processed latency rs
                              (ex_measured m2 (s\<lparr>ex_proc := p\<lparr>p_tel :=
                                 (p_tel p)\<lparr>t_registry := map_option (\<lambda>r. r2) (t_registry (p_tel p))\<rparr>\<rparr>\<rparr>)))))"

section \<open>What it does\<close>

lemma tel_Shutdown_alone:
  assumes "at_rest (p_pcs p t)" "t_started (p_tel p)"
    and "\<And>a. t_cardinality (p_tel p) = Some a \<Longrightarrow> RDetector a \<in> p_live p"
  obtains errs p' where "tel_Shutdown meterOf out t p = (errs, p')" "\<not> t_started (p_tel p')"
    "p_live p' = p_live p - tel_all_res (p_tel p)"
proof -
  let ?errs = "shutdown_errors out (t_shutdownFn (p_tel p)) (t_traceShutdown (p_tel p)) (t_monitor (p_tel p))"
  obtain p' where p': "tel_exec meterOf (shutdown_events t out) p = Some p'"
    "p_pcs p' = (p_pcs p)(t := ShutdownDone ?errs)" "\<not> t_started (p_tel p')"
    "p_live p' = p_live p - tel_all_res (p_tel p)"
    using shutdown_alone [where meterOf = meterOf and out = out, OF assms] by blast
  have "shutdown_events t out = Begin t WantShutdown # replicate 4 (Go t out)"
    by (simp add: shutdown_events_def eval_nat_numeral)
  then have "tel_exec meterOf (replicate 4 (Go t out)) (goto_tel t WantShutdown p) = Some p'"
    using p'(1) assms(1) by simp
  then have "run_call meterOf out t (goto_tel t WantShutdown p) = p'"
    by (rule run_call_exec) (simp add: p'(2))
  then have "tel_Shutdown meterOf out t p = (?errs, p')" by (simp add: tel_Shutdown_def p'(2))
  then show ?thesis using that p'(3,4) by blast
qed

text \<open>The process is the one that was started, up to its registry's instruments and its caches.\<close>

definition still :: "('opt, 'inst, 'set) proc \<Rightarrow> ('opt, 'inst, 'set) proc \<Rightarrow> bool" where
  "still p0 p \<longleftrightarrow> p_pcs p = p_pcs p0 \<and> p_live p = p_live p0 \<and> (\<exists>x. p_tel p = (p_tel p0)\<lparr>t_registry := x\<rparr>)"

lemma still_caches: "still p0 p \<Longrightarrow> still p0 (p\<lparr>p_caches := cs\<rparr>)"
  by (simp add: still_def)

definition is_span :: "act \<Rightarrow> bool" where
  "is_span a \<longleftrightarrow> (case a of LogMsg e m \<Rightarrow> False | ExitCalled c \<Rightarrow> False | _ \<Rightarrow> True)"

abbreviation spans_of :: "obs \<Rightarrow> act list" where
  "spans_of w \<equiv> filter is_span (ob_trace w)"

text \<open>The spans of n ticks, numbered from k.\<close>

definition tick_spans :: "nat \<Rightarrow> nat \<Rightarrow> act list" where
  "tick_spans k n = concat (map (\<lambda>j. [SpanStart j ''example.tick'' [], SpanEnd j]) [k..<k + n])"

lemma tick_spans_Suc: "tick_spans k (Suc n) = SpanStart k ''example.tick'' [] # SpanEnd k # tick_spans (Suc k) n"
  by (simp add: tick_spans_def upt_conv_Cons)

lemma tick_effect:
  assumes "still p0 (ex_proc s)"
  shows "still p0 (ex_proc (example_tick su c h tk s))"
    and "ex_out (example_tick su c h tk s) = ex_out s @ [example_line (ex_i s + 1)]"
    and "ex_i (example_tick su c h tk s) = ex_i s + 1"
    and "ex_done (example_tick su c h tk s) \<longleftrightarrow> ex_done s \<or> ex_i s + 1 \<ge> 10"
    and "spans_of (ex_obs (example_tick su c h tk s)) =
      spans_of (ex_obs s) @ [SpanStart (ob_next (ex_obs s)) ''example.tick'' [], SpanEnd (ob_next (ex_obs s))]"
    and "ob_next (ex_obs (example_tick su c h tk s)) = ob_next (ex_obs s) + 1"
  using still_caches [OF assms]
  by (auto simp: example_tick_def Let_def ex_measured_def TraceFunc_def StartSpan_def EndSpan_def is_span_def
      ev_Msg_def emit_def split: prod.split)

lemma ticks_effect:
  assumes "still p0 (ex_proc s)"
  shows "\<exists>s'. example_loop su c h (map Ticked tks @ rs) s = example_loop su c h rs s' \<and> still p0 (ex_proc s') \<and>
    ex_out s' = ex_out s @ map example_line [ex_i s + 1..ex_i s + int (length tks)] \<and>
    ex_i s' = ex_i s + int (length tks) \<and> (ex_done s' \<longleftrightarrow> ex_done s \<or> tks \<noteq> [] \<and> ex_i s + int (length tks) \<ge> 10) \<and>
    spans_of (ex_obs s') = spans_of (ex_obs s) @ tick_spans (ob_next (ex_obs s)) (length tks)"
  using assms
proof (induction tks arbitrary: s)
  case Nil
  then show ?case by (intro exI [where x = s]) (simp add: tick_spans_def)
next
  case (Cons tk tks)
  let ?s1 = "example_tick su c h tk s"
  note eff = tick_effect [OF Cons.prems, of su c h tk]
  obtain s' where s': "example_loop su c h (map Ticked tks @ rs) ?s1 = example_loop su c h rs s'"
    "still p0 (ex_proc s')" "ex_out s' = ex_out ?s1 @ map example_line [ex_i ?s1 + 1..ex_i ?s1 + int (length tks)]"
    "ex_i s' = ex_i ?s1 + int (length tks)"
    "ex_done s' \<longleftrightarrow> ex_done ?s1 \<or> tks \<noteq> [] \<and> ex_i ?s1 + int (length tks) \<ge> 10"
    "spans_of (ex_obs s') = spans_of (ex_obs ?s1) @ tick_spans (ob_next (ex_obs ?s1)) (length tks)"
    using Cons.IH [OF eff(1)] by blast
  have "[ex_i s + 1..ex_i s + int (length (tk # tks))] =
      (ex_i s + 1) # [ex_i s + 1 + 1..ex_i s + 1 + int (length tks)]"
    by (subst upto_rec1) (simp_all add: algebra_simps)
  then have "ex_out s' = ex_out s @ map example_line [ex_i s + 1..ex_i s + int (length (tk # tks))]"
    using s'(3) eff(2,3) by simp
  then show ?case
    using s' eff by (intro exI [where x = s']) (auto simp: tick_spans_Suc)
qed

text \<open>The registry of a telemetry that nobody has asked is empty.\<close>

lemma fresh_registry:
  "tel_run meterOf cfg p \<Longrightarrow> t_cfg (p_tel p) = cfg \<and> (\<exists>mp svc a e. t_registry (p_tel p) =
    Some (newRegistryWithCache (meterOf mp svc) a (Some 0) e (maxInstrumentsFromCfg cfg)))"
proof (induction rule: tel_run.induct)
  case init
  show ?case by (auto simp: new_proc_def newTelemetry_def Let_def refreshTracerLocked_def)
next
  case (step p out t p')
  note frame = step_registry [OF step.hyps(2)]
  show ?case
  proof (cases "same_registry (p_tel p') (p_tel p)")
    case True
    then have "t_registry (p_tel p') = t_registry (p_tel p)" by (simp add: same_registry_def)
    then show ?thesis using step.IH frame(1) by simp
  next
    case False
    then have "next_registry meterOf (p_tel p') (p_tel p)" using frame(2) by blast
    then show ?thesis using step.IH frame(1) unfolding next_registry_def by auto
  qed
qed simp

lemma instruments_made:
  assumes "Int64Counter m ''example.processed'' [] = Inr c" "Float64Histogram m ''example.latency_seconds'' [] = Inr h"
    and "2 \<le> n"
  obtains processed latency r1 r2 w1 w2 where
    "Counter (newRegistryWithCache m a p e n) ''example.processed'' [] w = (Inr processed, r1, w1)"
    "Histogram r1 ''example.latency_seconds'' [] w1 = (Inr latency, r2, w2)"
  using assms
  by (simp add: Counter_get Histogram_get counters.get_locked hists.get_locked getOrCreate_locked_def
      newRegistryWithCache_def createCounter_def createHistogram_def instrumentCount_def put_defs Let_def)

section \<open>The property\<close>

text \<open>
  C37: The example program ends and leaves nothing behind: when the configuration loads, nothing it
  enables fails to start and the two instruments can be created, then on ten ticks or more, or on a
  signal after any number of them, and whatever the clock says and the exporters answer while
  closing, main returns once the context's end is taken; it has printed one line for each tick, with
  the subjects in turn, and the last line; each tick has started one span and ended it; and the
  telemetry is stopped with every resource released.
\<close>

theorem example_ends:
  fixes su :: "('opt, 'inst, 'set) surroundings"
  assumes cfg: "GetConfigFromEnv (ia_env (su_init su)) (example_env e) = (Inr cfg, e1)"
    and start: "start_error cfg (su_start su) = None" and limit: "2 \<le> maxInstrumentsFromCfg cfg"
    and made: "\<And>mp svc. \<exists>c h. Int64Counter (su_meters su mp svc) ''example.processed'' [] = Inr c \<and>
      Float64Histogram (su_meters su mp svc) ''example.latency_seconds'' [] = Inr h"
    and alive: "ob_trace w = []" and over: "sig = [] \<and> 10 \<le> length tks \<or> sig = [Signalled]"
  shows "\<exists>s. example_main su e w (map Ticked tks @ sig @ CtxDone # rs) = Returned s \<and>
    ex_out s = map example_line [1..int (length tks)] @ [''shutting down'' @ [CHR 0x0A]] \<and>
    spans_of (ex_obs s) = tick_spans (ob_next w) (length tks) \<and>
    \<not> t_started (p_tel (ex_proc s)) \<and> p_live (ex_proc s) = {}"
proof -
  let ?ia = "(su_init su)\<lparr>ia_exit := os_exit\<rparr>"
  let ?w = "applyLoggerFromConfig (ia_levels (su_init su)) (ia_info (su_init su)) (ia_env (su_init su)) e1 cfg w"
  obtain p :: "('opt, 'inst, 'set) proc" where p: "InitWithConfig (su_meters su) ?ia e1 (su_start su) 0 cfg w =
      (None, \<lparr> app_obs = ?w, app_proc = p, app_global = True, app_returned = True \<rparr>)" "p_pcs p 0 = StartDone None"
      "t_started (p_tel p)" "p_live p = start_res cfg 1" "tel_all_res (p_tel p) = start_res cfg 1"
      "tel_run (su_meters su) cfg p"
  proof (rule InitWithConfig_started [OF start, of "su_meters su" ?ia e1 0 w, where ?'set = 'set], goal_cases)
    case (1 p')
    show ?thesis by (rule that [of p']) (use 1(2-) in simp_all)
  qed
  then have init: "Init (su_meters su) ?ia (su_start su) 0 (example_env e) w =
      (\<lparr> app_obs = ?w, app_proc = p, app_global = True, app_returned = True \<rparr>, e1)"
    using cfg by (simp add: Init_def Let_def)
  have w: "ob_trace ?w = []" "ob_next ?w = ob_next w"
    using alive by (simp_all add: applyLoggerFromConfig_def InitLogger_def SetLogger_def Let_def)
  obtain mp svc a k where reg: "t_registry (p_tel p) =
      Some (newRegistryWithCache (su_meters su mp svc) a (Some 0) k (maxInstrumentsFromCfg cfg))"
    using fresh_registry [OF p(6)] by blast
  obtain c h where "Int64Counter (su_meters su mp svc) ''example.processed'' [] = Inr c"
    "Float64Histogram (su_meters su mp svc) ''example.latency_seconds'' [] = Inr h"
    using made by blast
  note made = instruments_made [OF this limit]
  let ?s0 = "\<lparr> ex_env = e1, ex_obs = ?w, ex_proc = p, ex_world = \<lparr> w_caches = p_caches p, w_epochs = (\<lambda>x. 0),
    w_calls = [], w_logs = [], w_registered = [] \<rparr>, ex_i = 0, ex_done = False, ex_out = [] \<rparr>"
  obtain processed latency r1 r2 m1 m2 where made2:
    "Counter (newRegistryWithCache (su_meters su mp svc) a (Some 0) k (maxInstrumentsFromCfg cfg))
       ''example.processed'' [] (ex_view ?s0) = (Inr processed, r1, m1)"
    "Histogram r1 ''example.latency_seconds'' [] m1 = (Inr latency, r2, m2)"
    by (rule made)
  let ?s = "ex_measured m2 (?s0\<lparr>ex_proc := p\<lparr>p_tel := (p_tel p)\<lparr>t_registry := Some r2\<rparr>\<rparr>\<rparr>)"
  have main: "example_main su e w rs' = example_loop su processed latency rs' ?s" for rs'
    using w(1) by (simp add: example_main_def init Let_def exited_def tel_Registry_def reg made2)
  have still: "still p (ex_proc ?s)" by (auto simp: still_def ex_measured_def)
  from ticks_effect [OF still, of su processed latency tks "sig @ CtxDone # rs"] obtain s where
    s: "example_loop su processed latency (map Ticked tks @ sig @ CtxDone # rs) ?s =
      example_loop su processed latency (sig @ CtxDone # rs) s"
    "still p (ex_proc s)" "ex_out s = map example_line [1..int (length tks)]" "ex_i s = int (length tks)"
    "ex_done s \<longleftrightarrow> tks \<noteq> [] \<and> 10 \<le> int (length tks)" "spans_of (ex_obs s) = tick_spans (ob_next w) (length tks)"
    using w by (auto simp: ex_measured_def)
  let ?s1 = "s\<lparr>ex_out := ex_out s @ [''shutting down'' @ [CHR 0x0A]], ex_done := True\<rparr>"
  have ends: "example_main su e w (map Ticked tks @ sig @ CtxDone # rs) = Returned (example_shutdown su ?s1)"
    unfolding main s(1) using over s(5) by auto
  obtain x where tel: "p_tel (ex_proc s) = (p_tel p)\<lparr>t_registry := x\<rparr>" "p_pcs (ex_proc s) = p_pcs p"
    "p_live (ex_proc s) = p_live p"
    using s(2) by (auto simp: still_def)
  have "RDetector d \<in> p_live (ex_proc s)" if "t_cardinality (p_tel (ex_proc s)) = Some d" for d
    using that p(4,5) by (auto simp: tel tel_all_res_def)
  moreover have "at_rest (p_pcs (ex_proc s) 0)" "t_started (p_tel (ex_proc s))" using p(2,3) by (simp_all add: tel)
  ultimately obtain errs p' where down: "tel_Shutdown (su_meters su) (su_shutdown su) 0 (ex_proc s) = (errs, p')"
    "\<not> t_started (p_tel p')" "p_live p' = p_live (ex_proc s) - tel_all_res (p_tel (ex_proc s))"
    using tel_Shutdown_alone by metis
  have "tel_all_res (p_tel (ex_proc s)) = tel_all_res (p_tel p)" by (simp add: tel tel_all_res_def tel_res_def)
  then have "p_live p' = {}" using down(3) p(4,5) by (simp add: tel)
  then show ?thesis
    using down(1,2) s(3,6) ends
    by (auto simp: example_shutdown_def Let_def is_span_def ev_Msg_def emit_def split: option.split)
qed


text \<open>Ten ticks with no environment variable set: the exporters stay off.\<close>

definition demo_surroundings :: "(string, instKind \<times> string, keyValue list) surroundings" where
  "demo_surroundings = \<lparr> su_init = \<lparr> ia_levels = zerolog_like, ia_info = 1, ia_env = demo_env_api,
       ia_exit = os_exit, ia_text = (\<lambda>err. []) \<rparr>,
     su_meters = (\<lambda>mp svc. echo_meter), su_attrs = list_api, su_span = demo_span, su_rnd = Fin,
     su_start = fine, su_shutdown = fine \<rparr>"

definition ten_ticks :: "tick list" where
  "ten_ticks = replicate 10 \<lparr> tk_start = 1, tk_stop = 6000000, tk_since = 5000000 \<rparr>"

lemma demo_config_loads:
  "case GetConfigFromEnv demo_env_api (example_env (\<lambda>key. None)) of (Inl err, e1) \<Rightarrow> False
   | (Inr cfg, e1) \<Rightarrow> start_error cfg fine = None \<and> 2 \<le> maxInstrumentsFromCfg cfg"
proof -
  let ?e = "[''TEL_SERVICE_NAME'' \<mapsto> ''tel-example'', ''MONITOR_ENABLE'' \<mapsto> ''false'',
    ''LOG_ENCODE'' \<mapsto> ''console'', ''TEL_ENABLE'' \<mapsto> ''false'']"
  have e: "example_env (\<lambda>key. None) = ?e" by (simp add: example_env_def getenv_def)
  have "loadDotEnv demo_env_api ?e = (None, ?e)" by (simp add: loadDotEnv_def demo_env_api_def Let_def)
  moreover have "ea_IsEmpty demo_env_api s \<longleftrightarrow> s = []" for s by (simp add: demo_env_api_def)
  then obtain cfg where "LoadConfig demo_env_api ?e = (cfg, None)" "\<not> tl_Enable (cf_TelConfig cfg)"
    "\<not> mc_Enable (cf_MonitorConfig cfg)"
    using demo_parses
    by (simp add: LoadConfig_def loadConfig_defs load_text_def load_parsed_def parses_defaults_def
        zeroConfig_def set_tel_def set_monitor_def default_defs)
  moreover have keep: "cf_MonitorConfig (applyNestedEnv demo_env_api ?e c) = cf_MonitorConfig c"
    "tl_Enable (cf_TelConfig (applyNestedEnv demo_env_api ?e c)) = tl_Enable (cf_TelConfig c)"
    "maxInstrumentsFromCfg (applyNestedEnv demo_env_api ?e c) = 500" for c
    by (simp_all add: applyNestedEnv_def set_tel_def maxInstrumentsFromCfg_def nested_detector_def envInt_def
        defaultMaxInstruments_def)
  moreover have "maxInstrumentsFromCfg (c\<lparr>cf_Service := x\<rparr>) = maxInstrumentsFromCfg c"
    "maxInstrumentsFromCfg (c\<lparr>cf_Pod := x\<rparr>) = maxInstrumentsFromCfg c" for c x
    by (simp_all add: maxInstrumentsFromCfg_def)
  ultimately show ?thesis
    by (simp add: e GetConfigFromEnv_def Let_def start_error_def traces_on_def)
qed

theorem example_ends_witness:
  "\<exists>s. example_main demo_surroundings (\<lambda>key. None) demo_obs (map Ticked ten_ticks @ [CtxDone]) = Returned s \<and>
     length (ex_out s) = 11 \<and> hd (ex_out s) = ''recorded subject=demo.1 n=1'' @ [CHR 0x0A] \<and> p_live (ex_proc s) = {}"
proof -
  obtain cfg e1 where cfg: "GetConfigFromEnv (ia_env (su_init demo_surroundings)) (example_env (\<lambda>key. None)) = (Inr cfg, e1)"
    "start_error cfg (su_start demo_surroundings) = None" "2 \<le> maxInstrumentsFromCfg cfg"
    using demo_config_loads by (auto simp: demo_surroundings_def split: prod.splits sum.splits)
  have line: "example_line 1 = ''recorded subject=demo.1 n=1'' @ [CHR 0x0A]" by code_simp
  have "\<exists>s. example_main demo_surroundings (\<lambda>key. None) demo_obs (map Ticked ten_ticks @ [] @ CtxDone # []) = Returned s \<and>
      ex_out s = map example_line [1..int (length ten_ticks)] @ [''shutting down'' @ [CHR 0x0A]] \<and>
      spans_of (ex_obs s) = tick_spans (ob_next demo_obs) (length ten_ticks) \<and>
      \<not> t_started (p_tel (ex_proc s)) \<and> p_live (ex_proc s) = {}"
    by (rule example_ends [OF cfg]) (simp_all add: demo_surroundings_def echo_meter_def demo_obs_def ten_ticks_def)
  moreover have "[1..10::int] = 1 # [2..10]" by (simp add: upto_rec1)
  ultimately show ?thesis using line by (auto simp: ten_ticks_def)
qed

end
