(* ===== verification/Spec2Isabelle.thy ===== *)
theory Spec2Isabelle
  imports Go_Strings Attr_Cache_Props Attr_Cache_Conc Cardinality_Report Fast_Instruments
    Log_Sampler Log_Sampler_Conc Detector_Life Trace_Sampler Tel_Config Lifecycle_Races
    Log_Props Log_Stack Log_Globals Registry_Conc Trace_Headers Http_Server Providers Monitor Tel_Init
    Config_Audit System_Cardinality Example_Basic
begin

text \<open>
  A model of gopherust-io/tel, a Go library that gives a process its metrics, traces and logs on top
  of OpenTelemetry and zerolog. This theory only imports the others; each of them opens with what
  it holds. File names are those under src/.

  The program. A process has one \<open>Telemetry\<close> (tel.go), created from a \<open>Config\<close> (model.go), which the
  environment fills (config\_env.go, and the generated config\_env\_gen.go). Start builds providers
  and exporters (provider.go, trace\_provider.go, otlp\_dial.go, compression.go), an attribute cache
  with its cardinality detector (metric.go, cardinality.go), an HTTP monitor (monitor.go) and a
  registry of instruments (instruments.go), and installs them; Shutdown takes them out again and
  releases them, and moves the epoch counter, which makes the instruments handed out before inert.
  Spans and header propagation are in trace.go, the process logger with its fields, stack traces
  and rate sampler in zlog.go, zlog\_fields.go, ctx\_fields.go and log\_sampler.go, the trace sampler in
  sampler.go; middleware/fasthttp puts spans and log lines around HTTP handlers, and
  internal/bytesconv converts strings and byte slices without copying.

  Conventions. Go's int and int64 are \<^typ>\<open>int\<close> with the wrap-around written out (\<open>wrap64\<close>), uint32 and
  uint64 are words, a string is a list of bytes, a float64 is a rational, an infinity or NaN with
  the rounding a parameter. An error is a value of a sum or option type. What the code shares by
  pointer (caches, the epoch counter, header slices) lives in a store under an address; what is
  never changed once built (instruments, registries apart from their maps) is a value. The steps
  of concurrent code are functions into an option, \<^const>\<open>None\<close> where the goroutine is blocked, and the
  reachable states an inductive predicate; locks of the Go runtime are steps that must be enabled.
\<close>

text \<open>
  The theories.

  Foundations. Tel\_Prelude: machine integers, floats, lists, collections of rules. Interleaving: the
  locale \<open>interleaving\<close> of goroutines whose calls end, with a bound on every schedule; the lifecycle,
  the registry and the logger's globals are its instances. Go\_Strings: the
  functions of strings and strconv, with the laws of splitting, trimming and number parsing that
  the parsers rest on. Bytesconv: views of a memory. Defaults: defaults.go.

  The attribute cache (metric.go). Attr\_Hash is the shard hash; Detector the state of
  cardinality.go; Attr\_Cache every operation of the cache on one goroutine. Attr\_Cache\_Spec states the
  contract as two locales: \<open>bounded_intern\<close>, a bounded table that interns keys, and \<open>guarded_intern\<close>, the
  deny filter in front of it. Attr\_Cache\_Correct gives the invariant \<open>cache_wf\<close> and the abstraction
  \<open>cache_view\<close> and interprets both locales on the code; Attr\_Cache\_Props holds the refinement, the deny
  mode and the bounds. Attr\_Cache\_Conc is the same cache at the level of atomic steps of any number of
  goroutines, with the compare-and-swap loop of reserveSlot: the bound holds at every moment, each
  step refines the table, calls end and do not deadlock. Cardinality\_Report is the report, the
  snapshot and the background goroutine of the detector.

  Instruments (instruments.go). Instruments is the registry, the three kinds and the timer;
  Instruments\_Correct the locale \<open>once_registry\<close> of a map behind getOrCreate and its three
  interpretations; Registry\_Conc the same getOrCreate step by step under its RWMutex, with the proof
  that concurrent requests amount to whole ones in some order and that each instrument is created once; Fast\_Instruments the locale \<open>fast_instrument\<close> of what the kinds do with labels, its
  three interpretations, and the bound on the attribute sets an instrument can emit.

  Configuration. Tel\_Config is model.go, the generated loader, the nested settings and the default
  configurations; Config\_Audit the loader's variants and the audit schema; Tel\_Init the entry points
  Init and InitWithConfig.

  Lifecycle (tel.go). Lifecycle has Start, Shutdown and AllowSubjects as steps between the releases of
  the mutex (\<open>tel_step\<close>, put together from \<open>start_step\<close>, \<open>monitor_step\<close>, \<open>shutdown_step\<close> and
  \<open>allow_subjects_step\<close>), with what exporters and listener answer as an argument, the outcome.
  Lifecycle\_Correct and Lifecycle\_Detector prove who owns which provider, monitor and detector;
  Lifecycle\_Props that nothing leaks and that every schedule ends with all calls returned; Lifecycle\_Runs what a whole Start or Shutdown
  does, failures included; Lifecycle\_Races the schedules that end badly;
  Detector\_Life that a run of the lifecycle starts and stops each detector at most once, which its
  unguarded Start and Stop rely on. Providers is what a Start
  builds: dial settings, TLS, options, interval, views; Monitor the HTTP server, its handlers and the
  statistics.

  The system. System\_Use composes the lifecycle with the use of instruments: goroutines ask current and
  replaced registries, derive instruments and measure while others start and stop the telemetry.
  System\_Correct has what every event preserves (locale \<open>instrument_map\<close>, an extension of
  \<open>once_registry\<close>, interpreted on the three kinds), System\_Props the epochs, System\_Bounds the bounds of
  caches and registries, System\_Cardinality what all the instruments of one cache can send the SDK.
  Example\_Basic is the program of examples/basic, from its Init to its deferred Shutdown, for every
  answer of the environment.

  Logs and traces. Log\_Sampler and Trace\_Sampler are the samplers with their parsers; Log\_Sampler\_Conc is
  the log sampler at the level of its atomic operations, with what its global cap is worth when
  several goroutines log. Log\_Context holds
  contexts and loggers, Logging the process logger and events, Log\_Globals the two pointers behind the
  process logger and the stores of the calls that set them, which Logging's calls abstract, Log\_Props
  what events carry, Log\_Stack the
  stack frames and their way through a decoded event. Spans has StartSpan, EndSpan and TraceFunc;
  Trace\_Headers the header map as a carrier (locale \<open>text_carrier\<close>, interpreted on the code's map of
  slices that share arrays); Http\_Server the middleware.
\<close>

text \<open>
  Code outside src/ is a parameter. \<open>attr_api\<close> builds OpenTelemetry's attribute sets and options; \<open>meters\<close>
  gives the meter of a provider, which creates an instrument or refuses; \<open>outcome\<close> is what exporters,
  listener and shutdown functions answer; \<open>level_api\<close> is zerolog's levels and ParseLevel; \<open>env_api\<close> the env
  package, the host name and time.ParseDuration; \<open>tls_api\<close> the crypto packages; \<open>http_api\<close> fasthttp's headers
  and the propagator; the JSON package, runtime.CallersFrames and the SDK's samplers are functions;
  the clock is an argument. A property that relies on documented behaviour of one of these says so in
  a hypothesis (that the env package parses the defaults of the struct tags, that the propagator reads
  back what it wrote), and its witness instantiates it.

  Bounds. A lifecycle call has at most seven steps left (\<open>steps_left\<close>). Epochs are 64-bit words, so
  what is said of epochs is said of runs of fewer than \<open>2 ^ 64\<close> events, beyond which an old epoch could
  come back. Cache bounds are int64 values; the utilisation of the report is exact while the capacity
  times 100 fits. The export interval is the configured one up to 9223372036 seconds, where the
  conversion to nanoseconds stops fitting. A captured stack has 64 program counters. No model needs
  fuel: recursions are structural or have a termination proof, and concurrent code is a step relation.

  Atomicity. A step is what runs between two synchronisation points of the code. A lookup in the
  attribute cache is one step in System\_Use, which Attr\_Cache\_Conc justifies, and a request to a registry
  is one, which Registry\_Conc justifies; a call of the log sampler is one in Log\_Sampler and several
  in Log\_Sampler\_Conc, where it is not atomic: its counters can be set back by a caller that was
  overtaken; a measurement is two, its reading of the epoch and its call.
  A call that sets the process logger is one step in Logging, which holds for calls that do not overlap
  (Log\_Globals, where two that do can leave the package's pointer and zerolog's default apart). What a
  Start calls besides the mutex (exporters, listener) is one step each. In Init the Start runs alone.

  Simplifications that hold in the code. Go's struct types of equal fields that are converted into each
  other are one record. The nil tracer guard of StartSpan cannot be reached, since every constructor sets
  a tracer. The path that Server reads before the handler runs is a value although the code keeps
  fasthttp's slice, so a handler that rewrites the URI is outside the model. A number of decoded JSON
  is exact when it is whole.

  Not modelled: what zerolog and the JSON encoder print for a logger's calls; the goroutine that
  serves the monitor once it listens; zerolog's and the SDK's process-wide settings beyond the
  flags \<open>ob_colors\<close>, \<open>p_propagator\<close> and \<open>p_compression\<close> and the console colours of Log\_Globals; the signal
  that ends the example, which is an argument of its model.
\<close>

end
